(* ===== verification/Muduo_Prelude.thy ===== *)
theory Muduo_Prelude
  imports Main "HOL-Library.Word"
begin

text \<open>
  Shared vocabulary of the development: the result type of C++ code that may stop (a failed
  \<^verbatim>\<open>assert\<close>, a \<^verbatim>\<open>LOG(FATAL)\<close>, an exception of the standard library, undefined behaviour),
  \<^verbatim>\<open>size_t\<close> and \<^verbatim>\<open>int\<close> arithmetic with its wrap-around written out, the parts of the C and
  C++ standard library the sources call on character ranges, and the generic list lemmas the
  component theories use. The collections \<open>outcome_simps\<close> and \<open>machine_simps\<close> carry most
  component proofs.
\<close>

section \<open>Outcomes\<close>

named_theorems outcome_simps \<open>evaluation of outcomes, assertions and sequencing\<close>
named_theorems machine_simps \<open>size_t and int operations where they do not wrap\<close>

datatype abort =
    AssertFailed string
  | LogFatal string
  | LengthError
  | BadAlloc
  | UndefinedBehaviour string
  | StdTerminate
  | SystemError
  | AbortCalled

type_synonym 'a outcome = "abort + 'a"

definition asserting :: "bool \<Rightarrow> string \<Rightarrow> 'a outcome \<Rightarrow> 'a outcome" where
  "asserting b what k = (if b then k else Inl (AssertFailed what))"

definition and_then :: "'a outcome \<Rightarrow> ('a \<Rightarrow> 'b outcome) \<Rightarrow> 'b outcome" where
  "and_then m f = (case m of Inl e \<Rightarrow> Inl e | Inr x \<Rightarrow> f x)"

definition returns :: "'a outcome \<Rightarrow> bool" where
  "returns m = (case m of Inl _ \<Rightarrow> False | Inr _ \<Rightarrow> True)"

lemma asserting_True [simp, outcome_simps]: "b \<Longrightarrow> asserting b what k = k"
  by (simp add: asserting_def)

lemma asserting_False [simp, outcome_simps]: "\<not> b \<Longrightarrow> asserting b what k = Inl (AssertFailed what)"
  by (simp add: asserting_def)

lemma asserting_Inr_iff [outcome_simps]: "asserting b what k = Inr x \<longleftrightarrow> b \<and> k = Inr x"
  by (simp add: asserting_def)

lemma and_then_Inr [simp, outcome_simps]: "and_then (Inr x) f = f x"
  by (simp add: and_then_def)

lemma and_then_Inl [simp, outcome_simps]: "and_then (Inl e) f = Inl e"
  by (simp add: and_then_def)

lemma and_then_Inr_iff [outcome_simps]:
  "and_then m f = Inr y \<longleftrightarrow> (\<exists>x. m = Inr x \<and> f x = Inr y)"
  by (cases m) auto

lemma and_then_assoc: "and_then (and_then m f) g = and_then m (\<lambda>x. and_then (f x) g)"
  by (cases m) auto

lemma returns_Inr [simp, outcome_simps]: "returns (Inr x)"
  by (simp add: returns_def)

lemma returns_Inl [simp, outcome_simps]: "\<not> returns (Inl e)"
  by (simp add: returns_def)

lemma returns_iff: "returns m \<longleftrightarrow> (\<exists>x. m = Inr x)"
  by (cases m) auto

text \<open>A loop over a list whose body may stop.\<close>

fun for_each :: "('x \<Rightarrow> 's \<Rightarrow> 's outcome) \<Rightarrow> 'x list \<Rightarrow> 's \<Rightarrow> 's outcome" where
  "for_each body [] s = Inr s"
| "for_each body (x # xs) s = and_then (body x s) (for_each body xs)"

lemma for_each_append:
  "for_each body (xs @ ys) s = and_then (for_each body xs s) (for_each body ys)"
proof (induction xs arbitrary: s)
  case (Cons x xs)
  then show ?case by (cases "body x s") simp_all
qed simp

lemma for_each_cong:
  "(\<And>x s. x \<in> set xs \<Longrightarrow> f x s = g x s) \<Longrightarrow> for_each f xs s = for_each g xs s"
proof (induction xs arbitrary: s)
  case (Cons x xs)
  then show ?case by (cases "g x s") simp_all
qed simp

text \<open>
  The loop rule: an invariant indexed by the part of the list still to be visited is kept by
  every iteration, and then the loop returns with the invariant for the empty rest.
\<close>

lemma for_each_invariant:
  assumes "I xs s"
    and "\<And>x rest t. I (x # rest) t \<Longrightarrow> \<exists>t'. body x t = Inr t' \<and> I rest t'"
  shows "\<exists>s'. for_each body xs s = Inr s' \<and> I [] s'"
  using assms(1)
proof (induction xs arbitrary: s)
  case Nil
  then show ?case by simp
next
  case (Cons x xs)
  from assms(2) [OF Cons.prems] obtain t where "body x s = Inr t" "I xs t" by blast
  with Cons.IH show ?case by simp
qed

text \<open>
  \<open>safely P m\<close>: the code returns with \<open>P\<close>, or an allocation failed; no assertion failed and
  nothing undefined happened.
\<close>

definition safely :: "('a \<Rightarrow> bool) \<Rightarrow> 'a outcome \<Rightarrow> bool" where
  "safely P m = (case m of Inl e \<Rightarrow> e = BadAlloc | Inr x \<Rightarrow> P x)"

lemma safely_Inr [simp, outcome_simps]: "safely P (Inr x) \<longleftrightarrow> P x"
  by (simp add: safely_def)

lemma safely_Inl [simp, outcome_simps]: "safely P (Inl e) \<longleftrightarrow> e = BadAlloc"
  by (simp add: safely_def)

lemma safely_and_then: "safely P m \<Longrightarrow> (\<And>x. P x \<Longrightarrow> safely Q (f x)) \<Longrightarrow> safely Q (and_then m f)"
  by (cases m) auto

lemma safely_mono: "safely P m \<Longrightarrow> (\<And>x. P x \<Longrightarrow> Q x) \<Longrightarrow> safely Q m"
  by (cases m) auto

lemma safely_for_each:
  assumes "P s" and "\<And>x t. x \<in> set xs \<Longrightarrow> P t \<Longrightarrow> safely P (body x t)"
  shows "safely P (for_each body xs s)"
  using assms
proof (induction xs arbitrary: s)
  case (Cons x xs)
  have "safely P (body x s)" using Cons.prems by simp
  then show ?case using Cons.prems(2)
    by (auto intro!: safely_and_then Cons.IH)
qed simp

text \<open>One iteration establishes \<open>Q\<close>, every iteration keeps it: it holds after the loop.\<close>

lemma safely_for_each_establishes:
  assumes "P s" and "x \<in> set xs"
    and "\<And>y t. y \<in> set xs \<Longrightarrow> P t \<Longrightarrow> safely (\<lambda>t'. P t' \<and> (Q t \<longrightarrow> Q t')) (body y t)"
    and "\<And>t. P t \<Longrightarrow> safely Q (body x t)"
  shows "safely (\<lambda>t. P t \<and> Q t) (for_each body xs s)"
  using assms(1,2,3)
proof (induction xs arbitrary: s)
  case (Cons y ys)
  have step: "safely (\<lambda>t. P t \<and> (Q s \<longrightarrow> Q t)) (body y s)" using Cons.prems by simp
  show ?case
  proof (cases "y = x")
    case True
    have "safely (\<lambda>t. P t \<and> Q t) (body y s)"
      using step assms(4) [OF Cons.prems(1)] True by (cases "body y s") auto
    moreover have "safely (\<lambda>t. P t \<and> Q t) (for_each body ys t)" if "P t \<and> Q t" for t
    proof (rule safely_for_each [where P = "\<lambda>t. P t \<and> Q t"])
      fix z u
      assume "z \<in> set ys" "P u \<and> Q u"
      then show "safely (\<lambda>t. P t \<and> Q t) (body z u)"
        using Cons.prems(3) [of z u] by (auto elim: safely_mono)
    qed (rule that)
    ultimately show ?thesis by (auto intro: safely_and_then)
  next
    case False
    with Cons.prems have "x \<in> set ys" by simp
    with Cons step show ?thesis by (auto intro!: safely_and_then [OF step] Cons.IH)
  qed
qed simp

text \<open>\<open>barring E P m\<close>: the code returns with \<open>P\<close> or stops for one of the reasons \<open>E\<close>.\<close>

definition barring :: "abort set \<Rightarrow> ('a \<Rightarrow> bool) \<Rightarrow> 'a outcome \<Rightarrow> bool" where
  "barring E P m = (case m of Inl e \<Rightarrow> e \<in> E | Inr x \<Rightarrow> P x)"

lemma barring_Inr [simp, outcome_simps]: "barring E P (Inr x) \<longleftrightarrow> P x"
  by (simp add: barring_def)

lemma barring_Inl [simp, outcome_simps]: "barring E P (Inl e) \<longleftrightarrow> e \<in> E"
  by (simp add: barring_def)

lemma barring_and_then:
  "barring E P m \<Longrightarrow> (\<And>x. P x \<Longrightarrow> barring E Q (f x)) \<Longrightarrow> barring E Q (and_then m f)"
  by (cases m) auto

lemma barring_mono: "barring E P m \<Longrightarrow> (\<And>x. P x \<Longrightarrow> Q x) \<Longrightarrow> barring E Q m"
  by (cases m) auto

lemma barring_for_each:
  assumes "P s" and "\<And>x t. x \<in> set xs \<Longrightarrow> P t \<Longrightarrow> barring E P (body x t)"
  shows "barring E P (for_each body xs s)"
  using assms
proof (induction xs arbitrary: s)
  case (Cons x xs)
  have "barring E P (body x s)" using Cons.prems by simp
  then show ?case using Cons.prems(2) by (auto intro!: barring_and_then Cons.IH)
qed simp

section \<open>Machine integers\<close>

text \<open>
  A \<^verbatim>\<open>size_t\<close> is a natural number below \<open>2 ^ 64\<close>; its arithmetic is that of
  \<open>64 word\<close>. A conversion to \<^verbatim>\<open>int\<close> keeps the low 32 bits in two's complement, and a
  negative \<^verbatim>\<open>int\<close> becomes a \<^verbatim>\<open>size_t\<close> by adding \<open>2 ^ 64\<close>.
\<close>

definition size_add :: "nat \<Rightarrow> nat \<Rightarrow> nat" where
  "size_add a b = (a + b) mod 2 ^ 64"

definition size_sub :: "nat \<Rightarrow> nat \<Rightarrow> nat" where
  "size_sub a b = nat ((int a - int b) mod 2 ^ 64)"

definition int_of_size :: "nat \<Rightarrow> int" where
  "int_of_size n = (int n + 2 ^ 31) mod 2 ^ 32 - 2 ^ 31"

definition size_of_int :: "int \<Rightarrow> nat" where
  "size_of_int i = nat (i mod 2 ^ 64)"

lemma size_add_exact [machine_simps]: "a + b < 2 ^ 64 \<Longrightarrow> size_add a b = a + b"
  by (simp add: size_add_def)

lemma size_sub_exact [machine_simps]: "b \<le> a \<Longrightarrow> a < 2 ^ 64 \<Longrightarrow> size_sub a b = a - b"
  by (simp add: size_sub_def nat_diff_distrib' flip: of_nat_diff)

lemma int_of_size_exact [machine_simps]: "n < 2 ^ 31 \<Longrightarrow> int_of_size n = int n"
  by (simp add: int_of_size_def)

lemma int_of_size_negative:
  assumes "2 ^ 31 \<le> n" "n < 2 ^ 32"
  shows "int_of_size n = int n - 2 ^ 32"
proof -
  have "(int n + 2 ^ 31) mod 2 ^ 32 = (int n - 2 ^ 31 + 2 ^ 32) mod 2 ^ 32" by (simp add: add.commute)
  also have "\<dots> = (int n - 2 ^ 31) mod 2 ^ 32" by (rule mod_add_self2)
  also have "\<dots> = int n - 2 ^ 31" using assms by (intro mod_pos_pos_trivial) simp_all
  finally show ?thesis by (simp add: int_of_size_def)
qed

lemma size_of_int_negative:
  assumes "i < 0" "- (2 ^ 64) \<le> i"
  shows "size_of_int i = nat (i + 2 ^ 64)"
proof -
  have "i mod 2 ^ 64 = (i + 2 ^ 64) mod 2 ^ 64" by (rule mod_add_self2 [symmetric])
  also have "\<dots> = i + 2 ^ 64" using assms by (intro mod_pos_pos_trivial) simp_all
  finally show ?thesis by (simp add: size_of_int_def)
qed

lemma size_of_int_exact [machine_simps]: "0 \<le> i \<Longrightarrow> i < 2 ^ 64 \<Longrightarrow> size_of_int i = nat i"
  by (simp add: size_of_int_def)

lemma size_add_word: "size_add a b = unat (of_nat a + of_nat b :: 64 word)"
  by (simp add: size_add_def unat_word_ariths unat_of_nat mod_add_eq)

text \<open>\<^verbatim>\<open>std::vector<char>::max_size()\<close> and \<^verbatim>\<open>resize\<close>.\<close>

definition vector_max_size :: nat where
  "vector_max_size = 2 ^ 63 - 1"

definition vector_resize :: "nat \<Rightarrow> char list \<Rightarrow> char list outcome" where
  "vector_resize n v =
     (if vector_max_size < n then Inl LengthError
      else Inr (take n v @ replicate (n - length v) (CHR 0x00)))"

section \<open>Character ranges\<close>

text \<open>
  \<^verbatim>\<open>std::search\<close>, \<^verbatim>\<open>std::find\<close> and \<^verbatim>\<open>memchr\<close> over the range \<open>[lo, hi)\<close> of an array,
  and \<^verbatim>\<open>std::copy\<close> into an array. Positions are offsets from the array's start.
\<close>

function std_search :: "'a list \<Rightarrow> nat \<Rightarrow> nat \<Rightarrow> 'a list \<Rightarrow> nat" where
  "std_search v lo hi pat =
     (if hi < lo + length pat \<or> hi \<le> lo then hi
      else if take (length pat) (drop lo v) = pat then lo
      else std_search v (Suc lo) hi pat)"
  by pat_completeness auto
termination
  by (relation "measure (\<lambda>(v, lo, hi, pat). hi - lo)") auto

function std_find :: "'a list \<Rightarrow> nat \<Rightarrow> nat \<Rightarrow> 'a \<Rightarrow> nat" where
  "std_find v lo hi x =
     (if hi \<le> lo then hi
      else if v ! lo = x then lo
      else std_find v (Suc lo) hi x)"
  by pat_completeness auto
termination
  by (relation "measure (\<lambda>(v, lo, hi, x). hi - lo)") auto

declare std_search.simps [simp del]
declare std_find.simps [simp del]

definition overwrite :: "nat \<Rightarrow> 'a list \<Rightarrow> 'a list \<Rightarrow> 'a list" where
  "overwrite at xs v = take at v @ xs @ drop (at + length xs) v"

definition range_of :: "'a list \<Rightarrow> nat \<Rightarrow> nat \<Rightarrow> 'a list" where
  "range_of v lo hi = take (hi - lo) (drop lo v)"

lemma length_overwrite [simp]:
  "at + length xs \<le> length v \<Longrightarrow> length (overwrite at xs v) = length v"
  by (simp add: overwrite_def)

lemma overwrite_Nil [simp]: "at \<le> length v \<Longrightarrow> overwrite at [] v = v"
  by (simp add: overwrite_def)

lemma length_range_of [simp]:
  "hi \<le> length v \<Longrightarrow> length (range_of v lo hi) = hi - lo"
  by (simp add: range_of_def)

lemma range_of_empty [simp]: "hi \<le> lo \<Longrightarrow> range_of v lo hi = []"
  by (simp add: range_of_def)

lemma range_of_split:
  assumes "lo \<le> mid" "mid \<le> hi"
  shows "range_of v lo hi = range_of v lo mid @ range_of v mid hi"
proof -
  have "hi - lo = (mid - lo) + (hi - mid)" using assms by simp
  then have "range_of v lo hi = take (mid - lo) (drop lo v) @ take (hi - mid) (drop (mid - lo) (drop lo v))"
    by (simp only: range_of_def take_add)
  with assms show ?thesis by (simp add: range_of_def)
qed

lemma range_of_overwrite_before:
  "hi \<le> at \<Longrightarrow> at \<le> length v \<Longrightarrow> range_of (overwrite at xs v) lo hi = range_of v lo hi"
  by (cases "lo \<le> hi") (simp_all add: range_of_def overwrite_def drop_take min_def)

lemma range_of_overwrite_same:
  "at \<le> length v \<Longrightarrow> range_of (overwrite at xs v) at (at + length xs) = xs"
  by (simp add: range_of_def overwrite_def)

lemma range_of_overwrite_after:
  "at + length xs \<le> lo \<Longrightarrow> at + length xs \<le> length v \<Longrightarrow>
   range_of (overwrite at xs v) lo hi = range_of v lo hi"
  by (simp add: range_of_def overwrite_def)

lemma range_of_resize:
  "hi \<le> length v \<Longrightarrow> hi \<le> n \<Longrightarrow>
   range_of (take n v @ replicate k c) lo hi = range_of v lo hi"
  by (cases "lo \<le> hi") (simp_all add: range_of_def drop_take min_def)

lemma take_range_of: "n \<le> hi - lo \<Longrightarrow> take n (range_of v lo hi) = range_of v lo (lo + n)"
  by (simp add: range_of_def min_def)

lemma drop_range_of: "drop n (range_of v lo hi) = range_of v (lo + n) hi"
  by (simp add: range_of_def drop_take add.commute)

lemma nth_range_of: "hi \<le> length v \<Longrightarrow> i < hi - lo \<Longrightarrow> range_of v lo hi ! i = v ! (lo + i)"
  by (simp add: range_of_def)

lemma occurs_iff:
  "(\<exists>post. xs = pre @ pat @ post) \<longleftrightarrow>
   length pre + length pat \<le> length xs \<and> take (length pre) xs = pre
   \<and> take (length pat) (drop (length pre) xs) = pat" (is "?L \<longleftrightarrow> ?R")
proof
  assume r: ?R
  have "xs = take (length pre) xs @ take (length pat) (drop (length pre) xs)
      @ drop (length pat) (drop (length pre) xs)"
    by (simp only: append_take_drop_id)
  with r show ?L by metis
qed auto

subsection \<open>What the searches find\<close>

lemma std_find_unfold:
  "hi \<le> lo \<Longrightarrow> std_find v lo hi x = hi"
  "lo < hi \<Longrightarrow> v ! lo = x \<Longrightarrow> std_find v lo hi x = lo"
  "lo < hi \<Longrightarrow> v ! lo \<noteq> x \<Longrightarrow> std_find v lo hi x = std_find v (Suc lo) hi x"
  by (simp_all add: std_find.simps [of v lo hi x])

lemma std_search_unfold:
  "hi < lo + length pat \<or> hi \<le> lo \<Longrightarrow> std_search v lo hi pat = hi"
  "lo + length pat \<le> hi \<Longrightarrow> lo < hi \<Longrightarrow> take (length pat) (drop lo v) = pat \<Longrightarrow>
   std_search v lo hi pat = lo"
  "lo + length pat \<le> hi \<Longrightarrow> lo < hi \<Longrightarrow> take (length pat) (drop lo v) \<noteq> pat \<Longrightarrow>
   std_search v lo hi pat = std_search v (Suc lo) hi pat"
  by (simp_all add: std_search.simps [of v lo hi pat])

lemma std_find_bounds:
  "lo \<le> hi \<Longrightarrow> lo \<le> std_find v lo hi x \<and> std_find v lo hi x \<le> hi"
proof (induction v lo hi x rule: std_find.induct)
  case (1 v lo hi x)
  consider "hi \<le> lo" | "lo < hi" "v ! lo = x" | "lo < hi" "v ! lo \<noteq> x" by linarith
  then show ?case using 1 by cases (auto simp: std_find_unfold)
qed

lemma std_find_before:
  "lo \<le> i \<Longrightarrow> i < std_find v lo hi x \<Longrightarrow> i < hi \<Longrightarrow> v ! i \<noteq> x"
proof (induction v lo hi x rule: std_find.induct)
  case (1 v lo hi x)
  consider "hi \<le> lo" | "lo < hi" "v ! lo = x" | "lo < hi" "v ! lo \<noteq> x" by linarith
  then show ?case
  proof cases
    case 3
    with 1 show ?thesis by (cases "i = lo") (auto simp: std_find_unfold)
  qed (use 1 in \<open>auto simp: std_find_unfold\<close>)
qed

lemma std_find_hit:
  "std_find v lo hi x < hi \<Longrightarrow> v ! std_find v lo hi x = x"
proof (induction v lo hi x rule: std_find.induct)
  case (1 v lo hi x)
  consider "hi \<le> lo" | "lo < hi" "v ! lo = x" | "lo < hi" "v ! lo \<noteq> x" by linarith
  then show ?case using 1 by cases (auto simp: std_find_unfold)
qed

lemma std_search_cases:
  obtains (stop) "hi < lo + length pat \<or> hi \<le> lo"
  | (hit) "lo + length pat \<le> hi" "lo < hi" "take (length pat) (drop lo v) = pat"
  | (miss) "lo + length pat \<le> hi" "lo < hi" "take (length pat) (drop lo v) \<noteq> pat"
  by (meson not_less)

lemma std_search_bounds:
  "lo \<le> hi \<Longrightarrow> lo \<le> std_search v lo hi pat \<and> std_search v lo hi pat \<le> hi"
proof (induction v lo hi pat rule: std_search.induct)
  case (1 v lo hi pat)
  show ?case
  proof (cases rule: std_search_cases [where hi = hi and lo = lo and pat = pat and v = v])
    case miss
    with 1 show ?thesis by (fastforce simp: std_search_unfold)
  qed (use 1 in \<open>simp_all add: std_search_unfold\<close>)
qed

lemma std_search_hit:
  "std_search v lo hi pat < hi \<Longrightarrow>
   std_search v lo hi pat + length pat \<le> hi \<and>
   take (length pat) (drop (std_search v lo hi pat) v) = pat"
proof (induction v lo hi pat rule: std_search.induct)
  case (1 v lo hi pat)
  show ?case
    by (cases rule: std_search_cases [where hi = hi and lo = lo and pat = pat and v = v]) (use 1 in \<open>simp_all add: std_search_unfold\<close>)
qed

lemma std_search_first:
  "lo \<le> i \<Longrightarrow> i < std_search v lo hi pat \<Longrightarrow> i + length pat \<le> hi \<Longrightarrow> i < hi \<Longrightarrow>
   take (length pat) (drop i v) \<noteq> pat"
proof (induction v lo hi pat rule: std_search.induct)
  case (1 v lo hi pat)
  show ?case
  proof (cases rule: std_search_cases [where hi = hi and lo = lo and pat = pat and v = v])
    case miss
    with 1 show ?thesis by (cases "i = lo") (simp_all add: std_search_unfold)
  qed (use 1 in \<open>auto simp: std_search_unfold\<close>)
qed

end
