(* ===== verification/Timestamps.thy ===== *)
theory Timestamps
  imports Muduo_Prelude "HOL-Library.Signed_Division"
begin

text \<open>
  \<^verbatim>\<open>muduo-cpp11/base/timestamp.h\<close> and \<^verbatim>\<open>timestamp.cpp\<close>: points in time in microseconds, ordered
  by \<^verbatim>\<open>operator<\<close> (the library's \<open>linorder\<close>), and \<^verbatim>\<open>AddTime\<close>, whose delay is a
  \<^verbatim>\<open>double\<close>. A finite \<^verbatim>\<open>double\<close> is a 53-bit mantissa and a power of two; multiplication and
  division round to nearest, ties to even, as IEEE 754 does. Microsecond counts are
  mathematical integers: an \<^verbatim>\<open>int64_t\<close> of microseconds covers 292 thousand years, and the
  clock values the code adds and subtracts are far from its ends.
\<close>

section \<open>Timestamps\<close>

datatype timestamp = Timestamp (microseconds_since_epoch: int)

definition kMicroSecondsPerSecond :: int where "kMicroSecondsPerSecond = 1000 * 1000"

definition kMilliSecondsPerSecond :: int where "kMilliSecondsPerSecond = 1000"

definition Timestamp_less :: "timestamp \<Rightarrow> timestamp \<Rightarrow> bool" where
  "Timestamp_less lhs rhs \<longleftrightarrow> microseconds_since_epoch lhs < microseconds_since_epoch rhs"

definition Timestamp_equal :: "timestamp \<Rightarrow> timestamp \<Rightarrow> bool" where
  "Timestamp_equal lhs rhs \<longleftrightarrow> microseconds_since_epoch lhs = microseconds_since_epoch rhs"

lemma Timestamp_equal_iff: "Timestamp_equal lhs rhs \<longleftrightarrow> lhs = rhs"
  by (auto simp: Timestamp_equal_def intro: timestamp.expand)

instantiation timestamp :: linorder
begin

definition less_timestamp :: "timestamp \<Rightarrow> timestamp \<Rightarrow> bool" where
  "less_timestamp = Timestamp_less"

definition less_eq_timestamp :: "timestamp \<Rightarrow> timestamp \<Rightarrow> bool" where
  "less_eq_timestamp lhs rhs \<longleftrightarrow> microseconds_since_epoch lhs \<le> microseconds_since_epoch rhs"

instance
  by standard (auto simp: less_timestamp_def Timestamp_less_def less_eq_timestamp_def intro: timestamp.expand)

end

definition Timestamp_Invalid :: timestamp where
  "Timestamp_Invalid = Timestamp 0"

definition Timestamp_Valid :: "timestamp \<Rightarrow> bool" where
  "Timestamp_Valid t \<longleftrightarrow> microseconds_since_epoch t > 0"

definition seconds_since_epoch :: "timestamp \<Rightarrow> int" where
  "seconds_since_epoch t = microseconds_since_epoch t sdiv kMicroSecondsPerSecond"

text \<open>\<^verbatim>\<open>Timestamp::Now()\<close> from the \<^verbatim>\<open>timeval\<close> that \<^verbatim>\<open>gettimeofday\<close> fills in.\<close>

definition Timestamp_Now :: "int \<times> int \<Rightarrow> timestamp" where
  "Timestamp_Now tv = Timestamp (fst tv * kMicroSecondsPerSecond + snd tv)"

definition TimeDifferenceMicroSeconds :: "timestamp \<Rightarrow> timestamp \<Rightarrow> int" where
  "TimeDifferenceMicroSeconds high low = microseconds_since_epoch high - microseconds_since_epoch low"

definition TimeDifferenceMilliSeconds :: "timestamp \<Rightarrow> timestamp \<Rightarrow> int" where
  "TimeDifferenceMilliSeconds high low =
     (let diff = microseconds_since_epoch high - microseconds_since_epoch low
      in diff sdiv kMilliSecondsPerSecond)"

section \<open>Doubles\<close>

datatype double = Double (mantissa: int) (expo: int)

fun bitlen :: "nat \<Rightarrow> nat" where
  "bitlen n = (if n = 0 then 0 else Suc (bitlen (n div 2)))"

declare bitlen.simps [simp del]

text \<open>
  \<open>round_ratio p d\<close>: the integer nearest to \<open>p / d\<close> for \<open>p \<ge> 0\<close>, ties to even.
\<close>

definition round_ratio :: "nat \<Rightarrow> nat \<Rightarrow> nat" where
  "round_ratio p d =
     (let q = p div d; r = p mod d
      in if 2 * r > d \<or> 2 * r = d \<and> odd q then Suc q else q)"

definition signed :: "int \<Rightarrow> nat \<Rightarrow> int" where
  "signed s n = (if s < 0 then - int n else int n)"

text \<open>A \<^verbatim>\<open>double\<close> times an integer, and an integer divided by an integer-valued \<^verbatim>\<open>double\<close>.\<close>

definition double_mul_int :: "double \<Rightarrow> int \<Rightarrow> double" where
  "double_mul_int x k =
     (let p = mantissa x * k; a = nat \<bar>p\<bar>; s = bitlen a - 53
      in Double (signed p (round_ratio a (2 ^ s))) (expo x + int s))"

definition double_of_ratio :: "nat \<Rightarrow> nat \<Rightarrow> double" where
  "double_of_ratio k d =
     (if k = 0 then Double 0 0
      else let s0 = 53 + bitlen d - bitlen k;
               s = (if 2 ^ 53 \<le> k * 2 ^ s0 div d then s0 - 1 else s0)
           in Double (int (round_ratio (k * 2 ^ s) d)) (- int s))"

text \<open>\<^verbatim>\<open>static_cast<int64_t>\<close> truncates towards zero.\<close>

definition double_to_int :: "double \<Rightarrow> int" where
  "double_to_int x =
     (if expo x \<ge> 0 then mantissa x * 2 ^ nat (expo x)
      else signed (mantissa x) (nat \<bar>mantissa x\<bar> div 2 ^ nat (- expo x)))"

definition double_positive :: "double \<Rightarrow> bool" where
  "double_positive x \<longleftrightarrow> mantissa x > 0"

definition AddTime :: "timestamp \<Rightarrow> double \<Rightarrow> timestamp" where
  "AddTime t seconds =
     (let delta = double_to_int (double_mul_int seconds kMicroSecondsPerSecond)
      in Timestamp (microseconds_since_epoch t + delta))"

text \<open>
  The difference becomes a \<^verbatim>\<open>double\<close>, rounded when it has more than 53 bits, and is divided by a million, rounded again.
\<close>

definition TimeDifference :: "timestamp \<Rightarrow> timestamp \<Rightarrow> double" where
  "TimeDifference high low =
     (let diff = microseconds_since_epoch high - microseconds_since_epoch low;
          x = double_mul_int (Double diff 0) 1;
          r = double_of_ratio (nat \<bar>mantissa x\<bar> * 2 ^ nat (expo x)) (nat kMicroSecondsPerSecond)
      in Double (signed diff (nat (mantissa r))) (expo r))"

section \<open>Lemmas\<close>

lemma timestamp_less_iff [simp]: "Timestamp a < Timestamp b \<longleftrightarrow> a < b"
  by (simp add: less_timestamp_def Timestamp_less_def)

lemma timestamp_le_iff [simp]: "Timestamp a \<le> Timestamp b \<longleftrightarrow> a \<le> b"
  by (simp add: less_eq_timestamp_def)

lemma signed_nonneg: "0 \<le> s \<Longrightarrow> signed s n = int n"
  by (simp add: signed_def)

text \<open>A delay that is not negative never moves a timestamp backwards.\<close>

lemma double_to_int_nonneg: "0 \<le> mantissa x \<Longrightarrow> 0 \<le> double_to_int x"
  by (simp add: double_to_int_def signed_def)

lemma AddTime_mono:
  assumes "0 \<le> mantissa d"
  shows "t \<le> AddTime t d"
proof -
  have "0 \<le> mantissa d * kMicroSecondsPerSecond"
    using assms by (simp add: kMicroSecondsPerSecond_def)
  then have "0 \<le> mantissa (double_mul_int d kMicroSecondsPerSecond)"
    by (simp add: double_mul_int_def Let_def signed_nonneg)
  then have "0 \<le> double_to_int (double_mul_int d kMicroSecondsPerSecond)"
    by (rule double_to_int_nonneg)
  then show ?thesis by (simp add: AddTime_def less_eq_timestamp_def)
qed

text \<open>
  Delays with a small mantissa are exact: multiplying by a million fits the mantissa, so the
  product is not rounded.
\<close>

lemma bitlen_le: "n < 2 ^ k \<Longrightarrow> bitlen n \<le> k"
proof (induction n arbitrary: k rule: bitlen.induct)
  case (1 n)
  show ?case
  proof (cases "n = 0")
    case True
    then show ?thesis by (simp add: bitlen.simps [of 0])
  next
    case False
    then obtain k' where k: "k = Suc k'" using "1.prems" by (cases k) auto
    then have "n div 2 < 2 ^ k'" using "1.prems" by simp
    with "1.IH" False k show ?thesis by (simp add: bitlen.simps [of n])
  qed
qed

lemma double_mul_int_exact:
  assumes "\<bar>mantissa x * k\<bar> < 2 ^ 53"
  shows "double_mul_int x k = Double (mantissa x * k) (expo x)"
proof -
  have "nat \<bar>mantissa x * k\<bar> < 2 ^ 53" using assms by (simp add: nat_less_iff)
  then have "bitlen (nat \<bar>mantissa x * k\<bar>) - 53 = 0" using bitlen_le by simp
  then have "double_mul_int x k = Double (signed (mantissa x * k) (nat \<bar>mantissa x * k\<bar>)) (expo x)"
    unfolding double_mul_int_def Let_def round_ratio_def by (simp only: power_0) simp
  then show ?thesis by (simp add: signed_def)
qed

lemma AddTime_whole_seconds:
  assumes "0 \<le> n" "n < 2 ^ 32"
  shows "AddTime (Timestamp t) (Double n 0) = Timestamp (t + 1000000 * n)"
  using assms
  by (simp add: AddTime_def double_mul_int_exact double_to_int_def kMicroSecondsPerSecond_def abs_mult)

lemma bitlen_eq: "2 ^ k \<le> n \<Longrightarrow> n < 2 ^ Suc k \<Longrightarrow> bitlen n = Suc k"
proof (induction k arbitrary: n)
  case 0
  then have "n = 1" by simp
  then show ?case by (simp add: bitlen.simps [of "Suc 0"] bitlen.simps [of 0])
next
  case (Suc k)
  then have "bitlen (n div 2) = Suc k" by simp
  moreover have "n \<noteq> 0" using Suc.prems by auto
  ultimately show ?case by (simp add: bitlen.simps [of n])
qed

text \<open>
  Seconds do not carry microseconds there and back: \<^verbatim>\<open>TimeDifference\<close> rounds to the nearest \<^verbatim>\<open>double\<close> but \<^verbatim>\<open>AddTime\<close>
  truncates, so a difference of 249 microseconds comes back as 248.
\<close>

lemma AddTime_TimeDifference_loses_a_microsecond:
  "AddTime (Timestamp 0) (TimeDifference (Timestamp 249) (Timestamp 0)) = Timestamp 248"
proof -
  have "bitlen 249 = 8" "bitlen 1000000 = 20" using bitlen_eq [of 7 249] bitlen_eq [of 19 1000000] by simp_all
  then have ratio: "double_of_ratio 249 1000000 = Double 4593239274353678 (- 64)"
    by (simp add: double_of_ratio_def round_ratio_def)
  have "TimeDifference (Timestamp 249) (Timestamp 0) = Double 4593239274353678 (- 64)"
    using double_mul_int_exact [of "Double 249 0" 1] ratio by (simp add: TimeDifference_def signed_def kMicroSecondsPerSecond_def)
  moreover have "bitlen 4593239274353678000000 = 72" using bitlen_eq [of 71 4593239274353678000000] by simp
  then have "double_mul_int (Double 4593239274353678 (- 64)) 1000000 = Double 8760908650119167 (- 45)"
    by (simp add: double_mul_int_def round_ratio_def signed_def)
  ultimately show ?thesis by (simp add: AddTime_def double_to_int_def signed_def kMicroSecondsPerSecond_def)
qed

end
