(* ===== verification/Std_Containers.thy ===== *)
theory Std_Containers
  imports Muduo_Prelude
begin

text \<open>
  The ordered containers of the C++ standard library that the sources use, as the list of their
  elements in iteration order: \<^verbatim>\<open>std::set\<close> (\<^verbatim>\<open>insert\<close> with its flag, \<^verbatim>\<open>erase\<close> with its count)
  and \<^verbatim>\<open>std::map\<close> (\<^verbatim>\<open>operator[]\<close> assignment, \<^verbatim>\<open>find\<close>, \<^verbatim>\<open>erase\<close>). A client sees a set through
  the locale \<open>ordered_set\<close>.
\<close>

section \<open>std::set\<close>

definition std_insert :: "'a::linorder \<Rightarrow> 'a list \<Rightarrow> 'a list \<times> bool" where
  "std_insert x xs = (if x \<in> set xs then (xs, False) else (insort x xs, True))"

definition std_erase :: "'a::linorder \<Rightarrow> 'a list \<Rightarrow> 'a list \<times> nat" where
  "std_erase x xs = (if x \<in> set xs then (remove1 x xs, 1) else (xs, 0))"

definition std_set :: "'a::linorder list \<Rightarrow> bool" where
  "std_set xs \<longleftrightarrow> sorted xs \<and> distinct xs"

locale ordered_set =
  fixes invar :: "'s \<Rightarrow> bool"
    and elems :: "'s \<Rightarrow> 'a set"
    and size_of :: "'s \<Rightarrow> nat"
    and ins :: "'a \<Rightarrow> 's \<Rightarrow> 's \<times> bool"
    and del :: "'a \<Rightarrow> 's \<Rightarrow> 's \<times> nat"
  assumes finite_elems: "finite (elems s)"
    and size_elems: "invar s \<Longrightarrow> size_of s = card (elems s)"
    and ins_law: "invar s \<Longrightarrow> invar (fst (ins x s)) \<and> elems (fst (ins x s)) = insert x (elems s)
      \<and> snd (ins x s) = (x \<notin> elems s)"
    and del_law: "invar s \<Longrightarrow> invar (fst (del x s)) \<and> elems (fst (del x s)) = elems s - {x}
      \<and> snd (del x s) = (if x \<in> elems s then 1 else 0)"
begin

lemma size_ins: "invar s \<Longrightarrow> x \<notin> elems s \<Longrightarrow> size_of (fst (ins x s)) = Suc (size_of s)"
  using ins_law [of s x] by (simp add: size_elems finite_elems)

lemma size_del: "invar s \<Longrightarrow> x \<in> elems s \<Longrightarrow> Suc (size_of (fst (del x s))) = size_of s"
  using del_law [of s x] card_Suc_Diff1 [OF finite_elems, of x s] by (simp add: size_elems)

lemma del_absent: "invar s \<Longrightarrow> x \<notin> elems s \<Longrightarrow> elems (fst (del x s)) = elems s"
  using del_law [of s x] by simp

lemma del_ins: "invar s \<Longrightarrow> x \<notin> elems s \<Longrightarrow> elems (fst (del x (fst (ins x s)))) = elems s"
  using ins_law [of s x] del_law [of "fst (ins x s)" x] by auto

end

lemma std_set_simps [simp]: "std_set []"
  by (simp add: std_set_def)

lemma set_std_insert [simp]: "set (fst (std_insert x xs)) = insert x (set xs)"
  by (auto simp: std_insert_def set_insort_key)

lemma set_std_erase: "std_set xs \<Longrightarrow> set (fst (std_erase x xs)) = set xs - {x}"
  by (auto simp: std_erase_def std_set_def)

interpretation sset: ordered_set "std_set :: 'a::linorder list \<Rightarrow> bool" set length std_insert std_erase
proof
  fix s :: "'a list" and x
  show "finite (set s)" by simp
  show "std_set s \<Longrightarrow> length s = card (set s)" by (simp add: std_set_def distinct_card)
  show "std_set s \<Longrightarrow> std_set (fst (std_insert x s)) \<and> set (fst (std_insert x s)) = insert x (set s)
      \<and> snd (std_insert x s) = (x \<notin> set s)"
    by (auto simp: std_insert_def std_set_def sorted_insort distinct_insort set_insort_key)
  show "std_set s \<Longrightarrow> std_set (fst (std_erase x s)) \<and> set (fst (std_erase x s)) = set s - {x}
      \<and> snd (std_erase x s) = (if x \<in> set s then 1 else 0)"
    by (auto simp: std_erase_def std_set_def sorted_remove1 distinct_remove1)
qed

text \<open>An ordered set is split by a bound into the elements below it and the others.\<close>

lemma std_set_split:
  assumes "std_set xs"
  shows "std_set (takeWhile (\<lambda>e. e < x) xs)" "std_set (dropWhile (\<lambda>e. e < x) xs)"
    "set (takeWhile (\<lambda>e. e < x) xs) = {e \<in> set xs. e < x}"
    "set (dropWhile (\<lambda>e. e < x) xs) = {e \<in> set xs. \<not> e < x}"
proof -
  have s: "sorted xs" "distinct xs" using assms by (simp_all add: std_set_def)
  show "std_set (takeWhile (\<lambda>e. e < x) xs)"
    using s by (simp add: std_set_def sorted_takeWhile distinct_takeWhile)
  show "std_set (dropWhile (\<lambda>e. e < x) xs)"
    using s by (simp add: std_set_def sorted_dropWhile distinct_dropWhile)
  have "dropWhile (\<lambda>e. e < x) xs = filter (\<lambda>e. \<not> e < x) xs"
    using s(1)
  proof (induction xs)
    case (Cons y ys)
    then show ?case by (auto intro!: filter_True [symmetric])
  qed simp
  then show d: "set (dropWhile (\<lambda>e. e < x) xs) = {e \<in> set xs. \<not> e < x}" by auto
  have "set xs = set (takeWhile (\<lambda>e. e < x) xs) \<union> set (dropWhile (\<lambda>e. e < x) xs)"
    by (simp flip: set_append)
  with d show "set (takeWhile (\<lambda>e. e < x) xs) = {e \<in> set xs. e < x}"
    by (auto dest: set_takeWhileD)
qed

section \<open>std::map\<close>

fun map_put :: "'k::linorder \<Rightarrow> 'v \<Rightarrow> ('k \<times> 'v) list \<Rightarrow> ('k \<times> 'v) list" where
  "map_put k v [] = [(k, v)]"
| "map_put k v (e # es) =
     (if fst e < k then e # map_put k v es
      else if fst e = k then (k, v) # es
      else (k, v) # e # es)"

definition map_erase :: "'k \<Rightarrow> ('k \<times> 'v) list \<Rightarrow> ('k \<times> 'v) list \<times> nat" where
  "map_erase k es =
     (if k \<in> fst ` set es then (filter (\<lambda>e. fst e \<noteq> k) es, 1) else (es, 0))"

definition std_map :: "('k::linorder \<times> 'v) list \<Rightarrow> bool" where
  "std_map es \<longleftrightarrow> sorted_wrt (<) (map fst es)"

lemma map_of_map_put [simp]: "std_map es \<Longrightarrow> map_of (map_put k v es) = (map_of es)(k \<mapsto> v)"
proof (induction es)
  case (Cons e es)
  obtain a b where "e = (a, b)" by (cases e)
  with Cons show ?case by (auto simp: std_map_def fun_eq_iff)
qed simp

lemma keys_map_put: "fst ` set (map_put k v es) = insert k (fst ` set es)"
  by (induction es) auto

lemma std_map_put [simp]: "std_map es \<Longrightarrow> std_map (map_put k v es)"
proof (induction es)
  case (Cons e es)
  then show ?case using keys_map_put [of k v es] by (auto simp: std_map_def)
qed (simp add: std_map_def)

lemma map_of_map_erase: "map_of (fst (map_erase k es)) = (map_of es)(k := None)"
proof -
  have "map_of (filter (\<lambda>e. fst e \<noteq> k) es) = (map_of es)(k := None)" for es :: "('a \<times> 'b) list"
    by (induction es) (auto simp: fun_eq_iff)
  moreover have "k \<notin> fst ` set es \<Longrightarrow> (map_of es)(k := None) = map_of es"
    by (simp add: fun_upd_idem map_of_eq_None_iff)
  ultimately show ?thesis by (simp add: map_erase_def)
qed

end
