(* ===== verification/Timer_Queue.thy ===== *)
theory Timer_Queue
  imports Timestamps Std_Containers "HOL-Library.Product_Lexorder"
begin

text \<open>
  \<^verbatim>\<open>muduo-cpp11/net/timer.h\<close>, \<^verbatim>\<open>timer.cpp\<close>, \<^verbatim>\<open>timer_id.h\<close>, \<^verbatim>\<open>timer_queue.h\<close> and \<^verbatim>\<open>timer_queue.cpp\<close>
  (the Linux branch with a \<^verbatim>\<open>timerfd\<close>). Timers live in an explicit heap because the queue holds
  raw pointers: \<^verbatim>\<open>delete\<close> removes the object, and using a pointer whose object is gone is
  undefined behaviour in the model. The two \<^verbatim>\<open>std::set\<close>s are ordered lists.

  What is not in \<^verbatim>\<open>src/\<close> enters as parameters: \<open>alloc\<close> is \<^verbatim>\<open>operator new\<close> (given the live
  addresses it returns a fresh one or fails), \<open>clock\<close> gives the successive values of
  \<^verbatim>\<open>gettimeofday\<close>, and \<open>script\<close> says what the user's callback does to the queue when it runs
  (any sequence of \<^verbatim>\<open>AddTimer\<close> and \<^verbatim>\<open>Cancel\<close> calls in the loop thread).

  The invariant \<open>tq_inv\<close> is what the assertions of the source check and more: the queue and the
  active set describe the same live timers, timers on their way into the queue or taken out
  of it for running are live and in neither. The properties: no assertion fails and no
  dangling pointer is used in any run; what expires, what is restarted and what is freed;
  cancellation; and the arming of the \<^verbatim>\<open>timerfd\<close>.
\<close>

section \<open>Timers\<close>

type_synonym addr = nat
type_synonym callback = nat
type_synonym entry = "timestamp \<times> addr"
type_synonym timer_id = "addr \<times> int"

record timer =
  timer_callback :: callback
  expiration :: timestamp
  interval :: double
  repeat :: bool
  sequence :: int

definition UINTPTR_MAX :: addr where "UINTPTR_MAX = 2 ^ 64 - 1"

text \<open>The constructor, with the value of \<^verbatim>\<open>s_num_created_\<close> before it.\<close>

definition Timer_new :: "int \<Rightarrow> callback \<Rightarrow> timestamp \<Rightarrow> double \<Rightarrow> timer" where
  "Timer_new num_created cb when dt =
     \<lparr>timer_callback = cb, expiration = when, interval = dt, repeat = double_positive dt,
      sequence = num_created + 1\<rparr>"

definition Timer_Restart :: "timer \<Rightarrow> timestamp \<Rightarrow> timer" where
  "Timer_Restart t now =
     (if repeat t then t\<lparr>expiration := AddTime now (interval t)\<rparr>
      else t\<lparr>expiration := Timestamp_Invalid\<rparr>)"

section \<open>The queue\<close>

datatype tq_functor =
    AddTimerInLoop_functor addr
  | CancelInLoop_functor timer_id

record timer_queue =
  tq_heap :: "addr \<rightharpoonup> timer"
  num_created :: int
  timers :: "entry list"
  active_timers :: "timer_id list"
  calling_expired_timers :: bool
  canceling_timers :: "timer_id list"
  timerfd :: "(int \<times> int) option"
  clock_reads :: nat
  loop_pending :: "tq_functor list"

definition TimerQueue_new :: timer_queue where
  "TimerQueue_new =
     \<lparr>tq_heap = Map.empty, num_created = 0, timers = [], active_timers = [],
      calling_expired_timers = False, canceling_timers = [], timerfd = None, clock_reads = 0,
      loop_pending = []\<rparr>"

definition deref :: "timer_queue \<Rightarrow> addr \<Rightarrow> timer outcome" where
  "deref q a = (case tq_heap q a of
      None \<Rightarrow> Inl (UndefinedBehaviour ''dangling Timer*'') | Some t \<Rightarrow> Inr t)"

definition Now :: "(nat \<Rightarrow> timestamp) \<Rightarrow> timer_queue \<Rightarrow> timestamp \<times> timer_queue" where
  "Now clock q = (clock (clock_reads q), q\<lparr>clock_reads := Suc (clock_reads q)\<rparr>)"

definition HowMuchTimeFromNow :: "timestamp \<Rightarrow> timestamp \<Rightarrow> int \<times> int" where
  "HowMuchTimeFromNow when now =
     (let microseconds = microseconds_since_epoch when - microseconds_since_epoch now;
          us = (if microseconds < 100 then 100 else microseconds)
      in (us sdiv kMicroSecondsPerSecond, (us smod kMicroSecondsPerSecond) * 1000))"

definition ResetTimerfd :: "(nat \<Rightarrow> timestamp) \<Rightarrow> timer_queue \<Rightarrow> timestamp \<Rightarrow> timer_queue" where
  "ResetTimerfd clock q when =
     (let (now, q') = Now clock q in q'\<lparr>timerfd := Some (HowMuchTimeFromNow when now)\<rparr>)"

definition sizes_agree :: "timer_queue \<Rightarrow> bool" where
  "sizes_agree q \<longleftrightarrow> length (timers q) = length (active_timers q)"

definition Insert :: "timer_queue \<Rightarrow> addr \<Rightarrow> (timer_queue \<times> bool) outcome" where
  "Insert q a =
     asserting (sizes_agree q) ''timers_.size() == active_timers_.size()''
     (and_then (deref q a) (\<lambda>t.
        let when = expiration t;
            earliest_changed = (timers q = [] \<or> when < fst (hd (timers q)));
            (timers', inserted) = std_insert (when, a) (timers q);
            (active', activated) = std_insert (a, sequence t) (active_timers q);
            q' = q\<lparr>timers := timers', active_timers := active'\<rparr>
        in asserting inserted ''result.second''
           (asserting activated ''result.second''
           (asserting (sizes_agree q') ''timers_.size() == active_timers_.size()''
           (Inr (q', earliest_changed))))))"

definition AddTimerInLoop :: "(nat \<Rightarrow> timestamp) \<Rightarrow> timer_queue \<Rightarrow> addr \<Rightarrow> timer_queue outcome" where
  "AddTimerInLoop clock q a =
     and_then (Insert q a) (\<lambda>(q', earliest_changed).
       if earliest_changed
       then and_then (deref q' a) (\<lambda>t. Inr (ResetTimerfd clock q' (expiration t)))
       else Inr q')"

definition CancelInLoop :: "timer_queue \<Rightarrow> timer_id \<Rightarrow> timer_queue outcome" where
  "CancelInLoop q tid =
     asserting (sizes_agree q) ''timers_.size() == active_timers_.size()''
     (and_then
       (if tid \<in> set (active_timers q)
        then and_then (deref q (fst tid)) (\<lambda>t.
          let (timers', n) = std_erase (expiration t, fst tid) (timers q)
          in asserting (n = 1) ''n == 1''
             (Inr (q\<lparr>timers := timers', tq_heap := (tq_heap q)(fst tid := None),
                     active_timers := fst (std_erase tid (active_timers q))\<rparr>)))
        else if calling_expired_timers q
        then Inr (q\<lparr>canceling_timers := fst (std_insert tid (canceling_timers q))\<rparr>)
        else Inr q)
       (\<lambda>q'. asserting (sizes_agree q') ''timers_.size() == active_timers_.size()'' (Inr q')))"

text \<open>
  \<^verbatim>\<open>loop_->RunInLoop(f)\<close>: run now in the loop thread, else queue for it.
\<close>

definition run_functor :: "(nat \<Rightarrow> timestamp) \<Rightarrow> tq_functor \<Rightarrow> timer_queue \<Rightarrow> timer_queue outcome" where
  "run_functor clock f q = (case f of
       AddTimerInLoop_functor a \<Rightarrow> AddTimerInLoop clock q a
     | CancelInLoop_functor tid \<Rightarrow> CancelInLoop q tid)"

definition tq_RunInLoop ::
  "(nat \<Rightarrow> timestamp) \<Rightarrow> bool \<Rightarrow> tq_functor \<Rightarrow> timer_queue \<Rightarrow> timer_queue outcome" where
  "tq_RunInLoop clock in_loop_thread f q =
     (if in_loop_thread then run_functor clock f q
      else Inr (q\<lparr>loop_pending := loop_pending q @ [f]\<rparr>))"

text \<open>
  \<^verbatim>\<open>AddTimer\<close> hands the new timer to the loop and then reads \<^verbatim>\<open>timer->sequence()\<close>; a foreign thread
  does the second step while the loop may already be using the timer, so the two are separate.
\<close>

definition AddTimer_post ::
  "((addr \<Rightarrow> bool) \<Rightarrow> addr option) \<Rightarrow> (nat \<Rightarrow> timestamp) \<Rightarrow> bool \<Rightarrow> timer_queue \<Rightarrow> callback \<Rightarrow> timestamp
   \<Rightarrow> double \<Rightarrow> (timer_queue \<times> addr) outcome" where
  "AddTimer_post alloc clock in_loop_thread q cb when dt =
     (case alloc (\<lambda>a. tq_heap q a \<noteq> None) of
        None \<Rightarrow> Inl BadAlloc
      | Some a \<Rightarrow>
          let t = Timer_new (num_created q) cb when dt;
              q1 = q\<lparr>tq_heap := (tq_heap q)(a \<mapsto> t), num_created := num_created q + 1\<rparr>
          in and_then (tq_RunInLoop clock in_loop_thread (AddTimerInLoop_functor a) q1)
               (\<lambda>q2. Inr (q2, a)))"

definition AddTimer_result :: "timer_queue \<Rightarrow> addr \<Rightarrow> timer_id outcome" where
  "AddTimer_result q a = and_then (deref q a) (\<lambda>t. Inr (a, sequence t))"

definition AddTimer ::
  "((addr \<Rightarrow> bool) \<Rightarrow> addr option) \<Rightarrow> (nat \<Rightarrow> timestamp) \<Rightarrow> bool \<Rightarrow> timer_queue \<Rightarrow> callback \<Rightarrow> timestamp
   \<Rightarrow> double \<Rightarrow> (timer_queue \<times> timer_id) outcome" where
  "AddTimer alloc clock in_loop_thread q cb when dt =
     and_then (AddTimer_post alloc clock in_loop_thread q cb when dt) (\<lambda>(q', a).
     and_then (AddTimer_result q' a) (\<lambda>tid. Inr (q', tid)))"

definition Cancel ::
  "(nat \<Rightarrow> timestamp) \<Rightarrow> bool \<Rightarrow> timer_queue \<Rightarrow> timer_id \<Rightarrow> timer_queue outcome" where
  "Cancel clock in_loop_thread q tid = tq_RunInLoop clock in_loop_thread (CancelInLoop_functor tid) q"

text \<open>The loop's shortcuts to the timer queue; \<open>now\<close> is the time \<^verbatim>\<open>Timestamp::Now()\<close> gives.\<close>

definition RunAt ::
  "((addr \<Rightarrow> bool) \<Rightarrow> addr option) \<Rightarrow> (nat \<Rightarrow> timestamp) \<Rightarrow> bool \<Rightarrow> timer_queue \<Rightarrow> timestamp \<Rightarrow> callback
   \<Rightarrow> (timer_queue \<times> timer_id) outcome" where
  "RunAt alloc clock in_loop_thread q time cb = AddTimer alloc clock in_loop_thread q cb time (Double 0 0)"

definition RunAfter ::
  "((addr \<Rightarrow> bool) \<Rightarrow> addr option) \<Rightarrow> (nat \<Rightarrow> timestamp) \<Rightarrow> bool \<Rightarrow> timestamp \<Rightarrow> timer_queue \<Rightarrow> double \<Rightarrow> callback
   \<Rightarrow> (timer_queue \<times> timer_id) outcome" where
  "RunAfter alloc clock in_loop_thread now q delay cb = RunAt alloc clock in_loop_thread q (AddTime now delay) cb"

definition RunEvery ::
  "((addr \<Rightarrow> bool) \<Rightarrow> addr option) \<Rightarrow> (nat \<Rightarrow> timestamp) \<Rightarrow> bool \<Rightarrow> timestamp \<Rightarrow> timer_queue \<Rightarrow> double \<Rightarrow> callback
   \<Rightarrow> (timer_queue \<times> timer_id) outcome" where
  "RunEvery alloc clock in_loop_thread now q dt cb = AddTimer alloc clock in_loop_thread q cb (AddTime now dt) dt"

definition EventLoop_Cancel :: "(nat \<Rightarrow> timestamp) \<Rightarrow> bool \<Rightarrow> timer_queue \<Rightarrow> timer_id \<Rightarrow> timer_queue outcome" where
  "EventLoop_Cancel clock in_loop_thread q timerId = Cancel clock in_loop_thread q timerId"

definition GetExpired :: "timer_queue \<Rightarrow> timestamp \<Rightarrow> (timer_queue \<times> entry list) outcome" where
  "GetExpired q now =
     asserting (sizes_agree q) ''timers_.size() == active_timers_.size()''
     (let sentry = (now, UINTPTR_MAX);
          expired = takeWhile (\<lambda>e. e < sentry) (timers q);
          rest = dropWhile (\<lambda>e. e < sentry) (timers q)
      in asserting (rest = [] \<or> now < fst (hd rest)) ''end == timers_.end() || now < end->first''
         (and_then
           (for_each (\<lambda>e q. and_then (deref q (snd e)) (\<lambda>t.
               let (active', n) = std_erase (snd e, sequence t) (active_timers q)
               in asserting (n = 1) ''n == 1'' (Inr (q\<lparr>active_timers := active'\<rparr>))))
             expired (q\<lparr>timers := rest\<rparr>))
           (\<lambda>q'. asserting (sizes_agree q') ''timers_.size() == active_timers_.size()''
                 (Inr (q', expired)))))"

definition Reset :: "(nat \<Rightarrow> timestamp) \<Rightarrow> timer_queue \<Rightarrow> entry list \<Rightarrow> timestamp \<Rightarrow> timer_queue outcome" where
  "Reset clock q expired now =
     and_then
       (for_each (\<lambda>e q. and_then (deref q (snd e)) (\<lambda>t.
           if repeat t \<and> (snd e, sequence t) \<notin> set (canceling_timers q)
           then and_then (Insert (q\<lparr>tq_heap := (tq_heap q)(snd e \<mapsto> Timer_Restart t now)\<rparr>) (snd e))
                  (\<lambda>(q', _). Inr q')
           else Inr (q\<lparr>tq_heap := (tq_heap q)(snd e := None)\<rparr>)))
         expired q)
       (\<lambda>q1. and_then
         (if timers q1 = [] then Inr Timestamp_Invalid
          else and_then (deref q1 (snd (hd (timers q1)))) (\<lambda>t. Inr (expiration t)))
         (\<lambda>next_expire. Inr (if Timestamp_Valid next_expire then ResetTimerfd clock q1 next_expire else q1)))"

text \<open>What a callback may do to the queue it is called from, in the loop thread.\<close>

datatype tq_call =
    Call_AddTimer callback timestamp double
  | Call_Cancel timer_id

definition run_call ::
  "((addr \<Rightarrow> bool) \<Rightarrow> addr option) \<Rightarrow> (nat \<Rightarrow> timestamp) \<Rightarrow> tq_call \<Rightarrow> timer_queue \<Rightarrow> timer_queue outcome" where
  "run_call alloc clock c q = (case c of
       Call_AddTimer cb when dt \<Rightarrow> and_then (AddTimer alloc clock True q cb when dt) (\<lambda>(q', _). Inr q')
     | Call_Cancel tid \<Rightarrow> Cancel clock True q tid)"

definition Timer_Run ::
  "((addr \<Rightarrow> bool) \<Rightarrow> addr option) \<Rightarrow> (nat \<Rightarrow> timestamp) \<Rightarrow> (callback \<Rightarrow> tq_call list) \<Rightarrow> timer
   \<Rightarrow> timer_queue \<Rightarrow> timer_queue outcome" where
  "Timer_Run alloc clock script t q = for_each (run_call alloc clock) (script (timer_callback t)) q"

definition TimerQueue_HandleRead ::
  "((addr \<Rightarrow> bool) \<Rightarrow> addr option) \<Rightarrow> (nat \<Rightarrow> timestamp) \<Rightarrow> (callback \<Rightarrow> tq_call list)
   \<Rightarrow> timer_queue \<Rightarrow> timer_queue outcome" where
  "TimerQueue_HandleRead alloc clock script q =
     (let (now, q0) = Now clock q
      in and_then (GetExpired q0 now) (\<lambda>(q1, expired).
           let q2 = q1\<lparr>calling_expired_timers := True, canceling_timers := []\<rparr>
           in and_then (for_each (\<lambda>e q. and_then (deref q (snd e)) (\<lambda>t. Timer_Run alloc clock script t q))
                          expired q2)
                (\<lambda>q3. Reset clock (q3\<lparr>calling_expired_timers := False\<rparr>) expired now)))"

text \<open>The destructor deletes every queued timer.\<close>

definition TimerQueue_destroy :: "timer_queue \<Rightarrow> timer_queue" where
  "TimerQueue_destroy q = fold (\<lambda>e q. q\<lparr>tq_heap := (tq_heap q)(snd e := None)\<rparr>) (timers q) q"

section \<open>The invariant\<close>

definition alloc_fresh :: "((addr \<Rightarrow> bool) \<Rightarrow> addr option) \<Rightarrow> bool" where
  "alloc_fresh alloc \<longleftrightarrow> (\<forall>live a. alloc live = Some a \<longrightarrow> \<not> live a \<and> a < UINTPTR_MAX)"

lemma alloc_freshD: "alloc_fresh alloc \<Longrightarrow> alloc live = Some a \<Longrightarrow> \<not> live a \<and> a < UINTPTR_MAX"
  unfolding alloc_fresh_def by blast

definition id_of :: "(addr \<rightharpoonup> timer) \<Rightarrow> entry \<Rightarrow> timer_id" where
  "id_of h e = (snd e, sequence (the (h (snd e))))"

definition tq_core :: "timer_queue \<Rightarrow> bool" where
  "tq_core q \<longleftrightarrow> std_set (timers q) \<and> std_set (active_timers q)
     \<and> set (active_timers q) = id_of (tq_heap q) ` set (timers q)
     \<and> inj_on snd (set (timers q))
     \<and> (\<forall>(t, a) \<in> set (timers q). a < UINTPTR_MAX \<and> (\<exists>tm. tq_heap q a = Some tm \<and> expiration tm = t))
     \<and> (\<forall>a tm. tq_heap q a = Some tm \<longrightarrow> sequence tm \<le> num_created q)"

definition in_flight :: "timer_queue \<Rightarrow> addr list \<Rightarrow> bool" where
  "in_flight q as \<longleftrightarrow> distinct as
     \<and> (\<forall>a \<in> set as. a < UINTPTR_MAX \<and> tq_heap q a \<noteq> None \<and> a \<notin> snd ` set (timers q))"

fun added_addrs :: "tq_functor list \<Rightarrow> addr list" where
  "added_addrs [] = []"
| "added_addrs (AddTimerInLoop_functor a # fs) = a # added_addrs fs"
| "added_addrs (CancelInLoop_functor tid # fs) = added_addrs fs"

definition tq_inv :: "timer_queue \<Rightarrow> bool" where
  "tq_inv q \<longleftrightarrow> tq_core q \<and> in_flight q (added_addrs (loop_pending q)) \<and> \<not> calling_expired_timers q"

section \<open>Every operation keeps the invariant\<close>

lemma tq_coreD:
  assumes "tq_core q"
  shows "std_set (timers q)" "std_set (active_timers q)"
    "set (active_timers q) = id_of (tq_heap q) ` set (timers q)" "inj_on snd (set (timers q))"
    "\<And>t a. (t, a) \<in> set (timers q) \<Longrightarrow> a < UINTPTR_MAX \<and> (\<exists>tm. tq_heap q a = Some tm \<and> expiration tm = t)"
    "\<And>a tm. tq_heap q a = Some tm \<Longrightarrow> sequence tm \<le> num_created q"
  using assms by (auto simp: tq_core_def)

lemma tq_coreI:
  assumes "std_set (timers q)" "std_set (active_timers q)"
    "set (active_timers q) = id_of (tq_heap q) ` set (timers q)" "inj_on snd (set (timers q))"
    "\<And>t a. (t, a) \<in> set (timers q) \<Longrightarrow> a < UINTPTR_MAX \<and> (\<exists>tm. tq_heap q a = Some tm \<and> expiration tm = t)"
    "\<And>a tm. tq_heap q a = Some tm \<Longrightarrow> sequence tm \<le> num_created q"
  shows "tq_core q"
  using assms by (auto simp: tq_core_def)

lemma fst_id_of [simp]: "fst (id_of h e) = snd e"
  by (simp add: id_of_def)

lemma inj_on_id_of: "inj_on snd A \<Longrightarrow> inj_on (id_of h) A"
  by (auto simp: inj_on_def id_of_def)

lemma core_sizes_agree: "tq_core q \<Longrightarrow> sizes_agree q"
  using sset.size_elems [of "timers q"] sset.size_elems [of "active_timers q"]
  by (simp add: sizes_agree_def tq_coreD card_image inj_on_id_of)

lemma ResetTimerfd_frame [simp]:
  "tq_heap (ResetTimerfd clock q t) = tq_heap q" "timers (ResetTimerfd clock q t) = timers q"
  "active_timers (ResetTimerfd clock q t) = active_timers q"
  "num_created (ResetTimerfd clock q t) = num_created q"
  "calling_expired_timers (ResetTimerfd clock q t) = calling_expired_timers q"
  "canceling_timers (ResetTimerfd clock q t) = canceling_timers q"
  "loop_pending (ResetTimerfd clock q t) = loop_pending q"
  by (simp_all add: ResetTimerfd_def Now_def)

lemma tq_core_cong:
  "timers q' = timers q \<Longrightarrow> active_timers q' = active_timers q \<Longrightarrow> tq_heap q' = tq_heap q \<Longrightarrow>
   num_created q' = num_created q \<Longrightarrow> tq_core q' = tq_core q"
  by (simp add: tq_core_def)

lemma in_flight_cong:
  "timers q' = timers q \<Longrightarrow> tq_heap q' = tq_heap q \<Longrightarrow> in_flight q' as = in_flight q as"
  by (simp add: in_flight_def)

lemma in_flight_live: "in_flight q as \<Longrightarrow> a \<in> set as \<Longrightarrow> \<exists>t. deref q a = Inr t \<and> tq_heap q a = Some t"
  by (auto simp: in_flight_def deref_def split: option.split)

text \<open>A live timer that is not queued is inserted: both sets take it and nothing else changes.\<close>

lemma Insert_ok:
  assumes core: "tq_core q" and fl: "in_flight q (a # as)" and t: "tq_heap q a = Some t"
  shows "\<exists>q'. Insert q a = Inr (q', timers q = [] \<or> expiration t < fst (hd (timers q)))
    \<and> q' = q\<lparr>timers := timers q', active_timers := active_timers q'\<rparr>
    \<and> set (timers q') = insert (expiration t, a) (set (timers q))
    \<and> tq_core q' \<and> in_flight q' as"
proof -
  let ?q = "q\<lparr>timers := fst (std_insert (expiration t, a) (timers q)),
              active_timers := fst (std_insert (a, sequence t) (active_timers q))\<rparr>"
  note c = tq_coreD [OF core]
  have fresh: "a \<notin> snd ` set (timers q)" "a < UINTPTR_MAX" using fl by (simp_all add: in_flight_def)
  then have new: "(expiration t, a) \<notin> set (timers q)" "(a, sequence t) \<notin> set (active_timers q)"
    unfolding c(3) by (force simp: id_of_def)+
  have ins: "std_set (timers ?q)" "set (timers ?q) = insert (expiration t, a) (set (timers q))"
    "std_set (active_timers ?q)" "set (active_timers ?q) = insert (a, sequence t) (set (active_timers q))"
    using sset.ins_law [OF c(1)] sset.ins_law [OF c(2)] by simp_all
  moreover have "id_of (tq_heap q) (expiration t, a) = (a, sequence t)" using t by (simp add: id_of_def)
  moreover have "inj_on snd (insert (expiration t, a) (set (timers q)))"
    using c(4) fresh(1) by (force simp: inj_on_def)
  ultimately have core': "tq_core ?q" using c fresh(2) t by (auto simp: tq_core_def)
  moreover have "in_flight ?q as" using fl by (auto simp: in_flight_def)
  moreover have "Insert q a = Inr (?q, timers q = [] \<or> expiration t < fst (hd (timers q)))"
    using new core_sizes_agree [OF core] core_sizes_agree [OF core'] t
    by (simp add: Insert_def deref_def std_insert_def Let_def)
  ultimately show ?thesis using ins(2) by (intro exI [of _ ?q]) simp
qed

text \<open>What an operation in the loop thread leaves alone, with the timers \<open>as\<close> in flight.\<close>

definition tq_frame :: "addr list \<Rightarrow> timer_queue \<Rightarrow> timer_queue \<Rightarrow> bool" where
  "tq_frame as q q' \<longleftrightarrow> tq_core q' \<and> in_flight q' as \<and> (\<forall>a \<in> set as. tq_heap q' a = tq_heap q a)
     \<and> calling_expired_timers q' = calling_expired_timers q \<and> loop_pending q' = loop_pending q
     \<and> set (canceling_timers q) \<subseteq> set (canceling_timers q')"

lemma tq_frame_refl: "tq_core q \<Longrightarrow> in_flight q as \<Longrightarrow> tq_frame as q q"
  by (simp add: tq_frame_def)

lemma tq_frame_trans: "tq_frame as q q1 \<Longrightarrow> tq_frame as q1 q2 \<Longrightarrow> tq_frame as q q2"
  by (auto simp: tq_frame_def)

lemma tq_frameD: "tq_frame as q q' \<Longrightarrow> tq_core q' \<and> in_flight q' as"
  by (simp add: tq_frame_def)

lemma AddTimerInLoop_ok:
  assumes "tq_core q" "in_flight q (a # as)" "tq_heap q a = Some t"
  shows "\<exists>q'. AddTimerInLoop clock q a = Inr q' \<and> tq_frame as q q' \<and> tq_heap q' = tq_heap q
    \<and> num_created q' = num_created q \<and> set (timers q') = insert (expiration t, a) (set (timers q))"
proof -
  from Insert_ok [OF assms] obtain q1 where
    q1: "Insert q a = Inr (q1, timers q = [] \<or> expiration t < fst (hd (timers q)))"
      "q1 = q\<lparr>timers := timers q1, active_timers := active_timers q1\<rparr>"
      "set (timers q1) = insert (expiration t, a) (set (timers q))" "tq_core q1" "in_flight q1 as" by blast
  have fields: "tq_heap q1 = tq_heap q" "num_created q1 = num_created q"
    "calling_expired_timers q1 = calling_expired_timers q" "canceling_timers q1 = canceling_timers q"
    "loop_pending q1 = loop_pending q" by (subst q1(2), simp)+
  let ?r = "ResetTimerfd clock q1 (expiration t)"
  have "tq_core ?r = tq_core q1" by (rule tq_core_cong) simp_all
  moreover have "in_flight ?r as = in_flight q1 as" by (rule in_flight_cong) simp_all
  ultimately show ?thesis
    using q1(1,3,4,5) fields assms(3)
    by (auto simp: AddTimerInLoop_def tq_frame_def deref_def)
qed

lemma CancelInLoop_active:
  assumes core: "tq_core q" and "in_flight q as" and mem: "tid \<in> set (active_timers q)"
  shows "\<exists>q' t. CancelInLoop q tid = Inr q' \<and> tq_frame as q q'
    \<and> (t, fst tid) \<in> set (timers q) \<and> set (timers q') = set (timers q) - {(t, fst tid)}
    \<and> tq_heap q' = (tq_heap q)(fst tid := None)"
proof -
  note c = tq_coreD [OF core]
  from mem c(3) obtain t a where e: "(t, a) \<in> set (timers q)" "tid = id_of (tq_heap q) (t, a)"
    by auto
  then obtain tm where tm: "tq_heap q a = Some tm" "expiration tm = t" using c(5) by blast
  have tid: "tid = (a, sequence tm)" using e tm by (simp add: id_of_def)
  let ?q = "q\<lparr>timers := fst (std_erase (t, a) (timers q)), tq_heap := (tq_heap q)(a := None),
              active_timers := fst (std_erase tid (active_timers q))\<rparr>"
  have del: "std_set (timers ?q)" "set (timers ?q) = set (timers q) - {(t, a)}"
    "std_set (active_timers ?q)" "set (active_timers ?q) = set (active_timers q) - {tid}"
    using sset.del_law [OF c(1)] sset.del_law [OF c(2)] by simp_all
  have other: "snd x \<noteq> a" if "x \<in> set (timers q) - {(t, a)}" for x
    using that e(1) c(4) by (metis DiffD1 DiffD2 inj_onD insertCI snd_conv)
  have "set (active_timers q) - {tid} = id_of (tq_heap q) ` (set (timers q) - {(t, a)})"
    using inj_on_image_set_diff [OF inj_on_id_of [OF c(4)], of "set (timers q)" "{(t, a)}"] e c(3) by simp
  also have "\<dots> = id_of (tq_heap ?q) ` (set (timers q) - {(t, a)})"
    using other by (intro image_cong) (auto simp: id_of_def)
  finally have ids: "set (active_timers ?q) = id_of (tq_heap ?q) ` set (timers ?q)" using del(2,4) by simp
  have live: "a' < UINTPTR_MAX \<and> (\<exists>tm. tq_heap ?q a' = Some tm \<and> expiration tm = t')"
    if "(t', a') \<in> set (timers ?q)" for t' a'
    using other [of "(t', a')"] c(5) [of t' a'] that unfolding del(2) by simp
  have seqs: "sequence tm \<le> num_created ?q" if "tq_heap ?q b = Some tm" for b tm
    using that c(6) [of b tm] by (simp split: if_splits)
  have "inj_on snd (set (timers ?q))" unfolding del(2) by (rule inj_on_subset [OF c(4)]) blast
  then have "tq_core ?q" by (intro tq_coreI del(1,3) ids live seqs)
  have flight: "\<forall>b \<in> set as. b \<noteq> a" using assms(2) e(1) by (force simp: in_flight_def)
  have flight': "in_flight ?q as"
    unfolding in_flight_def del(2) using assms(2) flight by (auto simp: in_flight_def)
  have run: "CancelInLoop q tid = Inr ?q"
    using core_sizes_agree [OF core] core_sizes_agree [OF \<open>tq_core ?q\<close>] mem tm e(1) tid
    by (simp add: CancelInLoop_def deref_def std_erase_def Let_def)
  have "tq_frame as q ?q" using \<open>tq_core ?q\<close> flight flight' by (simp add: tq_frame_def)
  moreover have "set (timers ?q) = set (timers q) - {(t, fst tid)}" using del(2) tid by simp
  ultimately show ?thesis using run e(1) tid by (intro exI [of _ ?q] exI [of _ t] conjI) simp_all
qed

lemma CancelInLoop_inactive:
  assumes "tq_core q" "tid \<notin> set (active_timers q)"
  shows "CancelInLoop q tid = Inr (if calling_expired_timers q
    then q\<lparr>canceling_timers := fst (std_insert tid (canceling_timers q))\<rparr> else q)"
  using core_sizes_agree [OF assms(1)] assms(2)
  by (simp add: CancelInLoop_def sizes_agree_def)

lemma CancelInLoop_ok:
  assumes "tq_core q" "in_flight q as"
  shows "\<exists>q'. CancelInLoop q tid = Inr q' \<and> tq_frame as q q'"
proof (cases "tid \<in> set (active_timers q)")
  case True
  with CancelInLoop_active [OF assms] show ?thesis by blast
next
  case False
  let ?q = "q\<lparr>canceling_timers := fst (std_insert tid (canceling_timers q))\<rparr>"
  have "tq_core ?q = tq_core q" by (rule tq_core_cong) simp_all
  moreover have "in_flight ?q as = in_flight q as" by (rule in_flight_cong) simp_all
  ultimately show ?thesis
    using CancelInLoop_inactive [OF assms(1) False] assms by (auto simp: tq_frame_def)
qed

text \<open>Creating a timer: the allocator's address joins the timers in flight.\<close>

lemma AddTimer_created:
  assumes "tq_core q" "in_flight q as" "alloc_fresh alloc" "alloc (\<lambda>a. tq_heap q a \<noteq> None) = Some a"
  shows "tq_core (q\<lparr>tq_heap := (tq_heap q)(a \<mapsto> Timer_new (num_created q) cb when dt),
                    num_created := num_created q + 1\<rparr>)"
    and "in_flight (q\<lparr>tq_heap := (tq_heap q)(a \<mapsto> Timer_new (num_created q) cb when dt),
                    num_created := num_created q + 1\<rparr>) (a # as)"
    and "a \<notin> set as"
proof -
  note c = tq_coreD [OF assms(1)]
  have fresh: "tq_heap q a = None" "a < UINTPTR_MAX"
    using alloc_freshD [OF assms(3,4)] by simp_all
  then have notin: "a \<notin> snd ` set (timers q)" using c(5) by fastforce
  show "a \<notin> set as" using fresh(1) assms(2) by (auto simp: in_flight_def)
  then show "in_flight (q\<lparr>tq_heap := (tq_heap q)(a \<mapsto> Timer_new (num_created q) cb when dt),
                    num_created := num_created q + 1\<rparr>) (a # as)"
    using assms(2) fresh notin by (auto simp: in_flight_def)
  have "id_of ((tq_heap q)(a \<mapsto> Timer_new (num_created q) cb when dt)) ` set (timers q)
      = id_of (tq_heap q) ` set (timers q)"
    using notin by (intro image_cong) (auto simp: id_of_def)
  then show "tq_core (q\<lparr>tq_heap := (tq_heap q)(a \<mapsto> Timer_new (num_created q) cb when dt),
                    num_created := num_created q + 1\<rparr>)"
    using c notin fresh
    by (auto simp: tq_core_def Timer_new_def image_iff dest!: c(6))
qed

lemma AddTimer_in_loop_ok:
  assumes "tq_core q" "in_flight q as" "alloc_fresh alloc"
  shows "safely (\<lambda>(q', tid). tq_frame as q q' \<and> num_created q' = num_created q + 1
      \<and> tid = (fst tid, num_created q + 1) \<and> tq_heap q (fst tid) = None
      \<and> tq_heap q' = (tq_heap q)(fst tid \<mapsto> Timer_new (num_created q) cb when dt)
      \<and> set (timers q') = insert (when, fst tid) (set (timers q)))
    (AddTimer alloc clock True q cb when dt)"
proof (cases "alloc (\<lambda>a. tq_heap q a \<noteq> None)")
  case None
  then show ?thesis by (simp add: AddTimer_def AddTimer_post_def)
next
  case (Some a)
  let ?t = "Timer_new (num_created q) cb when dt"
  let ?q = "q\<lparr>tq_heap := (tq_heap q)(a \<mapsto> ?t), num_created := num_created q + 1\<rparr>"
  note new = AddTimer_created [OF assms Some]
  have heap: "tq_heap ?q a = Some ?t" "tq_heap q a = None"
    using alloc_freshD [OF assms(3) Some] by simp_all
  from AddTimerInLoop_ok [OF new(1,2) heap(1), of clock] obtain q' where
    "AddTimerInLoop clock ?q a = Inr q'" "tq_frame as ?q q'" "tq_heap q' = tq_heap ?q"
    "num_created q' = num_created ?q" "set (timers q') = insert (expiration ?t, a) (set (timers ?q))" by blast
  moreover from this(2) have "tq_frame as q q'" using new(3) by (auto simp: tq_frame_def)
  ultimately show ?thesis using Some heap(2)
    by (simp add: AddTimer_def AddTimer_post_def AddTimer_result_def tq_RunInLoop_def run_functor_def
        deref_def Timer_new_def)
qed

lemma run_call_ok:
  assumes "tq_core q" "in_flight q as" "alloc_fresh alloc"
  shows "safely (tq_frame as q) (run_call alloc clock c q)"
proof (cases c)
  case (Call_AddTimer cb t dt)
  have "safely (\<lambda>(q', tid). tq_frame as q q') (AddTimer alloc clock True q cb t dt)"
    by (rule safely_mono [OF AddTimer_in_loop_ok [OF assms]]) auto
  then show ?thesis
    by (auto simp: Call_AddTimer run_call_def intro: safely_and_then)
next
  case (Call_Cancel tid)
  with CancelInLoop_ok [OF assms(1,2), of tid] show ?thesis
    by (auto simp: run_call_def Cancel_def tq_RunInLoop_def run_functor_def)
qed

lemma Timer_Run_ok:
  assumes "tq_core q" "in_flight q as" "alloc_fresh alloc"
  shows "safely (tq_frame as q) (Timer_Run alloc clock script t q)"
  unfolding Timer_Run_def
proof (rule safely_for_each)
  show "tq_frame as q q" using assms by (simp add: tq_frame_refl)
  fix c q1
  assume f: "tq_frame as q q1"
  then have "safely (tq_frame as q1) (run_call alloc clock c q1)"
    using assms(3) by (intro run_call_ok) (simp_all add: tq_frameD)
  then show "safely (tq_frame as q) (run_call alloc clock c q1)"
    by (rule safely_mono) (rule tq_frame_trans [OF f])
qed

text \<open>The loop over the expired timers, whatever their callbacks do.\<close>

definition run_expired ::
  "((addr \<Rightarrow> bool) \<Rightarrow> addr option) \<Rightarrow> (nat \<Rightarrow> timestamp) \<Rightarrow> (callback \<Rightarrow> tq_call list) \<Rightarrow> entry
   \<Rightarrow> timer_queue \<Rightarrow> timer_queue outcome" where
  "run_expired alloc clock script e q =
     and_then (deref q (snd e)) (\<lambda>t. Timer_Run alloc clock script t q)"

lemma run_expired_ok:
  assumes "tq_core q" "in_flight q as" "alloc_fresh alloc" "snd e \<in> set as"
  shows "safely (tq_frame as q) (run_expired alloc clock script e q)"
  using in_flight_live [OF assms(2,4)] Timer_Run_ok [OF assms(1-3)] by (auto simp: run_expired_def)

lemma run_batch_ok:
  assumes "tq_core q" "in_flight q as" "alloc_fresh alloc" "snd ` set es \<subseteq> set as"
  shows "safely (tq_frame as q) (for_each (run_expired alloc clock script) es q)"
proof (rule safely_for_each)
  show "tq_frame as q q" using assms by (simp add: tq_frame_refl)
  fix e q1
  assume "e \<in> set es" and f: "tq_frame as q q1"
  then have "safely (tq_frame as q1) (run_expired alloc clock script e q1)"
    using assms(3,4) by (intro run_expired_ok) (auto simp: tq_frameD)
  then show "safely (tq_frame as q) (run_expired alloc clock script e q1)"
    by (rule safely_mono) (rule tq_frame_trans [OF f])
qed

subsection \<open>Taking the expired timers out\<close>

definition expired_at :: "timestamp \<Rightarrow> entry list \<Rightarrow> entry list" where
  "expired_at now es = filter (\<lambda>e. fst e \<le> now) es"

lemma before_sentry: "a < UINTPTR_MAX \<Longrightarrow> (t, a) < (now, UINTPTR_MAX) \<longleftrightarrow> t \<le> now" for t :: timestamp
  by (auto simp: less_prod_def dest: less_imp_le)

lemma sorted_takeWhile_filter:
  assumes "sorted xs"
  shows "takeWhile (\<lambda>e. e < x) xs = filter (\<lambda>e. e < x) xs"
    and "dropWhile (\<lambda>e. e < x) xs = filter (\<lambda>e. \<not> e < x) xs"
  using assms
  by (induction xs) (auto intro!: filter_True [symmetric] filter_False [symmetric] dest: le_less_trans)

lemma core_expired:
  assumes "tq_core q"
  shows "takeWhile (\<lambda>e. e < (now, UINTPTR_MAX)) (timers q) = expired_at now (timers q)"
    and "dropWhile (\<lambda>e. e < (now, UINTPTR_MAX)) (timers q) = filter (\<lambda>e. \<not> fst e \<le> now) (timers q)"
proof -
  note c = tq_coreD [OF assms]
  have s: "sorted (timers q)" using c(1) by (simp add: std_set_def)
  have "e < (now, UINTPTR_MAX) \<longleftrightarrow> fst e \<le> now" if "e \<in> set (timers q)" for e
    using that c(5) [of "fst e" "snd e"] before_sentry [of "snd e" "fst e" now] by simp
  then show "takeWhile (\<lambda>e. e < (now, UINTPTR_MAX)) (timers q) = expired_at now (timers q)"
    "dropWhile (\<lambda>e. e < (now, UINTPTR_MAX)) (timers q) = filter (\<lambda>e. \<not> fst e \<le> now) (timers q)"
    unfolding sorted_takeWhile_filter [OF s] expired_at_def
    by (simp_all cong: filter_cong del: less_prod_simp)
qed

definition deactivate :: "entry \<Rightarrow> timer_queue \<Rightarrow> timer_queue outcome" where
  "deactivate e q = and_then (deref q (snd e)) (\<lambda>t.
     let (active', n) = std_erase (snd e, sequence t) (active_timers q)
     in asserting (n = 1) ''n == 1'' (Inr (q\<lparr>active_timers := active'\<rparr>)))"

lemma deactivate_batch:
  assumes "std_set (active_timers q)" "set (active_timers q) = id_of (tq_heap q) ` (set es \<union> R)"
    "inj_on snd (set es \<union> R)" "distinct es" "set es \<inter> R = {}" "\<forall>e \<in> set es. tq_heap q (snd e) \<noteq> None"
  shows "\<exists>q'. for_each deactivate es q = Inr q' \<and> q' = q\<lparr>active_timers := active_timers q'\<rparr>
    \<and> std_set (active_timers q') \<and> set (active_timers q') = id_of (tq_heap q) ` R"
  using assms
proof (induction es arbitrary: q)
  case Nil
  then show ?case by simp
next
  case (Cons e es)
  let ?q = "q\<lparr>active_timers := fst (std_erase (id_of (tq_heap q) e) (active_timers q))\<rparr>"
  have mem: "id_of (tq_heap q) e \<in> set (active_timers q)" using Cons.prems(2) by simp
  have d: "std_set (active_timers ?q)"
    "set (active_timers ?q) = set (active_timers q) - {id_of (tq_heap q) e}"
    using sset.del_law [OF Cons.prems(1)] by simp_all
  have "id_of (tq_heap q) ` (set (e # es) \<union> R) - id_of (tq_heap q) ` {e}
      = id_of (tq_heap q) ` (set (e # es) \<union> R - {e})"
    by (rule inj_on_image_set_diff [symmetric, OF inj_on_id_of [OF Cons.prems(3)]]) auto
  moreover have "set (e # es) \<union> R - {e} = set es \<union> R" using Cons.prems(4,5) by auto
  ultimately have "set (active_timers ?q) = id_of (tq_heap ?q) ` (set es \<union> R)"
    using d(2) Cons.prems(2) by simp
  moreover have "inj_on snd (set es \<union> R)"
    by (rule inj_on_subset [OF Cons.prems(3)]) auto
  ultimately have "\<exists>q'. for_each deactivate es ?q = Inr q' \<and> q' = ?q\<lparr>active_timers := active_timers q'\<rparr>
    \<and> std_set (active_timers q') \<and> set (active_timers q') = id_of (tq_heap ?q) ` R"
    using Cons.prems(4,5,6) d(1) by (intro Cons.IH) auto
  moreover have "deactivate e q = Inr ?q"
    using mem Cons.prems(6)
    by (auto simp: deactivate_def deref_def id_of_def std_erase_def Let_def split: option.split)
  ultimately show ?case by simp
qed

lemma GetExpired_ok:
  assumes core: "tq_core q" and fl: "in_flight q as"
  shows "\<exists>q'. GetExpired q now = Inr (q', expired_at now (timers q))
    \<and> q' = q\<lparr>timers := filter (\<lambda>e. \<not> fst e \<le> now) (timers q), active_timers := active_timers q'\<rparr>
    \<and> tq_core q' \<and> in_flight q' (map snd (expired_at now (timers q)) @ as)"
proof -
  note c = tq_coreD [OF core]
  let ?es = "expired_at now (timers q)" and ?rest = "filter (\<lambda>e. \<not> fst e \<le> now) (timers q)"
  let ?q = "q\<lparr>timers := ?rest\<rparr>"
  have part: "set ?es \<union> set ?rest = set (timers q)" "set ?es \<inter> set ?rest = {}" "distinct ?es"
    using c(1) by (auto simp: expired_at_def std_set_def)
  then have live: "\<forall>e \<in> set ?es. tq_heap q (snd e) \<noteq> None" using c(5) by fastforce
  have "\<exists>q'. for_each deactivate ?es ?q = Inr q' \<and> q' = ?q\<lparr>active_timers := active_timers q'\<rparr>
      \<and> std_set (active_timers q') \<and> set (active_timers q') = id_of (tq_heap ?q) ` set ?rest"
    using c(2,3,4) part live by (intro deactivate_batch) simp_all
  then obtain q' where q': "for_each deactivate ?es ?q = Inr q'"
    "q' = ?q\<lparr>active_timers := active_timers q'\<rparr>" "std_set (active_timers q')"
    "set (active_timers q') = id_of (tq_heap q) ` set ?rest" by auto
  have f: "timers q' = ?rest" "tq_heap q' = tq_heap q" "num_created q' = num_created q"
    by (subst q'(2), simp)+
  have core': "tq_core q'"
  proof (rule tq_coreI)
    show "std_set (timers q')" using c(1) f(1) by (simp add: std_set_def sorted_wrt_filter)
    show "inj_on snd (set (timers q'))" unfolding f(1) by (rule inj_on_subset [OF c(4)]) auto
  qed (use q'(3,4) c(5,6) f in auto)
  have flight: "in_flight q' (map snd ?es @ as)"
  proof -
    have "distinct (map snd ?es)" using part(3) c(4) inj_on_subset [of snd "set (timers q)" "set ?es"] part(1)
      by (auto simp: distinct_map)
    moreover have "snd e \<notin> snd ` set ?rest" if "e \<in> set ?es" for e
      using that c(4) part(1,2) by (auto simp: inj_on_def)
    moreover have "snd e \<notin> set as" if "e \<in> set ?es" for e
      using that fl part(1) by (auto simp: in_flight_def)
    moreover have "snd e < UINTPTR_MAX \<and> tq_heap q (snd e) \<noteq> None" if "e \<in> set ?es" for e
      using that c(5) [of "fst e" "snd e"] part(1) by auto
    moreover have "a \<notin> snd ` set ?rest" if "a \<in> set as" for a using that fl by (auto simp: in_flight_def)
    ultimately show ?thesis unfolding in_flight_def f using fl by (auto simp: in_flight_def)
  qed
  have "?rest = [] \<or> now < fst (hd ?rest)" using hd_in_set [of ?rest] by (cases "?rest = []") auto
  then have "GetExpired q now = Inr (q', ?es)"
    using q'(1) core_sizes_agree [OF core] core_sizes_agree [OF core']
    unfolding GetExpired_def core_expired [OF core] Let_def deactivate_def [abs_def]
    by (simp only: asserting_True and_then_Inr prod.case)
  moreover have "q' = q\<lparr>timers := ?rest, active_timers := active_timers q'\<rparr>" by (subst q'(2)) simp
  ultimately show ?thesis using core' flight by (intro exI [of _ q'] conjI)
qed

subsection \<open>Restarting and freeing\<close>

lemma core_off_queue:
  assumes "tq_core q" "a \<notin> snd ` set (timers q)" "\<And>t. v = Some t \<Longrightarrow> sequence t \<le> num_created q"
  shows "tq_core (q\<lparr>tq_heap := (tq_heap q)(a := v)\<rparr>)"
proof -
  note c = tq_coreD [OF assms(1)]
  let ?q = "q\<lparr>tq_heap := (tq_heap q)(a := v)\<rparr>"
  have off: "snd e \<noteq> a" if "e \<in> set (timers q)" for e using that assms(2) by blast
  show ?thesis
  proof (rule tq_coreI)
    show "set (active_timers ?q) = id_of (tq_heap ?q) ` set (timers ?q)"
      using c(3) off by (simp add: id_of_def)
    fix t b
    assume "(t, b) \<in> set (timers ?q)"
    then show "b < UINTPTR_MAX \<and> (\<exists>tm. tq_heap ?q b = Some tm \<and> expiration tm = t)"
      using c(5) [of t b] off [of "(t, b)"] by simp
  next
    fix b tm
    assume "tq_heap ?q b = Some tm"
    then show "sequence tm \<le> num_created ?q" using c(6) assms(3) by (simp split: if_splits)
  qed (use c(1,2,4) in simp_all)
qed

text \<open>What becomes of an expired timer: the reference for one iteration of \<^verbatim>\<open>Reset\<close>.\<close>

definition after_reset :: "timer_id list \<Rightarrow> timestamp \<Rightarrow> addr \<Rightarrow> timer option \<Rightarrow> timer option" where
  "after_reset cancelled now a v = (case v of
      None \<Rightarrow> None
    | Some t \<Rightarrow> if repeat t \<and> (a, sequence t) \<notin> set cancelled
               then Some (t\<lparr>expiration := AddTime now (interval t)\<rparr>) else None)"

definition reset_entries :: "timer_queue \<Rightarrow> timestamp \<Rightarrow> entry list \<Rightarrow> entry set" where
  "reset_entries q now es = {(expiration t, a) | t a. a \<in> snd ` set es
      \<and> after_reset (canceling_timers q) now a (tq_heap q a) = Some t}"

definition reset_one :: "timestamp \<Rightarrow> entry \<Rightarrow> timer_queue \<Rightarrow> timer_queue outcome" where
  "reset_one now e q = and_then (deref q (snd e)) (\<lambda>t.
     if repeat t \<and> (snd e, sequence t) \<notin> set (canceling_timers q)
     then and_then (Insert (q\<lparr>tq_heap := (tq_heap q)(snd e \<mapsto> Timer_Restart t now)\<rparr>) (snd e))
            (\<lambda>(q', _). Inr q')
     else Inr (q\<lparr>tq_heap := (tq_heap q)(snd e := None)\<rparr>))"

lemma reset_one_ok:
  assumes core: "tq_core q" and fl: "in_flight q (snd e # as)"
  shows "\<exists>q'. reset_one now e q = Inr q' \<and> tq_core q' \<and> in_flight q' as
    \<and> q' = q\<lparr>timers := timers q', active_timers := active_timers q', tq_heap := tq_heap q'\<rparr>
    \<and> tq_heap q' = (tq_heap q)(snd e := after_reset (canceling_timers q) now (snd e) (tq_heap q (snd e)))
    \<and> set (timers q') = set (timers q) \<union> reset_entries q now [e]"
proof -
  obtain a where a: "snd e = a" by blast
  from fl a obtain t where t: "tq_heap q a = Some t" "deref q a = Inr t"
    using in_flight_live [of q "snd e # as" a] by auto
  have off: "a \<notin> snd ` set (timers q)" "a \<notin> set as" using fl a by (auto simp: in_flight_def)
  have seq: "sequence t \<le> num_created q" using tq_coreD(6) [OF core] t by blast
  show ?thesis
  proof (cases "repeat t \<and> (a, sequence t) \<notin> set (canceling_timers q)")
    case True
    let ?t = "t\<lparr>expiration := AddTime now (interval t)\<rparr>"
    let ?q = "q\<lparr>tq_heap := (tq_heap q)(a \<mapsto> ?t)\<rparr>"
    have "tq_core ?q" using seq by (intro core_off_queue [OF core off(1)]) auto
    moreover have "in_flight ?q (a # as)" using fl a by (auto simp: in_flight_def)
    ultimately obtain q' b where q': "Insert ?q a = Inr (q', b)"
      "q' = ?q\<lparr>timers := timers q', active_timers := active_timers q'\<rparr>"
      "set (timers q') = insert (expiration ?t, a) (set (timers ?q))" "tq_core q'" "in_flight q' as"
      using Insert_ok [of ?q a as ?t] by auto
    have h: "tq_heap q' = (tq_heap q)(a \<mapsto> ?t)" by (subst q'(2)) simp
    have ar: "after_reset (canceling_timers q) now a (tq_heap q a) = Some ?t"
      using t True by (simp add: after_reset_def)
    have "reset_one now e q = Inr q'"
      using q'(1) t True a by (simp add: reset_one_def Timer_Restart_def)
    moreover have "q' = q\<lparr>timers := timers q', active_timers := active_timers q', tq_heap := tq_heap q'\<rparr>"
      unfolding h by (subst q'(2)) simp
    moreover have "set (timers q') = set (timers q) \<union> reset_entries q now [e]"
      using q'(3) ar a by (auto simp: reset_entries_def)
    ultimately show ?thesis using q'(4,5) h ar a by (intro exI [of _ q'] conjI) simp_all
  next
    case False
    let ?q = "q\<lparr>tq_heap := (tq_heap q)(a := None)\<rparr>"
    have ar: "after_reset (canceling_timers q) now a (tq_heap q a) = None"
      using t False by (simp add: after_reset_def)
    have "tq_core ?q" by (rule core_off_queue [OF core off(1)]) simp
    moreover have "in_flight ?q as" using fl a off(2) by (auto simp: in_flight_def)
    moreover have "reset_one now e q = Inr ?q" using t False a by (auto simp: reset_one_def)
    moreover have "reset_entries q now [e] = {}" using ar a by (simp add: reset_entries_def)
    ultimately show ?thesis using ar a by (intro exI [of _ ?q] conjI) simp_all
  qed
qed

lemma reset_batch_ok:
  assumes "tq_core q" "in_flight q (map snd es @ as)"
  shows "\<exists>q'. for_each (reset_one now) es q = Inr q' \<and> tq_core q' \<and> in_flight q' as
    \<and> q' = q\<lparr>timers := timers q', active_timers := active_timers q', tq_heap := tq_heap q'\<rparr>
    \<and> tq_heap q' = (\<lambda>a. if a \<in> snd ` set es
         then after_reset (canceling_timers q) now a (tq_heap q a) else tq_heap q a)
    \<and> set (timers q') = set (timers q) \<union> reset_entries q now es"
  using assms
proof (induction es arbitrary: q)
  case Nil
  then show ?case by (simp add: reset_entries_def)
next
  case (Cons e es)
  from reset_one_ok [of q e "map snd es @ as" now] Cons.prems obtain q1 where
    q1: "reset_one now e q = Inr q1" "tq_core q1" "in_flight q1 (map snd es @ as)"
      "q1 = q\<lparr>timers := timers q1, active_timers := active_timers q1, tq_heap := tq_heap q1\<rparr>"
      "tq_heap q1 = (tq_heap q)(snd e := after_reset (canceling_timers q) now (snd e) (tq_heap q (snd e)))"
      "set (timers q1) = set (timers q) \<union> reset_entries q now [e]" by auto
  from Cons.IH [OF q1(2,3)] obtain q2 where
    q2: "for_each (reset_one now) es q1 = Inr q2" "tq_core q2" "in_flight q2 as"
      "q2 = q1\<lparr>timers := timers q2, active_timers := active_timers q2, tq_heap := tq_heap q2\<rparr>"
      "tq_heap q2 = (\<lambda>a. if a \<in> snd ` set es
         then after_reset (canceling_timers q1) now a (tq_heap q1 a) else tq_heap q1 a)"
      "set (timers q2) = set (timers q1) \<union> reset_entries q1 now es" by blast
  have same: "canceling_timers q1 = canceling_timers q" by (subst q1(4)) simp
  have fresh: "snd e \<notin> snd ` set es" using Cons.prems(2) by (auto simp: in_flight_def)
  have others: "tq_heap q1 b = tq_heap q b" if "b \<in> snd ` set es" for b using that fresh q1(5) by (metis fun_upd_apply)
  have "reset_entries q1 now es = reset_entries q now es"
    by (simp add: reset_entries_def same others cong: conj_cong)
  moreover have "reset_entries q now (e # es) = reset_entries q now [e] \<union> reset_entries q now es"
    by (auto simp: reset_entries_def)
  ultimately have "set (timers q2) = set (timers q) \<union> reset_entries q now (e # es)"
    using q1(6) q2(6) by auto
  moreover have "tq_heap q2 = (\<lambda>a. if a \<in> snd ` set (e # es)
      then after_reset (canceling_timers q) now a (tq_heap q a) else tq_heap q a)"
    unfolding q2(5) same using others fresh by (auto simp: q1(5) fun_eq_iff)
  moreover have "q2 = q\<lparr>timers := timers q2, active_timers := active_timers q2, tq_heap := tq_heap q2\<rparr>"
    by (subst q2(4), subst q1(4)) simp
  moreover have "for_each (reset_one now) (e # es) q = Inr q2" using q1(1) q2(1) by simp
  ultimately show ?case using q2(2,3) by (intro exI [of _ q2] conjI)
qed

definition rearm :: "(nat \<Rightarrow> timestamp) \<Rightarrow> timer_queue \<Rightarrow> timer_queue" where
  "rearm clock q =
     (if timers q \<noteq> [] \<and> Timestamp_Valid (fst (hd (timers q)))
      then ResetTimerfd clock q (fst (hd (timers q))) else q)"

lemma rearm_frame [simp]:
  "tq_heap (rearm clock q) = tq_heap q" "timers (rearm clock q) = timers q"
  "active_timers (rearm clock q) = active_timers q" "num_created (rearm clock q) = num_created q"
  "calling_expired_timers (rearm clock q) = calling_expired_timers q"
  "loop_pending (rearm clock q) = loop_pending q"
  by (simp_all add: rearm_def)

lemma Reset_ok:
  assumes "tq_core q" "in_flight q (map snd es @ as)"
  shows "\<exists>q'. Reset clock q es now = Inr (rearm clock q') \<and> tq_core q' \<and> in_flight q' as
    \<and> calling_expired_timers q' = calling_expired_timers q \<and> loop_pending q' = loop_pending q
    \<and> tq_heap q' = (\<lambda>a. if a \<in> snd ` set es
         then after_reset (canceling_timers q) now a (tq_heap q a) else tq_heap q a)
    \<and> set (timers q') = set (timers q) \<union> reset_entries q now es"
proof -
  from reset_batch_ok [OF assms] obtain q' where
    q': "for_each (reset_one now) es q = Inr q'" "tq_core q'" "in_flight q' as"
      "q' = q\<lparr>timers := timers q', active_timers := active_timers q', tq_heap := tq_heap q'\<rparr>"
      "tq_heap q' = (\<lambda>a. if a \<in> snd ` set es
         then after_reset (canceling_timers q) now a (tq_heap q a) else tq_heap q a)"
      "set (timers q') = set (timers q) \<union> reset_entries q now es" by blast
  have same: "calling_expired_timers q' = calling_expired_timers q" "loop_pending q' = loop_pending q"
    by (subst q'(4), simp)+
  have front: "deref q' (snd (hd (timers q'))) = Inr tm \<Longrightarrow> expiration tm = fst (hd (timers q'))"
    "\<exists>tm. deref q' (snd (hd (timers q'))) = Inr tm" if "timers q' \<noteq> []" for tm
    using tq_coreD(5) [OF q'(2), of "fst (hd (timers q'))" "snd (hd (timers q'))"] hd_in_set [OF that]
    by (auto simp: deref_def)
  have "Reset clock q es now = Inr (rearm clock q')"
  proof (cases "timers q' = []")
    case False
    with front obtain tm where "deref q' (snd (hd (timers q'))) = Inr tm" "expiration tm = fst (hd (timers q'))"
      by blast
    with False q'(1) show ?thesis by (simp add: Reset_def rearm_def reset_one_def [abs_def])
  qed (use q'(1) in \<open>simp add: Reset_def rearm_def reset_one_def [abs_def] Timestamp_Valid_def Timestamp_Invalid_def\<close>)
  with q'(2,3,5,6) same show ?thesis by (intro exI [of _ q'] conjI)
qed

subsection \<open>Cancelling a timer of the batch that is running\<close>

lemma CancelInLoop_running:
  assumes "tq_core q" "in_flight q as" "fst tid \<in> set as" "calling_expired_timers q"
  shows "\<exists>q'. CancelInLoop q tid = Inr q' \<and> tid \<in> set (canceling_timers q')"
proof -
  have "tid \<notin> set (active_timers q)"
    using assms(2,3) tq_coreD(3) [OF assms(1)] by (auto simp: in_flight_def)
  with CancelInLoop_inactive [OF assms(1)] assms(4) show ?thesis by simp
qed

lemma canceling_grows: "tq_frame as q q' \<Longrightarrow> tid \<in> set (canceling_timers q) \<Longrightarrow> tid \<in> set (canceling_timers q')"
  by (auto simp: tq_frame_def)

lemma Timer_Run_cancels:
  assumes "tq_core q" "in_flight q as" "alloc_fresh alloc" "calling_expired_timers q"
    and "fst tid \<in> set as" "Call_Cancel tid \<in> set (script (timer_callback t))"
  shows "safely (\<lambda>q'. tid \<in> set (canceling_timers q')) (Timer_Run alloc clock script t q)"
proof -
  have step: "safely (\<lambda>q2. tq_frame as q q2
      \<and> (tid \<in> set (canceling_timers q1) \<longrightarrow> tid \<in> set (canceling_timers q2))) (run_call alloc clock c q1)"
    if "tq_frame as q q1" for c q1
  proof -
    have "safely (tq_frame as q1) (run_call alloc clock c q1)"
      using that assms(3) by (intro run_call_ok) (simp_all add: tq_frameD)
    then show ?thesis
      by (rule safely_mono) (use tq_frame_trans [OF that] canceling_grows in blast)
  qed
  have hit: "safely (\<lambda>q2. tid \<in> set (canceling_timers q2)) (run_call alloc clock (Call_Cancel tid) q1)"
    if "tq_frame as q q1" for q1
    using CancelInLoop_running [of q1 as tid] that assms(4,5)
    by (auto simp: tq_frame_def run_call_def Cancel_def tq_RunInLoop_def run_functor_def)
  have "safely (\<lambda>q'. tq_frame as q q' \<and> tid \<in> set (canceling_timers q'))
      (for_each (run_call alloc clock) (script (timer_callback t)) q)"
    by (rule safely_for_each_establishes [where P = "tq_frame as q" and Q = "\<lambda>q. tid \<in> set (canceling_timers q)",
          OF tq_frame_refl [OF assms(1,2)] assms(6)]) (use step hit in blast)+
  then show ?thesis unfolding Timer_Run_def by (rule safely_mono) blast
qed

lemma run_batch_cancels:
  assumes core: "tq_core q" "in_flight q as" "alloc_fresh alloc" "calling_expired_timers q"
    and "snd ` set es \<subseteq> set as" "fst tid \<in> set as"
    and e: "e \<in> set es" "tq_heap q (snd e) = Some t" "Call_Cancel tid \<in> set (script (timer_callback t))"
  shows "safely (\<lambda>q'. tq_frame as q q' \<and> tid \<in> set (canceling_timers q'))
    (for_each (run_expired alloc clock script) es q)"
proof (rule safely_for_each_establishes [where Q = "\<lambda>q. tid \<in> set (canceling_timers q)"])
  show "tq_frame as q q" using core by (simp add: tq_frame_refl)
  show "e \<in> set es" by (fact e(1))
next
  fix e' q1
  assume "e' \<in> set es" and f: "tq_frame as q q1"
  then have "safely (tq_frame as q1) (run_expired alloc clock script e' q1)"
    using core(3) assms(5) by (intro run_expired_ok) (auto simp: tq_frameD)
  then show "safely (\<lambda>q2. tq_frame as q q2 \<and> (tid \<in> set (canceling_timers q1) \<longrightarrow> tid \<in> set (canceling_timers q2)))
      (run_expired alloc clock script e' q1)"
    by (rule safely_mono) (use tq_frame_trans [OF f] canceling_grows in blast)
next
  fix q1
  assume f: "tq_frame as q q1"
  have "snd e \<in> set as" using e(1) assms(5) by auto
  with f e(2) have "deref q1 (snd e) = Inr t" by (simp add: tq_frame_def deref_def)
  moreover have "safely (\<lambda>q2. tid \<in> set (canceling_timers q2)) (Timer_Run alloc clock script t q1)"
    using f core(3,4) assms(6) e(3)
    by (intro Timer_Run_cancels [where as = as]) (simp_all add: tq_frame_def)
  ultimately show "safely (\<lambda>q2. tid \<in> set (canceling_timers q2)) (run_expired alloc clock script e q1)"
    by (simp add: run_expired_def)
qed

subsection \<open>The whole handler\<close>

text \<open>\<^verbatim>\<open>Reset\<close> after the callbacks of a batch, which left the expired timers alone.\<close>

lemma Reset_after_batch:
  assumes f: "tq_frame (map snd es @ added_addrs (loop_pending q)) q2 q3"
    and same: "tq_heap q2 = tq_heap q" "loop_pending q2 = loop_pending q"
  shows "safely (\<lambda>q'. tq_inv q' \<and> loop_pending q' = loop_pending q
      \<and> (\<forall>a \<in> snd ` set es. tq_heap q' a = after_reset (canceling_timers q3) now a (tq_heap q a)
            \<and> (\<forall>t. tq_heap q' a = Some t \<longrightarrow> (expiration t, a) \<in> set (timers q'))))
    (Reset clock (q3\<lparr>calling_expired_timers := False\<rparr>) es now)"
proof -
  let ?q3 = "q3\<lparr>calling_expired_timers := False\<rparr>" and ?as = "added_addrs (loop_pending q)"
  have "tq_core ?q3 = tq_core q3" by (rule tq_core_cong) simp_all
  moreover have "in_flight ?q3 (map snd es @ ?as) = in_flight q3 (map snd es @ ?as)"
    by (rule in_flight_cong) simp_all
  ultimately have "tq_core ?q3" "in_flight ?q3 (map snd es @ ?as)" using f by (simp_all add: tq_frame_def)
  from Reset_ok [OF this, of clock now] obtain q4 where
    r: "Reset clock ?q3 es now = Inr (rearm clock q4)" "tq_core q4" "in_flight q4 ?as"
      "calling_expired_timers q4 = calling_expired_timers ?q3" "loop_pending q4 = loop_pending ?q3"
      "tq_heap q4 = (\<lambda>a. if a \<in> snd ` set es
         then after_reset (canceling_timers ?q3) now a (tq_heap ?q3 a) else tq_heap ?q3 a)"
      "set (timers q4) = set (timers ?q3) \<union> reset_entries ?q3 now es" by blast
  note q4 = r(1-3) r(4-7) [simplified]
  have lp: "loop_pending q4 = loop_pending q" using f same q4(5) by (simp add: tq_frame_def)
  have h3: "tq_heap q3 a = tq_heap q a" if "a \<in> snd ` set es" for a
    using f that same by (auto simp: tq_frame_def)
  have "tq_core (rearm clock q4) = tq_core q4" by (rule tq_core_cong) simp_all
  moreover have "in_flight (rearm clock q4) ?as = in_flight q4 ?as" by (rule in_flight_cong) simp_all
  ultimately have "tq_inv (rearm clock q4)" using q4(2-4) lp by (simp add: tq_inv_def)
  moreover have "(expiration t, a) \<in> set (timers q4)" if "a \<in> snd ` set es" "tq_heap q4 a = Some t" for a t
    using that q4(6,7) by (auto simp: reset_entries_def)
  ultimately show ?thesis using q4(1,6) lp h3 by auto
qed

lemma HandleRead_general:
  fixes q :: timer_queue and clock :: "nat \<Rightarrow> timestamp"
  defines "es \<equiv> expired_at (clock (clock_reads q)) (timers q)"
  assumes inv: "tq_inv q"
    and batch: "\<And>q2. tq_core q2 \<Longrightarrow> in_flight q2 (map snd es @ added_addrs (loop_pending q))
      \<Longrightarrow> calling_expired_timers q2 \<Longrightarrow> tq_heap q2 = tq_heap q \<Longrightarrow>
      safely (\<lambda>q3. tq_frame (map snd es @ added_addrs (loop_pending q)) q2 q3 \<and> K (canceling_timers q3))
        (for_each (run_expired alloc clock script) es q2)"
  shows "safely (\<lambda>q'. tq_inv q' \<and> loop_pending q' = loop_pending q
      \<and> (\<exists>c. K c \<and> (\<forall>a \<in> snd ` set es. tq_heap q' a = after_reset c (clock (clock_reads q)) a (tq_heap q a)
            \<and> (\<forall>t. tq_heap q' a = Some t \<longrightarrow> (expiration t, a) \<in> set (timers q')))))
    (TimerQueue_HandleRead alloc clock script q)"
proof -
  let ?now = "clock (clock_reads q)" and ?as = "added_addrs (loop_pending q)"
  let ?q0 = "q\<lparr>clock_reads := Suc (clock_reads q)\<rparr>"
  have i: "tq_core q" "in_flight q ?as" "\<not> calling_expired_timers q" using inv by (simp_all add: tq_inv_def)
  have "tq_core ?q0 = tq_core q" by (rule tq_core_cong) simp_all
  moreover have "in_flight ?q0 ?as = in_flight q ?as" by (rule in_flight_cong) simp_all
  ultimately obtain q1 where q1: "GetExpired ?q0 ?now = Inr (q1, es)"
    "q1 = ?q0\<lparr>timers := filter (\<lambda>e. \<not> fst e \<le> ?now) (timers ?q0), active_timers := active_timers q1\<rparr>"
    "tq_core q1" "in_flight q1 (map snd es @ ?as)"
    using GetExpired_ok [of ?q0 ?as ?now] i es_def by auto
  let ?q2 = "q1\<lparr>calling_expired_timers := True, canceling_timers := []\<rparr>"
  have same: "tq_heap q1 = tq_heap q" "loop_pending q1 = loop_pending q" by (subst q1(2), simp)+
  have "tq_core ?q2 = tq_core q1" by (rule tq_core_cong) simp_all
  moreover have "in_flight ?q2 (map snd es @ ?as) = in_flight q1 (map snd es @ ?as)"
    by (rule in_flight_cong) simp_all
  ultimately have b: "safely (\<lambda>q3. tq_frame (map snd es @ ?as) ?q2 q3 \<and> K (canceling_timers q3))
      (for_each (run_expired alloc clock script) es ?q2)"
    using q1(3,4) same by (intro batch) simp_all
  have reset: "safely (\<lambda>q'. tq_inv q' \<and> loop_pending q' = loop_pending q
      \<and> (\<exists>c. K c \<and> (\<forall>a \<in> snd ` set es. tq_heap q' a = after_reset c ?now a (tq_heap q a)
            \<and> (\<forall>t. tq_heap q' a = Some t \<longrightarrow> (expiration t, a) \<in> set (timers q')))))
      (Reset clock (q3\<lparr>calling_expired_timers := False\<rparr>) es ?now)"
    if f: "tq_frame (map snd es @ ?as) ?q2 q3 \<and> K (canceling_timers q3)" for q3
    using Reset_after_batch [of es q ?q2 q3 ?now clock] f same
    by (cases "Reset clock (q3\<lparr>calling_expired_timers := False\<rparr>) es ?now") auto
  have "TimerQueue_HandleRead alloc clock script q
      = and_then (for_each (run_expired alloc clock script) es ?q2)
          (\<lambda>q3. Reset clock (q3\<lparr>calling_expired_timers := False\<rparr>) es ?now)"
    using q1(1) by (simp add: TimerQueue_HandleRead_def Now_def run_expired_def [abs_def])
  with safely_and_then [OF b reset] show ?thesis by simp
qed

lemma HandleRead_ok:
  assumes "tq_inv q" "alloc_fresh alloc"
  shows "safely (\<lambda>q'. tq_inv q' \<and> loop_pending q' = loop_pending q
      \<and> (\<exists>c. \<forall>a \<in> snd ` set (expired_at (clock (clock_reads q)) (timers q)).
            tq_heap q' a = after_reset c (clock (clock_reads q)) a (tq_heap q a)
            \<and> (\<forall>t. tq_heap q' a = Some t \<longrightarrow> (expiration t, a) \<in> set (timers q'))))
    (TimerQueue_HandleRead alloc clock script q)"
proof -
  have "safely (\<lambda>q3. tq_frame (map snd es @ as) q2 q3 \<and> True) (for_each (run_expired alloc clock script) es q2)"
    if "tq_core q2" "in_flight q2 (map snd es @ as)" for q2 es as
    using run_batch_ok [OF that assms(2), of es] by simp
  from HandleRead_general [where K = "\<lambda>_. True", OF assms(1) this] show ?thesis by simp
qed

section \<open>Runs of the queue\<close>

text \<open>
  The queue is driven by foreign threads, which create timers and queue functors, and by the loop
  thread, which calls the queue directly, runs the oldest queued functor, or handles an
  expiration with callbacks that do anything a callback can do to the queue.
\<close>

inductive tq_run :: "((addr \<Rightarrow> bool) \<Rightarrow> addr option) \<Rightarrow> (nat \<Rightarrow> timestamp) \<Rightarrow> timer_queue outcome \<Rightarrow> bool"
  for alloc clock where
  start: "tq_run alloc clock (Inr TimerQueue_new)"
| foreign_add: "tq_run alloc clock (Inr q) \<Longrightarrow>
    tq_run alloc clock (and_then (AddTimer_post alloc clock False q cb t dt) (\<lambda>(q', a). Inr q'))"
| foreign_cancel: "tq_run alloc clock (Inr q) \<Longrightarrow> tq_run alloc clock (Cancel clock False q tid)"
| loop_call: "tq_run alloc clock (Inr q) \<Longrightarrow> tq_run alloc clock (run_call alloc clock c q)"
| loop_functor: "tq_run alloc clock (Inr q) \<Longrightarrow> loop_pending q = f # fs \<Longrightarrow>
    tq_run alloc clock (run_functor clock f (q\<lparr>loop_pending := fs\<rparr>))"
| loop_read: "tq_run alloc clock (Inr q) \<Longrightarrow>
    tq_run alloc clock (TimerQueue_HandleRead alloc clock script q)"

lemma tq_frame_inv:
  assumes "tq_inv q" "tq_frame (added_addrs (loop_pending q)) q q'"
  shows "tq_inv q'"
  using assms by (simp add: tq_inv_def tq_frame_def)

lemma added_addrs_append [simp]: "added_addrs (fs @ gs) = added_addrs fs @ added_addrs gs"
  by (induction fs rule: added_addrs.induct) auto

lemma queued_inv:
  assumes "tq_core q" "in_flight q as" "set (added_addrs fs) = set as" "distinct (added_addrs fs)"
    "\<not> calling_expired_timers q"
  shows "tq_inv (q\<lparr>loop_pending := fs\<rparr>)"
proof -
  have "tq_core (q\<lparr>loop_pending := fs\<rparr>) = tq_core q" by (rule tq_core_cong) simp_all
  with assms show ?thesis by (simp add: tq_inv_def in_flight_def)
qed

lemma foreign_add_inv:
  assumes inv: "tq_inv q" and "alloc_fresh alloc"
  shows "safely tq_inv (and_then (AddTimer_post alloc clock False q cb t dt) (\<lambda>(q', a). Inr q'))"
proof (cases "alloc (\<lambda>a. tq_heap q a \<noteq> None)")
  case None
  then show ?thesis by (simp add: AddTimer_post_def)
next
  case (Some a)
  let ?fs = "loop_pending q @ [AddTimerInLoop_functor a]"
  let ?q = "q\<lparr>tq_heap := (tq_heap q)(a \<mapsto> Timer_new (num_created q) cb t dt), num_created := num_created q + 1\<rparr>"
  have i: "tq_core q" "in_flight q (added_addrs (loop_pending q))" "\<not> calling_expired_timers q"
    using inv by (simp_all add: tq_inv_def)
  note new = AddTimer_created(1,2) [OF i(1,2) assms(2) Some, of cb t dt] AddTimer_created(3) [OF i(1,2) assms(2) Some]
  have "tq_inv (?q\<lparr>loop_pending := ?fs\<rparr>)"
    using i new by (intro queued_inv [OF new(1,2)]) (auto simp: in_flight_def)
  then show ?thesis using Some by (simp add: AddTimer_post_def tq_RunInLoop_def)
qed

lemma loop_functor_inv:
  assumes inv: "tq_inv q" and f: "loop_pending q = f # fs"
  shows "\<exists>q'. run_functor clock f (q\<lparr>loop_pending := fs\<rparr>) = Inr q' \<and> tq_inv q'"
proof -
  let ?q = "q\<lparr>loop_pending := fs\<rparr>"
  have i: "tq_core q" "in_flight q (added_addrs (f # fs))" "\<not> calling_expired_timers q"
    using inv f by (simp_all add: tq_inv_def)
  have "tq_core ?q = tq_core q" by (rule tq_core_cong) simp_all
  moreover have "in_flight ?q as = in_flight q as" for as by (rule in_flight_cong) simp_all
  ultimately have q: "tq_core ?q" "in_flight ?q (added_addrs (f # fs))" using i by simp_all
  have "\<exists>q'. run_functor clock f ?q = Inr q' \<and> tq_frame (added_addrs fs) ?q q'"
  proof (cases f)
    case (AddTimerInLoop_functor a)
    with q(2) obtain t where "in_flight ?q (a # added_addrs fs)" "tq_heap ?q a = Some t"
      using in_flight_live [OF q(2), of a] by auto
    with AddTimerInLoop_ok [OF q(1), of a "added_addrs fs" t clock] AddTimerInLoop_functor
    show ?thesis by (auto simp: run_functor_def)
  next
    case (CancelInLoop_functor tid)
    with q CancelInLoop_ok [of ?q "added_addrs fs" tid] show ?thesis by (simp add: run_functor_def)
  qed
  then show ?thesis using i(3) by (auto simp: tq_inv_def tq_frame_def)
qed

lemma tq_run_inv:
  assumes "tq_run alloc clock m" "alloc_fresh alloc"
  shows "safely tq_inv m"
  using assms(1)
proof (induction rule: tq_run.induct)
  case start
  show ?case by (simp add: TimerQueue_new_def tq_inv_def tq_core_def in_flight_def)
next
  case (foreign_add q cb t dt)
  then show ?case using assms(2) by (intro foreign_add_inv) simp_all
next
  case (foreign_cancel q tid)
  then have "tq_inv (q\<lparr>loop_pending := loop_pending q @ [CancelInLoop_functor tid]\<rparr>)"
    by (intro queued_inv [where as = "added_addrs (loop_pending q)"]) (auto simp: tq_inv_def in_flight_def)
  then show ?case by (simp add: Cancel_def tq_RunInLoop_def)
next
  case (loop_call q c)
  then have "tq_inv q" by simp
  then show ?case using assms(2)
    by (intro safely_mono [OF run_call_ok tq_frame_inv]) (simp_all add: tq_inv_def)
next
  case (loop_functor q f fs)
  then have "\<exists>q'. run_functor clock f (q\<lparr>loop_pending := fs\<rparr>) = Inr q' \<and> tq_inv q'"
    by (intro loop_functor_inv) simp_all
  then show ?case by auto
next
  case (loop_read q script)
  then have "tq_inv q" by simp
  from HandleRead_ok [OF this assms(2)] show ?case by (rule safely_mono) simp
qed

section \<open>Properties\<close>


definition bump_alloc :: "(addr \<Rightarrow> bool) \<Rightarrow> addr option" where
  "bump_alloc live = find (\<lambda>a. \<not> live a) [1, 2, 3]"

lemma bump_alloc_fresh: "alloc_fresh bump_alloc"
  by (auto simp: alloc_fresh_def bump_alloc_def UINTPTR_MAX_def split: if_splits)


text \<open>
  C19. \<^verbatim>\<open>GetExpired(now)\<close> takes out of the queue exactly the timers with an expiration at or
  before \<open>now\<close>, in the order of their expirations, and leaves exactly the others queued.
\<close>

theorem GetExpired_exact:
  assumes "tq_inv q"
  shows "\<exists>q' es. GetExpired q now = Inr (q', es) \<and> sorted es
    \<and> set es = {e \<in> set (timers q). fst e \<le> now}
    \<and> set (timers q') = {e \<in> set (timers q). now < fst e}
    \<and> set (active_timers q') = id_of (tq_heap q) ` {e \<in> set (timers q). now < fst e}"
proof -
  have core: "tq_core q" "in_flight q (added_addrs (loop_pending q))" using assms by (simp_all add: tq_inv_def)
  from GetExpired_ok [OF this, of now] obtain q' where
    q': "GetExpired q now = Inr (q', expired_at now (timers q))"
      "q' = q\<lparr>timers := filter (\<lambda>e. \<not> fst e \<le> now) (timers q), active_timers := active_timers q'\<rparr>"
      "tq_core q'" by blast
  have "timers q' = filter (\<lambda>e. \<not> fst e \<le> now) (timers q)" "tq_heap q' = tq_heap q"
    by (subst q'(2), simp)+
  moreover have "sorted (timers q)" using tq_coreD(1) [OF core(1)] by (simp add: std_set_def)
  ultimately show ?thesis using q'(1) tq_coreD(3) [OF q'(3)]
    by (auto simp: expired_at_def sorted_wrt_filter not_le)
qed

definition one_timer :: timer_queue where
  "one_timer = TimerQueue_new
     \<lparr>tq_heap := [1 \<mapsto> Timer_new 0 7 (Timestamp 4) (Double 1 0)], num_created := 1,
      timers := [(Timestamp 4, 1)], active_timers := [(1, 1)]\<rparr>"

lemma one_timer_inv: "tq_inv one_timer"
  by (simp add: one_timer_def TimerQueue_new_def tq_inv_def tq_core_def in_flight_def id_of_def
      Timer_new_def UINTPTR_MAX_def std_set_def)

theorem GetExpired_exact_witness:
  "tq_inv one_timer \<and> (\<exists>q' es. GetExpired one_timer (Timestamp 4) = Inr (q', es) \<and> sorted es
    \<and> set es = {e \<in> set (timers one_timer). fst e \<le> Timestamp 4}
    \<and> set (timers q') = {e \<in> set (timers one_timer). Timestamp 4 < fst e}
    \<and> set (active_timers q') = id_of (tq_heap one_timer) ` {e \<in> set (timers one_timer). Timestamp 4 < fst e})"
  using GetExpired_exact [OF one_timer_inv] one_timer_inv by blast


lemma one_timer_read:
  "returns (TimerQueue_HandleRead bump_alloc (\<lambda>n. Timestamp 5) (\<lambda>_. []) one_timer)"
  by (simp add: one_timer_def TimerQueue_new_def TimerQueue_HandleRead_def Now_def GetExpired_def
      sizes_agree_def deref_def Timer_new_def Timer_Run_def Reset_def Timer_Restart_def Insert_def
      std_erase_def std_insert_def UINTPTR_MAX_def double_positive_def AddTime_whole_seconds)


text \<open>
  C12. A timer that a callback of the running batch cancels (its own timer, or another one that
  expired at the same time) is deleted at the end of the batch and never queued again, even when
  it repeats.
\<close>

theorem Cancel_in_callback_stops_repeat:
  assumes inv: "tq_inv q" "alloc_fresh alloc"
    and "(t, a) \<in> set (timers q)" "t \<le> clock (clock_reads q)" "tq_heap q a = Some tm"
    and "(u, b) \<in> set (timers q)" "u \<le> clock (clock_reads q)" "tq_heap q b = Some canceller"
    and "Call_Cancel (a, sequence tm) \<in> set (script (timer_callback canceller))"
    and "TimerQueue_HandleRead alloc clock script q = Inr q'"
  shows "tq_inv q' \<and> tq_heap q' a = None \<and> a \<notin> snd ` set (timers q')"
proof -
  let ?es = "expired_at (clock (clock_reads q)) (timers q)"
  have mem: "(t, a) \<in> set ?es" "(u, b) \<in> set ?es" using assms(3,4,6,7) by (auto simp: expired_at_def)
  then have a: "a \<in> snd ` set ?es" by force
  have "safely (\<lambda>q3. tq_frame (map snd ?es @ as) q2 q3 \<and> (a, sequence tm) \<in> set (canceling_timers q3))
      (for_each (run_expired alloc clock script) ?es q2)"
    if "tq_core q2" "in_flight q2 (map snd ?es @ as)" "calling_expired_timers q2" "tq_heap q2 = tq_heap q"
    for q2 as
  proof (rule run_batch_cancels [OF that(1,2) inv(2) that(3) _ _ mem(2)])
    show "snd ` set ?es \<subseteq> set (map snd ?es @ as)" by simp
    show "fst (a, sequence tm) \<in> set (map snd ?es @ as)" using a by simp
    show "tq_heap q2 (snd (u, b)) = Some canceller" using that(4) assms(8) by simp
  qed (fact assms(9))
  from HandleRead_general [where K = "\<lambda>c. (a, sequence tm) \<in> set c", OF inv(1) this]
  obtain c where "tq_inv q'" "(a, sequence tm) \<in> set c"
    "tq_heap q' a = after_reset c (clock (clock_reads q)) a (tq_heap q a)"
    unfolding assms(10) safely_Inr using a by blast
  with assms(5) have h: "tq_inv q'" "tq_heap q' a = None" by (simp_all add: after_reset_def)
  then show ?thesis using tq_coreD(5) [of q'] by (force simp: tq_inv_def)
qed

lemma one_timer_read_cancel:
  "returns (TimerQueue_HandleRead bump_alloc (\<lambda>n. Timestamp 5) (\<lambda>_. [Call_Cancel (1, 1)]) one_timer)"
  by (simp add: one_timer_def TimerQueue_new_def TimerQueue_HandleRead_def Now_def GetExpired_def
      sizes_agree_def deref_def Timer_new_def Timer_Run_def Reset_def run_call_def Cancel_def
      tq_RunInLoop_def run_functor_def CancelInLoop_def
      std_erase_def std_insert_def UINTPTR_MAX_def double_positive_def Timestamp_Valid_def Timestamp_Invalid_def)

theorem Cancel_in_callback_stops_repeat_witness:
  "\<exists>q'. TimerQueue_HandleRead bump_alloc (\<lambda>n. Timestamp 5) (\<lambda>_. [Call_Cancel (1, 1)]) one_timer = Inr q'
    \<and> tq_inv q' \<and> tq_heap q' 1 = None"
proof -
  let ?tm = "Timer_new 0 7 (Timestamp 4) (Double 1 0)"
  have e: "(Timestamp 4, 1) \<in> set (timers one_timer)" "tq_heap one_timer 1 = Some ?tm"
    "sequence ?tm = 1"
    by (simp_all add: one_timer_def Timer_new_def)
  from one_timer_read_cancel obtain q' where
    r: "TimerQueue_HandleRead bump_alloc (\<lambda>n. Timestamp 5) (\<lambda>_. [Call_Cancel (1, 1)]) one_timer = Inr q'"
    by (auto simp: returns_iff)
  show ?thesis
    using Cancel_in_callback_stops_repeat [OF one_timer_inv bump_alloc_fresh e(1) _ e(2) e(1) _ e(2) _ r] e(3) r
    by simp
qed

text \<open>
  \<^verbatim>\<open>CancelInLoop\<close> removes and deletes exactly the timer its \<^verbatim>\<open>TimerId\<close> names, address and
  sequence number both: a stale id whose address has been reused by a newer timer removes
  nothing.
\<close>

lemma CancelInLoop_exact:
  assumes "tq_inv q"
  shows "\<exists>q'. CancelInLoop q tid = Inr q' \<and> tq_inv q'
    \<and> set (timers q') = {e \<in> set (timers q). id_of (tq_heap q) e \<noteq> tid}
    \<and> tq_heap q' = (if tid \<in> id_of (tq_heap q) ` set (timers q)
         then (tq_heap q)(fst tid := None) else tq_heap q)"
proof -
  have core: "tq_core q" "in_flight q (added_addrs (loop_pending q))" "\<not> calling_expired_timers q"
    using assms by (simp_all add: tq_inv_def)
  note c = tq_coreD [OF core(1)]
  show ?thesis
  proof (cases "tid \<in> set (active_timers q)")
    case True
    from CancelInLoop_active [OF core(1,2) True] obtain q' t where
      q': "CancelInLoop q tid = Inr q'" "tq_frame (added_addrs (loop_pending q)) q q'"
        "(t, fst tid) \<in> set (timers q)" "set (timers q') = set (timers q) - {(t, fst tid)}"
        "tq_heap q' = (tq_heap q)(fst tid := None)" by blast
    obtain e where "e \<in> set (timers q)" "tid = id_of (tq_heap q) e" using True c(3) by auto
    then have "id_of (tq_heap q) e' = tid \<longleftrightarrow> e' = (t, fst tid)" if "e' \<in> set (timers q)" for e'
      using that q'(3) c(4) inj_onD [OF inj_on_id_of [OF c(4)]] by (metis fst_id_of inj_onD snd_conv)
    then have "set (timers q') = {e \<in> set (timers q). id_of (tq_heap q) e \<noteq> tid}" using q'(4) by auto
    with q'(1,5) tq_frame_inv [OF assms q'(2)] True c(3) show ?thesis by simp
  next
    case False
    then show ?thesis using CancelInLoop_inactive [OF core(1) False] core(3) assms c(3) by auto
  qed
qed


lemmas tq_eval = TimerQueue_new_def TimerQueue_HandleRead_def Now_def GetExpired_def sizes_agree_def
  deref_def Timer_new_def Timer_Run_def Reset_def Timer_Restart_def Insert_def run_call_def Cancel_def
  tq_RunInLoop_def run_functor_def CancelInLoop_def AddTimerInLoop_def AddTimer_post_def
  AddTimer_result_def AddTimer_def std_erase_def std_insert_def UINTPTR_MAX_def double_positive_def
  Timestamp_Valid_def Timestamp_Invalid_def bump_alloc_def ResetTimerfd_def


text \<open>
  A race in \<^verbatim>\<open>TimerQueue::AddTimer\<close> called from another thread: it reads
  \<^verbatim>\<open>timer->sequence()\<close> after handing the timer to the loop. If the loop thread runs the queued
  \<^verbatim>\<open>AddTimerInLoop\<close> and handles the expiration first, a one-shot timer is deleted and the read is
  of freed memory.
\<close>

lemma AddTimer_foreign_use_after_free:
  "and_then (AddTimer_post bump_alloc (\<lambda>n. Timestamp 5) False TimerQueue_new 7 (Timestamp 4) (Double 0 0))
     (\<lambda>(q1, a). and_then (run_functor (\<lambda>n. Timestamp 5) (hd (loop_pending q1)) (q1\<lparr>loop_pending := tl (loop_pending q1)\<rparr>))
     (\<lambda>q2. and_then (TimerQueue_HandleRead bump_alloc (\<lambda>n. Timestamp 5) (\<lambda>_. []) q2)
     (\<lambda>q3. AddTimer_result q3 a)))
   = Inl (UndefinedBehaviour ''dangling Timer*'')"
  by (simp add: tq_eval)

text \<open>
  A cancellation can be lost: another thread adds a timer, and before its queued
  \<^verbatim>\<open>AddTimerInLoop\<close> runs, the loop thread cancels the returned \<^verbatim>\<open>TimerId\<close>. \<^verbatim>\<open>CancelInLoop\<close> finds it
  in no set and does nothing, and the functor then queues the timer as if nothing had happened.
\<close>

lemma Cancel_before_queued_add_is_lost:
  "and_then (AddTimer bump_alloc (\<lambda>n. Timestamp 5) False TimerQueue_new 7 (Timestamp 9) (Double 0 0))
     (\<lambda>(q1, tid). and_then (Cancel (\<lambda>n. Timestamp 5) True q1 tid)
     (\<lambda>q2. and_then (run_functor (\<lambda>n. Timestamp 5) (hd (loop_pending q2)) (q2\<lparr>loop_pending := tl (loop_pending q2)\<rparr>))
     (\<lambda>q3. Inr (tid \<in> set (active_timers q3)))))
   = Inr True"
  by (simp add: tq_eval)

end
