(* ===== verification/Decimal.thy ===== *)
theory Decimal
  imports Muduo_Prelude
begin

text \<open>
  Decimal text as \<^verbatim>\<open>printf\<close>'s \<^verbatim>\<open>%d\<close> and an \<^verbatim>\<open>ostream\<close> write it, and \<^verbatim>\<open>snprintf\<close>'s truncation to the
  size of the array. Printing is injective, which is what generated names rest on.
\<close>

definition digit_char :: "nat \<Rightarrow> char" where
  "digit_char d = char_of (48 + d)"

fun decimal_nat :: "nat \<Rightarrow> string" where
  "decimal_nat n =
     (if n < 10 then [digit_char n] else decimal_nat (n div 10) @ [digit_char (n mod 10)])"

declare decimal_nat.simps [simp del]

definition decimal :: "int \<Rightarrow> string" where
  "decimal i = (if i < 0 then CHR ''-'' # decimal_nat (nat (- i)) else decimal_nat (nat i))"

text \<open>\<^verbatim>\<open>snprintf(buf, n, ...)\<close> keeps the first \<open>n - 1\<close> characters of its output.\<close>

definition snprintf_trunc :: "nat \<Rightarrow> string \<Rightarrow> string" where
  "snprintf_trunc n s = take (n - 1) s"

definition undigit :: "char \<Rightarrow> nat" where
  "undigit c = of_char c - 48"

definition parse_nat :: "string \<Rightarrow> nat" where
  "parse_nat s = foldl (\<lambda>n c. 10 * n + undigit c) 0 s"

lemma undigit_digit [simp]: "d < 10 \<Longrightarrow> undigit (digit_char d) = d"
  by (simp add: undigit_def digit_char_def of_char_of)

lemma parse_decimal_nat [simp]: "parse_nat (decimal_nat n) = n"
proof (induction n rule: decimal_nat.induct)
  case (1 n)
  show ?case
  proof (cases "n < 10")
    case False
    with 1 have "parse_nat (decimal_nat (n div 10)) = n div 10" by simp
    with False show ?thesis by (simp add: decimal_nat.simps [of n] parse_nat_def)
  qed (simp add: decimal_nat.simps [of n] parse_nat_def)
qed

lemma decimal_nat_inj: "decimal_nat m = decimal_nat n \<longleftrightarrow> m = n"
  by (metis parse_decimal_nat)

lemma decimal_nat_digits: "c \<in> set (decimal_nat n) \<Longrightarrow> \<exists>d < 10. c = digit_char d"
proof (induction n rule: decimal_nat.induct)
  case (1 n)
  show ?case
  proof (cases "n < 10")
    case True
    with 1 show ?thesis by (auto simp: decimal_nat.simps [of n])
  next
    case False
    with 1 have "c \<in> set (decimal_nat (n div 10)) \<or> c = digit_char (n mod 10)"
      by (auto simp: decimal_nat.simps [of n])
    moreover have "\<exists>d < 10. digit_char (n mod 10) = digit_char d" by (rule exI [of _ "n mod 10"]) simp
    ultimately show ?thesis using "1.IH" False by blast
  qed
qed

lemma decimal_nat_not_Nil [simp]: "decimal_nat n \<noteq> []"
  by (simp add: decimal_nat.simps [of n])

lemma length_decimal_nat: "n < 10 ^ k \<Longrightarrow> 0 < k \<Longrightarrow> length (decimal_nat n) \<le> k"
proof (induction n arbitrary: k rule: decimal_nat.induct)
  case (1 n)
  show ?case
  proof (cases "n < 10")
    case True
    with 1 show ?thesis by (simp add: decimal_nat.simps [of n])
  next
    case False
    then have "k \<noteq> 1" using "1.prems" by auto
    then obtain k' where k: "k = Suc k'" "0 < k'" using "1.prems"(2) by (cases k) auto
    then have "n div 10 < 10 ^ k'" using "1.prems" by (simp add: less_mult_imp_div_less mult.commute)
    with "1.IH" [of k'] False k show ?thesis by (simp add: decimal_nat.simps [of n])
  qed
qed

lemma digit_char_not_special:
  "d < 10 \<Longrightarrow> digit_char d \<noteq> CHR ''-''" "d < 10 \<Longrightarrow> digit_char d \<noteq> CHR '':''"
  "d < 10 \<Longrightarrow> digit_char d \<noteq> CHR ''#''" "d < 10 \<Longrightarrow> digit_char d \<noteq> CHR ''.''"
proof -
  assume d: "d < 10"
  have n: "of_char (digit_char d) = 48 + d" using d by (simp add: digit_char_def of_char_of)
  show "digit_char d \<noteq> CHR ''-''" "digit_char d \<noteq> CHR '':''" "digit_char d \<noteq> CHR ''#''" "digit_char d \<noteq> CHR ''.''"
    using n d by auto
qed

lemma decimal_nat_no_special:
  "CHR ''-'' \<notin> set (decimal_nat n)" "CHR '':'' \<notin> set (decimal_nat n)"
  "CHR ''#'' \<notin> set (decimal_nat n)" "CHR ''.'' \<notin> set (decimal_nat n)"
  using digit_char_not_special by (metis decimal_nat_digits)+

lemma decimal_inj: "decimal i = decimal j \<longleftrightarrow> i = j"
proof
  assume e: "decimal i = decimal j"
  have "hd (decimal_nat n) \<noteq> CHR ''-''" for n
    using decimal_nat_no_special(1) [of n] hd_in_set [OF decimal_nat_not_Nil] by metis
  then have "CHR ''-'' # xs \<noteq> decimal_nat n" for xs n by (metis list.sel(1))
  with e show "i = j"
    by (auto simp: decimal_def decimal_nat_inj split: if_splits dest: sym)
qed simp

lemma snprintf_fits: "length s < n \<Longrightarrow> snprintf_trunc n s = s"
  by (simp add: snprintf_trunc_def)

lemma snprintf_length: "length (snprintf_trunc n s) \<le> n"
  by (simp add: snprintf_trunc_def)

end
