(* ===== verification/Channel.thy ===== *)
theory Channel
  imports Timestamps Decimal
begin

unbundle bit_operations_syntax

text \<open>
  \<^verbatim>\<open>muduo-cpp11/net/channel.h\<close> and \<^verbatim>\<open>channel.cpp\<close>. Channels live in a heap because the poller and
  the connection share them; the event loop's \<^verbatim>\<open>UpdateChannel\<close> and \<^verbatim>\<open>RemoveChannel\<close> are
  parameters of \<^verbatim>\<open>Update\<close> and \<^verbatim>\<open>Remove\<close> here and are given by the poller theories. The callbacks
  registered on a channel are functions on the channel and the rest of the world; they may do
  anything to either. Shown: which callbacks an event runs, in which order, and that the
  owner guard decides whether any of them runs.
\<close>

section \<open>Events\<close>

type_synonym events = "32 word"

definition POLLIN :: events where "POLLIN = 0x001"
definition POLLPRI :: events where "POLLPRI = 0x002"
definition POLLOUT :: events where "POLLOUT = 0x004"
definition POLLERR :: events where "POLLERR = 0x008"
definition POLLHUP :: events where "POLLHUP = 0x010"
definition POLLNVAL :: events where "POLLNVAL = 0x020"
definition POLLRDHUP :: events where "POLLRDHUP = 0x2000"

definition kNoneEvent :: events where "kNoneEvent = 0"
definition kReadEvent :: events where "kReadEvent = POLLIN OR POLLPRI"
definition kWriteEvent :: events where "kWriteEvent = POLLOUT"

lemmas poll_consts = POLLIN_def POLLPRI_def POLLOUT_def POLLERR_def POLLHUP_def POLLNVAL_def
  POLLRDHUP_def kNoneEvent_def kReadEvent_def kWriteEvent_def

definition any_of :: "events \<Rightarrow> events \<Rightarrow> bool" where
  "any_of ev m \<longleftrightarrow> ev AND m \<noteq> 0"

section \<open>Channels\<close>

type_synonym chan_ptr = nat

record channel =
  ch_fd :: int
  ch_events :: events
  ch_revents :: events
  ch_index :: int
  log_hup :: bool
  tie_alive :: bool
  tied :: bool
  event_handling :: bool
  added_to_loop :: bool

definition Channel_new :: "int \<Rightarrow> channel" where
  "Channel_new fd = \<lparr>ch_fd = fd, ch_events = 0, ch_revents = 0, ch_index = -1, log_hup = True,
     tie_alive = False, tied = False, event_handling = False, added_to_loop = False\<rparr>"

definition IsNoneEvent :: "channel \<Rightarrow> bool" where
  "IsNoneEvent c \<longleftrightarrow> ch_events c = kNoneEvent"

definition IsWriting :: "channel \<Rightarrow> bool" where
  "IsWriting c \<longleftrightarrow> any_of (ch_events c) kWriteEvent"

definition Channel_Tie :: "channel \<Rightarrow> channel" where
  "Channel_Tie c = c\<lparr>tie_alive := True, tied := True\<rparr>"

text \<open>The destructor's assertions; \<open>has\<close> is the loop's \<^verbatim>\<open>HasChannel(this)\<close>.\<close>

definition Channel_destroy :: "bool \<Rightarrow> bool \<Rightarrow> channel \<Rightarrow> unit outcome" where
  "Channel_destroy in_loop_thread has c =
     asserting (\<not> event_handling c) ''!event_handling_''
     (asserting (\<not> added_to_loop c) ''!added_to_loop_''
     (if in_loop_thread then asserting (\<not> has) ''!loop_->HasChannel(this)'' (Inr ()) else Inr ()))"

subsection \<open>Registration with the loop\<close>

record 'p reactor =
  chan_heap :: "chan_ptr \<rightharpoonup> channel"
  poller :: 'p

definition chan :: "chan_ptr \<Rightarrow> 'p reactor \<Rightarrow> channel outcome" where
  "chan p s = (case chan_heap s p of
      None \<Rightarrow> Inl (UndefinedBehaviour ''dangling Channel*'') | Some c \<Rightarrow> Inr c)"

definition put_chan :: "chan_ptr \<Rightarrow> channel \<Rightarrow> 'p reactor \<Rightarrow> 'p reactor" where
  "put_chan p c s = s\<lparr>chan_heap := (chan_heap s)(p \<mapsto> c)\<rparr>"

type_synonym 'p poller_op = "chan_ptr \<Rightarrow> 'p reactor \<Rightarrow> 'p reactor outcome"

definition Channel_Update :: "'p poller_op \<Rightarrow> 'p poller_op" where
  "Channel_Update UpdateChannel p s =
     and_then (chan p s) (\<lambda>c. UpdateChannel p (put_chan p (c\<lparr>added_to_loop := True\<rparr>) s))"

definition Channel_Remove :: "'p poller_op \<Rightarrow> 'p poller_op" where
  "Channel_Remove RemoveChannel p s =
     and_then (chan p s) (\<lambda>c.
       asserting (IsNoneEvent c) ''IsNoneEvent()''
         (RemoveChannel p (put_chan p (c\<lparr>added_to_loop := False\<rparr>) s)))"

definition set_events :: "'p poller_op \<Rightarrow> (events \<Rightarrow> events) \<Rightarrow> 'p poller_op" where
  "set_events UpdateChannel f p s =
     and_then (chan p s) (\<lambda>c.
       Channel_Update UpdateChannel p (put_chan p (c\<lparr>ch_events := f (ch_events c)\<rparr>) s))"

definition EnableReading :: "'p poller_op \<Rightarrow> 'p poller_op" where
  "EnableReading UpdateChannel = set_events UpdateChannel (\<lambda>ev. ev OR kReadEvent)"

definition DisableReading :: "'p poller_op \<Rightarrow> 'p poller_op" where
  "DisableReading UpdateChannel = set_events UpdateChannel (\<lambda>ev. ev AND NOT kReadEvent)"

definition EnableWriting :: "'p poller_op \<Rightarrow> 'p poller_op" where
  "EnableWriting UpdateChannel = set_events UpdateChannel (\<lambda>ev. ev OR kWriteEvent)"

definition DisableWriting :: "'p poller_op \<Rightarrow> 'p poller_op" where
  "DisableWriting UpdateChannel = set_events UpdateChannel (\<lambda>ev. ev AND NOT kWriteEvent)"

definition DisableAll :: "'p poller_op \<Rightarrow> 'p poller_op" where
  "DisableAll UpdateChannel = set_events UpdateChannel (\<lambda>_. kNoneEvent)"

text \<open>The effect of \<open>set_events\<close> on the channel itself, for clients that do not look at the poller.\<close>

definition with_events :: "(events \<Rightarrow> events) \<Rightarrow> channel \<Rightarrow> channel" where
  "with_events f ch = ch\<lparr>ch_events := f (ch_events ch), added_to_loop := True\<rparr>"

subsection \<open>Dispatch\<close>

type_synonym 'w event_callback = "channel \<times> 'w \<Rightarrow> (channel \<times> 'w) outcome"

record 'w callbacks =
  read_callback :: "(timestamp \<Rightarrow> 'w event_callback) option"
  write_callback :: "'w event_callback option"
  close_callback :: "'w event_callback option"
  error_callback :: "'w event_callback option"

definition invoke :: "bool \<Rightarrow> 'w event_callback option \<Rightarrow> 'w event_callback" where
  "invoke b cb s = (if b then case cb of None \<Rightarrow> Inr s | Some f \<Rightarrow> f s else Inr s)"

definition HandleEventWithGuard :: "'w callbacks \<Rightarrow> timestamp \<Rightarrow> 'w event_callback" where
  "HandleEventWithGuard cbs receive_time s =
     (let s0 = (fst s\<lparr>event_handling := True\<rparr>, snd s)
      in and_then (invoke (any_of (ch_revents (fst s0)) POLLHUP \<and> \<not> any_of (ch_revents (fst s0)) POLLIN)
                    (close_callback cbs) s0)
         (\<lambda>s1. and_then (invoke (any_of (ch_revents (fst s1)) (POLLERR OR POLLNVAL)) (error_callback cbs) s1)
         (\<lambda>s2. and_then (invoke (any_of (ch_revents (fst s2)) (POLLIN OR POLLPRI OR POLLRDHUP))
                          (map_option (\<lambda>f. f receive_time) (read_callback cbs)) s2)
         (\<lambda>s3. and_then (invoke (any_of (ch_revents (fst s3)) POLLOUT) (write_callback cbs) s3)
         (\<lambda>s4. Inr (fst s4\<lparr>event_handling := False\<rparr>, snd s4))))))"

definition HandleEvent :: "'w callbacks \<Rightarrow> timestamp \<Rightarrow> 'w event_callback" where
  "HandleEvent cbs receive_time s =
     (if tied (fst s)
      then if tie_alive (fst s) then HandleEventWithGuard cbs receive_time s else Inr s
      else HandleEventWithGuard cbs receive_time s)"

definition EventsToString :: "int \<Rightarrow> events \<Rightarrow> string" where
  "EventsToString fd ev =
     decimal fd @ '': '' @ (if any_of ev POLLIN then ''IN '' else '''')
     @ (if any_of ev POLLPRI then ''PRI '' else '''') @ (if any_of ev POLLOUT then ''OUT '' else '''')
     @ (if any_of ev POLLHUP then ''HUP '' else '''') @ (if any_of ev POLLRDHUP then ''RDHUP '' else '''')
     @ (if any_of ev POLLERR then ''ERR '' else '''') @ (if any_of ev POLLNVAL then ''NVAL '' else '''')"

section \<open>Lemmas\<close>

lemma word_mask_simps:
  "IsNoneEvent (c\<lparr>ch_events := kNoneEvent\<rparr>)"
  "any_of (ev OR kWriteEvent) kWriteEvent"
  "\<not> any_of (ev AND NOT kWriteEvent) kWriteEvent"
  "any_of (ev OR kWriteEvent) kReadEvent \<longleftrightarrow> any_of ev kReadEvent"
  "any_of (ev AND NOT kWriteEvent) kReadEvent \<longleftrightarrow> any_of ev kReadEvent"
proof -
  have 1: "kWriteEvent AND kReadEvent = 0" "kWriteEvent \<noteq> 0" by (simp_all add: poll_consts)
  show "IsNoneEvent (c\<lparr>ch_events := kNoneEvent\<rparr>)" by (simp add: IsNoneEvent_def)
  show "any_of (ev OR kWriteEvent) kWriteEvent" using 1(2) by (simp add: any_of_def bit.conj_disj_distrib2)
  show "\<not> any_of (ev AND NOT kWriteEvent) kWriteEvent" by (simp add: any_of_def and.assoc)
  show "any_of (ev OR kWriteEvent) kReadEvent \<longleftrightarrow> any_of ev kReadEvent"
    using 1(1) by (simp add: any_of_def bit.conj_disj_distrib2)
  show "any_of (ev AND NOT kWriteEvent) kReadEvent \<longleftrightarrow> any_of ev kReadEvent"
  proof -
    have "NOT kWriteEvent AND kReadEvent = kReadEvent" by (simp add: poll_consts)
    then show ?thesis by (simp add: any_of_def and.assoc)
  qed
qed

lemma chan_put [simp]: "chan p (put_chan p c s) = Inr c" "poller (put_chan p c s) = poller s"
  "chan_heap (put_chan p c s) = (chan_heap s)(p \<mapsto> c)"
  by (simp_all add: chan_def put_chan_def)

lemma put_put [simp]: "put_chan p c (put_chan p d s) = put_chan p c s"
  by (simp add: put_chan_def)

text \<open>\<^verbatim>\<open>Enable\<close>/\<^verbatim>\<open>Disable\<close> in one step: the new mask is stored, the channel is marked, the poller called.\<close>

lemma set_events_unfold:
  "chan_heap s p = Some c \<Longrightarrow>
   set_events upd f p s = upd p (put_chan p (c\<lparr>ch_events := f (ch_events c), added_to_loop := True\<rparr>) s)"
  by (simp add: set_events_def Channel_Update_def chan_def put_chan_def)

text \<open>The callbacks due for an event mask, in the order of the source.\<close>

definition opt_callback :: "bool \<Rightarrow> 'w event_callback option \<Rightarrow> 'w event_callback list" where
  "opt_callback b cb = (if b then case cb of None \<Rightarrow> [] | Some f \<Rightarrow> [f] else [])"

definition due :: "'w callbacks \<Rightarrow> timestamp \<Rightarrow> events \<Rightarrow> 'w event_callback list" where
  "due cbs t got =
     opt_callback (any_of got POLLHUP \<and> \<not> any_of got POLLIN) (close_callback cbs)
     @ opt_callback (any_of got (POLLERR OR POLLNVAL)) (error_callback cbs)
     @ opt_callback (any_of got (POLLIN OR POLLPRI OR POLLRDHUP)) (map_option (\<lambda>f. f t) (read_callback cbs))
     @ opt_callback (any_of got POLLOUT) (write_callback cbs)"

definition keeps_revents :: "'w callbacks \<Rightarrow> bool" where
  "keeps_revents cbs \<longleftrightarrow>
     (\<forall>f s s'. (close_callback cbs = Some f \<or> error_callback cbs = Some f \<or> write_callback cbs = Some f
         \<or> (\<exists>g t. read_callback cbs = Some g \<and> f = g t)) \<and> f s = Inr s'
        \<longrightarrow> ch_revents (fst s') = ch_revents (fst s))"

lemma keeps_reventsD:
  assumes "keeps_revents cbs"
  shows "close_callback cbs = Some f \<Longrightarrow> f s = Inr s' \<Longrightarrow> ch_revents (fst s') = ch_revents (fst s)"
    "error_callback cbs = Some f \<Longrightarrow> f s = Inr s' \<Longrightarrow> ch_revents (fst s') = ch_revents (fst s)"
    "map_option (\<lambda>g. g t) (read_callback cbs) = Some f \<Longrightarrow> f s = Inr s' \<Longrightarrow> ch_revents (fst s') = ch_revents (fst s)"
    "write_callback cbs = Some f \<Longrightarrow> f s = Inr s' \<Longrightarrow> ch_revents (fst s') = ch_revents (fst s)"
  using assms unfolding keeps_revents_def map_option_eq_Some by blast+

lemma invoke_step:
  assumes "\<And>f s s'. cb = Some f \<Longrightarrow> f s = Inr s' \<Longrightarrow> ch_revents (fst s') = ch_revents (fst s)"
    and "b = b'" and "\<And>s'. ch_revents (fst s') = ch_revents (fst s) \<Longrightarrow> k s' = k' s'"
  shows "and_then (invoke b cb s) k = and_then (for_each (\<lambda>f. f) (opt_callback b' cb) s) k'"
proof (cases "b \<and> cb \<noteq> None")
  case False
  then show ?thesis using assms(2) assms(3) [of s] by (auto simp: invoke_def opt_callback_def)
next
  case True
  then obtain f where "cb = Some f" by blast
  with True assms show ?thesis by (cases "f s") (auto simp: invoke_def opt_callback_def)
qed

section \<open>Properties\<close>

text \<open>
  C20. Dispatch: an event runs exactly the callbacks its mask calls for, close first, then error,
  read and write, each at most once, skipping those that are not set; a hang-up with readable
  data does not run the close callback. A channel tied to an owner that is gone runs none and is
  left untouched; otherwise \<^verbatim>\<open>event_handling_\<close> is set during the callbacks and cleared at the end.
\<close>

theorem HandleEvent_dispatch:
  assumes "keeps_revents cbs"
  shows "HandleEvent cbs t (c, w) =
    (if tied c \<and> \<not> tie_alive c then Inr (c, w)
     else and_then (for_each (\<lambda>f. f) (due cbs t (ch_revents c)) (c\<lparr>event_handling := True\<rparr>, w))
            (\<lambda>(c', w'). Inr (c'\<lparr>event_handling := False\<rparr>, w')))"
proof -
  have "HandleEventWithGuard cbs t (c, w) =
      and_then (for_each (\<lambda>f. f) (due cbs t (ch_revents c)) (c\<lparr>event_handling := True\<rparr>, w))
            (\<lambda>(c', w'). Inr (c'\<lparr>event_handling := False\<rparr>, w'))"
    unfolding HandleEventWithGuard_def Let_def due_def for_each_append and_then_assoc fst_conv snd_conv
  proof (intro invoke_step)
    show "Inr (fst s\<lparr>event_handling := False\<rparr>, snd s) = (\<lambda>(c', w'). Inr (c'\<lparr>event_handling := False\<rparr>, w')) s"
      for s :: "channel \<times> 'a" by (simp split: prod.split)
  qed (simp_all add: keeps_reventsD [OF assms] del: map_option_eq_Some)
  then show ?thesis by (simp add: HandleEvent_def)
qed

definition logging_callbacks :: "string list callbacks" where
  "logging_callbacks =
     \<lparr>read_callback = Some (\<lambda>t (c, w). Inr (c, w @ [''read''])), write_callback = Some (\<lambda>(c, w). Inr (c, w @ [''write''])),
      close_callback = Some (\<lambda>(c, w). Inr (c, w @ [''close''])), error_callback = None\<rparr>"

theorem HandleEvent_dispatch_witness:
  "keeps_revents logging_callbacks
   \<and> HandleEvent logging_callbacks (Timestamp 1)
       ((Channel_new 7)\<lparr>ch_revents := POLLHUP OR POLLERR OR POLLOUT OR POLLPRI\<rparr>, [])
     = Inr ((Channel_new 7)\<lparr>ch_revents := POLLHUP OR POLLERR OR POLLOUT OR POLLPRI\<rparr>, [''close'', ''read'', ''write''])"
proof -
  have k: "keeps_revents logging_callbacks"
    by (auto simp: keeps_revents_def logging_callbacks_def)
  show ?thesis using HandleEvent_dispatch [OF k] k
    by (simp add: logging_callbacks_def Channel_new_def due_def opt_callback_def any_of_def poll_consts)
qed

end
