(* ===== verification/Pollers.thy ===== *)
theory Pollers
  imports Channel
begin

text \<open>
  \<^verbatim>\<open>muduo-cpp11/net/poller.h\<close>, \<^verbatim>\<open>poller.cpp\<close>, \<^verbatim>\<open>poller/epoll_poller.cpp\<close> and
  \<^verbatim>\<open>poller/poll_poller.cpp\<close>. The kernel's epoll instance is a parameter: \<open>ctl\<close> is
  \<^verbatim>\<open>epoll_ctl\<close>, \<open>interest\<close> reads the instance's interest list, and \<open>epoll_law\<close> is what the manual
  page documents. The results of \<^verbatim>\<open>epoll_wait\<close> and \<^verbatim>\<open>poll\<close> are arguments.

  Both pollers implement the same contract towards the loop, the locale \<open>channel_registry\<close>:
  an update registers a channel under its descriptor, a removal forgets it. For epoll the
  interest list of the kernel is shown to be exactly what the channels ask for; for poll the
  positions kept in the channels always point to their own slot of \<^verbatim>\<open>pollfds_\<close>.
\<close>

definition unless_fatal :: "('a \<Rightarrow> bool) \<Rightarrow> 'a outcome \<Rightarrow> bool" where
  "unless_fatal P m = (case m of Inl (LogFatal _) \<Rightarrow> True | Inl _ \<Rightarrow> False | Inr x \<Rightarrow> P x)"

lemma unless_fatal_simps [simp]:
  "unless_fatal P (Inr x) \<longleftrightarrow> P x" "unless_fatal P (Inl (LogFatal m))"
  by (simp_all add: unless_fatal_def)

lemma unless_fatal_and_then:
  "unless_fatal P m \<Longrightarrow> (\<And>x. P x \<Longrightarrow> unless_fatal Q (f x)) \<Longrightarrow> unless_fatal Q (and_then m f)"
  by (cases m) (auto simp: unless_fatal_def split: abort.splits)

lemma unless_fatal_mono: "unless_fatal P m \<Longrightarrow> (\<And>x. P x \<Longrightarrow> Q x) \<Longrightarrow> unless_fatal Q m"
  by (cases m) (auto simp: unless_fatal_def split: abort.splits)

definition HasChannel :: "('p reactor \<Rightarrow> int \<Rightarrow> chan_ptr option) \<Rightarrow> chan_ptr \<Rightarrow> 'p reactor \<Rightarrow> bool outcome" where
  "HasChannel channels p s = and_then (chan p s) (\<lambda>c. Inr (channels s (ch_fd c) = Some p))"

section \<open>EPollPoller\<close>

datatype epoll_op = EPOLL_CTL_ADD | EPOLL_CTL_MOD | EPOLL_CTL_DEL

definition kNew :: int where "kNew = -1"
definition kAdded :: int where "kAdded = 1"
definition kDeleted :: int where "kDeleted = 2"
definition kInitEventListSize :: nat where "kInitEventListSize = 16"

lemmas epoll_consts = kNew_def kAdded_def kDeleted_def

record 'k epoll_poller =
  ep_channels :: "int \<rightharpoonup> chan_ptr"
  ep_kernel :: 'k
  ep_events_size :: nat

type_synonym 'k epoll_ctl = "epoll_op \<Rightarrow> int \<Rightarrow> events \<times> chan_ptr \<Rightarrow> 'k \<Rightarrow> int \<times> 'k"

definition EPollPoller_new :: "'k \<Rightarrow> 'k epoll_poller" where
  "EPollPoller_new k = \<lparr>ep_channels = Map.empty, ep_kernel = k, ep_events_size = kInitEventListSize\<rparr>"

definition EPoll_Update ::
  "'k epoll_ctl \<Rightarrow> epoll_op \<Rightarrow> chan_ptr \<Rightarrow> 'k epoll_poller reactor \<Rightarrow> 'k epoll_poller reactor outcome" where
  "EPoll_Update ctl operation p s =
     and_then (chan p s) (\<lambda>c.
       let (ret, k) = ctl operation (ch_fd c) (ch_events c, p) (ep_kernel (poller s));
           s' = s\<lparr>poller := (poller s)\<lparr>ep_kernel := k\<rparr>\<rparr>
       in if ret < 0 \<and> operation \<noteq> EPOLL_CTL_DEL then Inl (LogFatal ''epoll_ctl'') else Inr s')"

definition set_index :: "chan_ptr \<Rightarrow> int \<Rightarrow> 'p reactor \<Rightarrow> 'p reactor outcome" where
  "set_index p i s = and_then (chan p s) (\<lambda>c. Inr (put_chan p (c\<lparr>ch_index := i\<rparr>) s))"

definition EPoll_UpdateChannel :: "'k epoll_ctl \<Rightarrow> 'k epoll_poller poller_op" where
  "EPoll_UpdateChannel ctl p s =
     and_then (chan p s) (\<lambda>c.
       let index = ch_index c; fd = ch_fd c in
       if index = kNew \<or> index = kDeleted then
         and_then
           (if index = kNew
            then asserting (ep_channels (poller s) fd = None) ''channels_.find(fd) == channels_.end()''
                   (Inr (s\<lparr>poller := (poller s)\<lparr>ep_channels := (ep_channels (poller s))(fd \<mapsto> p)\<rparr>\<rparr>))
            else asserting (ep_channels (poller s) fd \<noteq> None) ''channels_.find(fd) != channels_.end()''
                   (asserting (ep_channels (poller s) fd = Some p) ''channels_[fd] == channel'' (Inr s)))
           (\<lambda>s1. and_then (set_index p kAdded s1) (EPoll_Update ctl EPOLL_CTL_ADD p))
       else
         asserting (ep_channels (poller s) fd \<noteq> None) ''channels_.find(fd) != channels_.end()''
         (asserting (ep_channels (poller s) fd = Some p) ''channels_[fd] == channel''
         (asserting (index = kAdded) ''index == kAdded''
         (if IsNoneEvent c
          then and_then (EPoll_Update ctl EPOLL_CTL_DEL p s) (set_index p kDeleted)
          else EPoll_Update ctl EPOLL_CTL_MOD p s))))"

definition EPoll_RemoveChannel :: "'k epoll_ctl \<Rightarrow> 'k epoll_poller poller_op" where
  "EPoll_RemoveChannel ctl p s =
     and_then (chan p s) (\<lambda>c.
       let index = ch_index c; fd = ch_fd c in
       asserting (ep_channels (poller s) fd \<noteq> None) ''channels_.find(fd) != channels_.end()''
       (asserting (ep_channels (poller s) fd = Some p) ''channels_[fd] == channel''
       (asserting (IsNoneEvent c) ''channel->IsNoneEvent()''
       (asserting (index = kAdded \<or> index = kDeleted) ''index == kAdded || index == kDeleted''
       (let s1 = s\<lparr>poller := (poller s)\<lparr>ep_channels := (ep_channels (poller s))(fd := None)\<rparr>\<rparr>
        in and_then (if index = kAdded then EPoll_Update ctl EPOLL_CTL_DEL p s1 else Inr s1)
             (set_index p kNew))))))"

definition EPoll_FillActiveChannels ::
  "int \<Rightarrow> (events \<times> chan_ptr) list \<Rightarrow> 'k epoll_poller reactor
   \<Rightarrow> ('k epoll_poller reactor \<times> chan_ptr list) outcome" where
  "EPoll_FillActiveChannels num_events evs s =
     asserting (num_events \<le> int (ep_events_size (poller s))) ''num_events <= events_.size()''
     (for_each (\<lambda>(ev, p) (s, active).
         and_then (chan p s) (\<lambda>c.
           asserting (ep_channels (poller s) (ch_fd c) \<noteq> None) ''it != channels_.end()''
           (asserting (ep_channels (poller s) (ch_fd c) = Some p) ''it->second == channel''
           (Inr (put_chan p (c\<lparr>ch_revents := ev\<rparr>) s, active @ [p])))))
       (take (nat num_events) evs) (s, []))"

text \<open>\<open>num_events\<close> and \<open>evs\<close> are what \<^verbatim>\<open>epoll_wait\<close> returned and stored.\<close>

definition EPoll_Poll ::
  "int \<Rightarrow> (events \<times> chan_ptr) list \<Rightarrow> 'k epoll_poller reactor
   \<Rightarrow> ('k epoll_poller reactor \<times> chan_ptr list) outcome" where
  "EPoll_Poll num_events evs s =
     (if num_events > 0
      then and_then (EPoll_FillActiveChannels num_events evs s) (\<lambda>(s', active).
             if nat num_events = ep_events_size (poller s')
             then Inr (s'\<lparr>poller := (poller s')\<lparr>ep_events_size := ep_events_size (poller s') * 2\<rparr>\<rparr>, active)
             else Inr (s', active))
      else Inr (s, []))"

section \<open>PollPoller\<close>

record pollfd =
  pfd_fd :: int
  pfd_events :: "16 word"
  pfd_revents :: int

record poll_poller =
  pp_channels :: "int \<rightharpoonup> chan_ptr"
  pollfds :: "pollfd list"

definition PollPoller_new :: poll_poller where
  "PollPoller_new = \<lparr>pp_channels = Map.empty, pollfds = []\<rparr>"

definition Poll_UpdateChannel :: "poll_poller poller_op" where
  "Poll_UpdateChannel p s =
     and_then (chan p s) (\<lambda>c.
       let fd = ch_fd c; pp = poller s in
       if ch_index c < 0 then
         asserting (pp_channels pp fd = None) ''channels_.find(channel->fd()) == channels_.end()''
         (let pfd = \<lparr>pfd_fd = fd, pfd_events = ucast (ch_events c), pfd_revents = 0\<rparr>;
              pollfds' = pollfds pp @ [pfd];
              idx = int (length pollfds') - 1
          in Inr (put_chan p (c\<lparr>ch_index := idx\<rparr>)
                   (s\<lparr>poller := pp\<lparr>pollfds := pollfds', pp_channels := (pp_channels pp)(fd \<mapsto> p)\<rparr>\<rparr>)))
       else
         asserting (pp_channels pp fd \<noteq> None) ''channels_.find(channel->fd()) != channels_.end()''
         (asserting (pp_channels pp fd = Some p) ''channels_[channel->fd()] == channel''
         (let idx = ch_index c in
          asserting (0 \<le> idx \<and> idx < int (length (pollfds pp))) ''0 <= idx && idx < pollfds_.size()''
          (let pfd = pollfds pp ! nat idx in
           asserting (pfd_fd pfd = fd \<or> pfd_fd pfd = - fd - 1) ''pfd.fd == channel->fd() || pfd.fd == -channel->fd()-1''
           (let pfd1 = pfd\<lparr>pfd_events := ucast (ch_events c), pfd_revents := 0\<rparr>;
                pfd2 = (if IsNoneEvent c then pfd1\<lparr>pfd_fd := - fd - 1\<rparr> else pfd1)
            in Inr (s\<lparr>poller := pp\<lparr>pollfds := (pollfds pp)[nat idx := pfd2]\<rparr>\<rparr>))))))"

definition Poll_RemoveChannel :: "poll_poller poller_op" where
  "Poll_RemoveChannel p s =
     and_then (chan p s) (\<lambda>c.
       let fd = ch_fd c; pp = poller s; idx = ch_index c in
       asserting (pp_channels pp fd \<noteq> None) ''channels_.find(channel->fd()) != channels_.end()''
       (asserting (pp_channels pp fd = Some p) ''channels_[channel->fd()] == channel''
       (asserting (IsNoneEvent c) ''channel->IsNoneEvent()''
       (asserting (0 \<le> idx \<and> idx < int (length (pollfds pp))) ''0 <= idx && idx < pollfds_.size()''
       (let pfd = pollfds pp ! nat idx in
        asserting (pfd_fd pfd = - fd - 1 \<and> sint (pfd_events pfd) = sint (ch_events c))
          ''pfd.fd == -channel->fd() - 1 && pfd.events == channel->events()''
        (let channels' = (pp_channels pp)(fd := None) in
         if nat idx = length (pollfds pp) - 1
         then Inr (s\<lparr>poller := pp\<lparr>pp_channels := channels', pollfds := butlast (pollfds pp)\<rparr>\<rparr>)
         else
           let back = List.last (pollfds pp);
               at_end = (if pfd_fd back < 0 then - pfd_fd back - 1 else pfd_fd back);
               s1 = s\<lparr>poller := pp\<lparr>pp_channels := channels', pollfds := butlast ((pollfds pp)[nat idx := back])\<rparr>\<rparr>
           in (case channels' at_end of
                 None \<Rightarrow> Inl (UndefinedBehaviour ''null Channel*'')
               | Some q \<Rightarrow> set_index q idx s1)))))))"

definition Poll_FillActiveChannels ::
  "int \<Rightarrow> poll_poller reactor \<Rightarrow> (poll_poller reactor \<times> chan_ptr list) outcome" where
  "Poll_FillActiveChannels num_events s =
     and_then
       (for_each (\<lambda>pfd (n, s, active).
           if n > 0 \<and> pfd_revents pfd > 0
           then (case pp_channels (poller s) (pfd_fd pfd) of
                   None \<Rightarrow> Inl (AssertFailed ''ch != channels_.end()'')
                 | Some p \<Rightarrow> and_then (chan p s) (\<lambda>c.
                     asserting (ch_fd c = pfd_fd pfd) ''channel->fd() == pfd->fd''
                     (Inr (n - 1, put_chan p (c\<lparr>ch_revents := word_of_int (pfd_revents pfd)\<rparr>) s, active @ [p]))))
           else Inr (n, s, active))
         (pollfds (poller s)) (num_events, s, []))
       (\<lambda>(n, s', active). Inr (s', active))"

text \<open>\<open>num_events\<close> and \<open>revs\<close> are what \<^verbatim>\<open>poll\<close> returned and stored in the \<^verbatim>\<open>revents\<close> fields.\<close>

definition Poll_Poll ::
  "int \<Rightarrow> int list \<Rightarrow> poll_poller reactor \<Rightarrow> (poll_poller reactor \<times> chan_ptr list) outcome" where
  "Poll_Poll num_events revs s =
     (let pp = poller s;
          s' = s\<lparr>poller := pp\<lparr>pollfds := map2 (\<lambda>pfd r. pfd\<lparr>pfd_revents := r\<rparr>) (pollfds pp) revs\<rparr>\<rparr>
      in if num_events > 0 then Poll_FillActiveChannels num_events s' else Inr (s', []))"

section \<open>The contract of a poller\<close>

text \<open>
  A channel is \<open>free\<close> when it may be registered: no channel is registered under its descriptor
  and its index is a fresh channel's. The first update of a channel asks for some event.
\<close>

locale channel_registry =
  fixes inv :: "'p reactor \<Rightarrow> bool"
    and channels :: "'p reactor \<Rightarrow> int \<Rightarrow> chan_ptr option"
    and upd :: "'p poller_op"
    and rem :: "'p poller_op"
  assumes upd_law: "inv s \<Longrightarrow> chan_heap s p = Some c \<Longrightarrow> 0 \<le> ch_fd c \<Longrightarrow>
      channels s (ch_fd c) = Some p \<or> channels s (ch_fd c) = None \<and> ch_index c = -1 \<and> f (ch_events c) \<noteq> 0 \<Longrightarrow>
      unless_fatal (\<lambda>s'. inv s' \<and> channels s' = (channels s)(ch_fd c \<mapsto> p)
        \<and> (\<exists>c'. chan_heap s' p = Some c' \<and> ch_fd c' = ch_fd c \<and> ch_events c' = f (ch_events c)))
        (set_events upd f p s)"
    and rem_law: "inv s \<Longrightarrow> chan_heap s p = Some c \<Longrightarrow> channels s (ch_fd c) = Some p \<Longrightarrow> IsNoneEvent c \<Longrightarrow>
      unless_fatal (\<lambda>s'. inv s' \<and> channels s' = (channels s)(ch_fd c := None)
        \<and> (\<exists>c'. chan_heap s' p = Some c' \<and> ch_fd c' = ch_fd c)) (Channel_Remove rem p s)"
    and registered_fd: "inv s \<Longrightarrow> channels s fd = Some p \<Longrightarrow> \<exists>c. chan_heap s p = Some c \<and> ch_fd c = fd \<and> 0 \<le> fd"
begin

text \<open>
  The life of every channel in the library: it is enabled, later all its events are disabled, and
  it is removed. The registry is then as it was, and the channel is not in it.
\<close>

lemma lifecycle:
  assumes "inv s" "chan_heap s p = Some c" "0 \<le> ch_fd c" "channels s (ch_fd c) = None" "ch_index c = -1"
    and "f (ch_events c) \<noteq> 0"
  shows "unless_fatal (\<lambda>s'. inv s' \<and> channels s' = channels s \<and> HasChannel channels p s' = Inr False)
    (and_then (set_events upd f p s) (\<lambda>s1. and_then (DisableAll upd p s1) (Channel_Remove rem p)))"
proof (rule unless_fatal_and_then [OF upd_law [OF assms(1-3)]])
  show "channels s (ch_fd c) = Some p \<or> channels s (ch_fd c) = None \<and> ch_index c = -1 \<and> f (ch_events c) \<noteq> 0"
    using assms by simp
next
  fix s1
  assume s1: "inv s1 \<and> channels s1 = (channels s)(ch_fd c \<mapsto> p)
    \<and> (\<exists>c'. chan_heap s1 p = Some c' \<and> ch_fd c' = ch_fd c \<and> ch_events c' = f (ch_events c))"
  then obtain c1 where c1: "chan_heap s1 p = Some c1" "ch_fd c1 = ch_fd c" by blast
  show "unless_fatal (\<lambda>s'. inv s' \<and> channels s' = channels s \<and> HasChannel channels p s' = Inr False)
      (and_then (DisableAll upd p s1) (Channel_Remove rem p))"
    unfolding DisableAll_def
  proof (rule unless_fatal_and_then [OF upd_law [of s1 p c1]])
    fix s2
    assume s2: "inv s2 \<and> channels s2 = (channels s1)(ch_fd c1 \<mapsto> p)
      \<and> (\<exists>c'. chan_heap s2 p = Some c' \<and> ch_fd c' = ch_fd c1 \<and> ch_events c' = kNoneEvent)"
    then obtain c2 where c2: "chan_heap s2 p = Some c2" "ch_fd c2 = ch_fd c" "IsNoneEvent c2"
      using c1(2) by (auto simp: IsNoneEvent_def)
    show "unless_fatal (\<lambda>s'. inv s' \<and> channels s' = channels s \<and> HasChannel channels p s' = Inr False)
        (Channel_Remove rem p s2)"
    proof (rule unless_fatal_mono [OF rem_law [of s2 p c2]])
      fix s3
      assume "inv s3 \<and> channels s3 = (channels s2)(ch_fd c2 := None)
        \<and> (\<exists>c'. chan_heap s3 p = Some c' \<and> ch_fd c' = ch_fd c2)"
      then show "inv s3 \<and> channels s3 = channels s \<and> HasChannel channels p s3 = Inr False"
        using s1 s2 c1(2) c2(2) assms(4) by (auto simp: HasChannel_def chan_def fun_eq_iff)
    qed (use s1 s2 c1 c2 in auto)
  qed (use s1 c1 assms(3) in auto)
qed

lemma registered_once:
  "inv s \<Longrightarrow> channels s fd = Some p \<Longrightarrow> channels s fd' = Some p \<Longrightarrow> fd = fd'"
  using registered_fd [of s fd p] registered_fd [of s fd' p] by auto

end

section \<open>EPollPoller keeps the kernel's interest list exact\<close>

definition epoll_law :: "'k epoll_ctl \<Rightarrow> ('k \<Rightarrow> int \<Rightarrow> (events \<times> chan_ptr) option) \<Rightarrow> bool" where
  "epoll_law ctl interest \<longleftrightarrow>
     (\<forall>op fd ev k ret k'. ctl op fd ev k = (ret, k') \<longrightarrow>
        (if ret < 0
         then interest k' = interest k \<and> (op = EPOLL_CTL_ADD \<or> interest k fd = None)
         else interest k' = (interest k)(fd := if op = EPOLL_CTL_DEL then None else Some ev)
              \<and> (op = EPOLL_CTL_ADD \<longleftrightarrow> interest k fd = None)))"

definition ep_wanted :: "'k epoll_poller reactor \<Rightarrow> int \<Rightarrow> (events \<times> chan_ptr) option" where
  "ep_wanted s fd = (case ep_channels (poller s) fd of None \<Rightarrow> None
     | Some p \<Rightarrow> (case chan_heap s p of None \<Rightarrow> None
         | Some c \<Rightarrow> if ch_index c = kAdded then Some (ch_events c, p) else None))"

definition ep_inv :: "('k \<Rightarrow> int \<Rightarrow> (events \<times> chan_ptr) option) \<Rightarrow> 'k epoll_poller reactor \<Rightarrow> bool" where
  "ep_inv interest s \<longleftrightarrow>
     (\<forall>fd p. ep_channels (poller s) fd = Some p \<longrightarrow>
        0 \<le> fd \<and> (\<exists>c. chan_heap s p = Some c \<and> ch_fd c = fd \<and> (ch_index c = kAdded \<or> ch_index c = kDeleted)))
     \<and> (\<forall>p c. chan_heap s p = Some c \<longrightarrow> ch_index c = kNew \<or> ep_channels (poller s) (ch_fd c) = Some p)
     \<and> interest (ep_kernel (poller s)) = ep_wanted s"

lemma ep_invD:
  assumes "ep_inv interest s"
  shows "ep_channels (poller s) fd = Some p \<Longrightarrow>
      0 \<le> fd \<and> (\<exists>c. chan_heap s p = Some c \<and> ch_fd c = fd \<and> (ch_index c = kAdded \<or> ch_index c = kDeleted))"
    "chan_heap s p = Some c \<Longrightarrow> ch_index c = kNew \<or> ep_channels (poller s) (ch_fd c) = Some p"
    "interest (ep_kernel (poller s)) = ep_wanted s"
  using assms by (auto simp: ep_inv_def)

lemma epoll_lawD:
  assumes "epoll_law ctl interest" "ctl op fd ev k = (ret, k')"
  shows "ret < 0 \<Longrightarrow> op = EPOLL_CTL_ADD \<or> interest k fd = None"
    "\<not> ret < 0 \<Longrightarrow> interest k' = (interest k)(fd := if op = EPOLL_CTL_DEL then None else Some ev)"
  using assms unfolding epoll_law_def by (metis (no_types, lifting))+

lemma EPoll_Update_ok:
  assumes "epoll_law ctl interest" "chan_heap s p = Some c"
    and "op = EPOLL_CTL_ADD \<or> interest (ep_kernel (poller s)) (ch_fd c) \<noteq> None"
  shows "unless_fatal (\<lambda>s'. \<exists>k'. s' = s\<lparr>poller := (poller s)\<lparr>ep_kernel := k'\<rparr>\<rparr>
      \<and> interest k' = (interest (ep_kernel (poller s)))(ch_fd c := if op = EPOLL_CTL_DEL then None else Some (ch_events c, p)))
    (EPoll_Update ctl op p s)"
proof -
  obtain ret k' where r: "ctl op (ch_fd c) (ch_events c, p) (ep_kernel (poller s)) = (ret, k')"
    by (cases "ctl op (ch_fd c) (ch_events c, p) (ep_kernel (poller s))")
  show ?thesis
  proof (cases "ret < 0")
    case True
    then have "op = EPOLL_CTL_ADD" using epoll_lawD(1) [OF assms(1) r] assms(3) by blast
    with True r assms(2) show ?thesis by (simp add: EPoll_Update_def chan_def)
  next
    case False
    from epoll_lawD(2) [OF assms(1) r False] False r assms(2) show ?thesis
      by (auto simp: EPoll_Update_def chan_def)
  qed
qed

lemma reactor_update_order: "s\<lparr>poller := x, chan_heap := h\<rparr> = s\<lparr>chan_heap := h, poller := x\<rparr>"
  by (cases s) simp

text \<open>The state after an operation on the channel \<open>p\<close>, put together from its parts.\<close>

lemma ep_inv_after:
  assumes inv: "ep_inv interest s" and c: "chan_heap s p = Some c"
    and reg: "ep_channels (poller s) (ch_fd c) = Some p \<or> ep_channels (poller s) (ch_fd c) = None"
    and s': "chan_heap s' = (chan_heap s)(p \<mapsto> c')" "ch_fd c' = ch_fd c"
      "ep_channels (poller s') = (ep_channels (poller s))(ch_fd c := if ch_index c' = kNew then None else Some p)"
      "ch_index c' = kNew \<or> 0 \<le> ch_fd c \<and> (ch_index c' = kAdded \<or> ch_index c' = kDeleted)"
      "interest (ep_kernel (poller s')) = (interest (ep_kernel (poller s)))
         (ch_fd c := if ch_index c' = kAdded then Some (ch_events c', p) else None)"
  shows "ep_inv interest s'"
proof -
  note i = ep_invD [OF inv]
  have other: "q \<noteq> p" if "ep_channels (poller s) fd = Some q" "fd \<noteq> ch_fd c" for fd q
    using i(1) [OF that(1)] that(2) c by auto
  have "interest (ep_kernel (poller s')) = ep_wanted s'"
  proof
    fix fd
    show "interest (ep_kernel (poller s')) fd = ep_wanted s' fd"
    proof (cases "fd = ch_fd c")
      case True
      then show ?thesis using s' by (auto simp: ep_wanted_def epoll_consts)
    next
      case False
      then have "ep_wanted s' fd = ep_wanted s fd"
        using s'(1,3) other by (auto simp: ep_wanted_def split: option.split)
      with False s'(5) i(3) show ?thesis by simp
    qed
  qed
  moreover have "0 \<le> fd \<and> (\<exists>d. chan_heap s' q = Some d \<and> ch_fd d = fd \<and> (ch_index d = kAdded \<or> ch_index d = kDeleted))"
    if "ep_channels (poller s') fd = Some q" for fd q
    using that s' i(1) [of fd q] other [of fd q] by (auto split: if_splits)
  moreover have "ch_index d = kNew \<or> ep_channels (poller s') (ch_fd d) = Some q"
    if "chan_heap s' q = Some d" for q d
    using that s' i(2) [of q d] reg by (auto split: if_splits)
  ultimately show ?thesis unfolding ep_inv_def by blast
qed

lemma EPoll_set_events_added:
  assumes law: "epoll_law ctl interest" and inv: "ep_inv interest s" and c: "chan_heap s p = Some c" "ch_index c = kAdded"
    and fd: "0 \<le> ch_fd c" and regp: "ep_channels (poller s) (ch_fd c) = Some p"
  shows "unless_fatal (\<lambda>s'. ep_inv interest s' \<and> ep_channels (poller s') = ep_channels (poller s)
      \<and> chan_heap s' = (chan_heap s)(p \<mapsto> c\<lparr>ch_events := f (ch_events c), added_to_loop := True,
          ch_index := if f (ch_events c) = 0 then kDeleted else kAdded\<rparr>))
    (set_events (EPoll_UpdateChannel ctl) f p s)"
proof -
  let ?c = "c\<lparr>ch_events := f (ch_events c), added_to_loop := True\<rparr>" and ?i = "if f (ch_events c) = 0 then kDeleted else kAdded"
  let ?s = "put_chan p ?c s" and ?set = "if f (ch_events c) = 0 then set_index p kDeleted else Inr"
  have intr: "interest (ep_kernel (poller s)) (ch_fd c) = Some (ch_events c, p)"
    using ep_invD(3) [OF inv] regp c by (simp add: ep_wanted_def)
  define op where "op = (if f (ch_events c) = 0 then EPOLL_CTL_DEL else EPOLL_CTL_MOD)"
  have run: "set_events (EPoll_UpdateChannel ctl) f p s = and_then (EPoll_Update ctl op p ?s) ?set"
    unfolding set_events_unfold [OF c(1)] using c(2) regp
    by (simp add: EPoll_UpdateChannel_def IsNoneEvent_def kNoneEvent_def op_def epoll_consts)
      (cases "EPoll_Update ctl EPOLL_CTL_MOD p ?s", simp_all)
  show ?thesis unfolding run
  proof (rule unless_fatal_and_then [OF EPoll_Update_ok [OF law, of ?s p ?c]])
    show "op = EPOLL_CTL_ADD \<or> interest (ep_kernel (poller ?s)) (ch_fd ?c) \<noteq> None" using intr by simp
  next
    fix s1
    assume "\<exists>k'. s1 = ?s\<lparr>poller := (poller ?s)\<lparr>ep_kernel := k'\<rparr>\<rparr> \<and> interest k' =
      (interest (ep_kernel (poller ?s)))(ch_fd ?c := if op = EPOLL_CTL_DEL then None else Some (ch_events ?c, p))"
    then obtain k' where s1: "s1 = ?s\<lparr>poller := (poller ?s)\<lparr>ep_kernel := k'\<rparr>\<rparr>"
      "interest k' = (interest (ep_kernel (poller s)))(ch_fd c := if op = EPOLL_CTL_DEL then None else Some (f (ch_events c), p))"
      by auto
    have same: "?c\<lparr>ch_index := kAdded\<rparr> = ?c" using c(2) by (cases c) simp
    have "?set s1 = Inr (put_chan p (?c\<lparr>ch_index := ?i\<rparr>) s1)"
      using s1(1) by (auto simp: set_index_def chan_def put_chan_def same)
    moreover have "ep_inv interest (put_chan p (?c\<lparr>ch_index := ?i\<rparr>) s1)"
      by (rule ep_inv_after [OF inv c(1), where c' = "?c\<lparr>ch_index := ?i\<rparr>"])
        (use s1 regp fd in \<open>auto simp: op_def epoll_consts put_chan_def fun_upd_idem\<close>)
    ultimately show "unless_fatal (\<lambda>s'. ep_inv interest s' \<and> ep_channels (poller s') = ep_channels (poller s)
        \<and> chan_heap s' = (chan_heap s)(p \<mapsto> ?c\<lparr>ch_index := ?i\<rparr>)) (?set s1)"
      using s1(1) by (simp add: put_chan_def)
  qed simp
qed

lemma EPoll_set_events_absent:
  assumes law: "epoll_law ctl interest" and inv: "ep_inv interest s" and c: "chan_heap s p = Some c" and fd: "0 \<le> ch_fd c"
    and reg: "ep_channels (poller s) (ch_fd c) = Some p \<and> ch_index c = kDeleted \<or> ep_channels (poller s) (ch_fd c) = None \<and> ch_index c = kNew"
  shows "unless_fatal (\<lambda>s'. ep_inv interest s' \<and> ep_channels (poller s') = (ep_channels (poller s))(ch_fd c \<mapsto> p)
      \<and> chan_heap s' = (chan_heap s)(p \<mapsto> c\<lparr>ch_events := f (ch_events c), added_to_loop := True, ch_index := kAdded\<rparr>))
    (set_events (EPoll_UpdateChannel ctl) f p s)"
proof -
  let ?c = "c\<lparr>ch_events := f (ch_events c), added_to_loop := True\<rparr>"
  let ?d = "?c\<lparr>ch_index := kAdded\<rparr>"
  let ?s1 = "(put_chan p ?c s)\<lparr>chan_heap := (chan_heap s)(p \<mapsto> ?d),
    poller := (poller s)\<lparr>ep_channels := (ep_channels (poller s))(ch_fd c \<mapsto> p)\<rparr>\<rparr>"
  have run: "set_events (EPoll_UpdateChannel ctl) f p s = EPoll_Update ctl EPOLL_CTL_ADD p ?s1"
    unfolding set_events_unfold [OF c] using reg
    by (auto simp: EPoll_UpdateChannel_def set_index_def chan_def put_chan_def epoll_consts fun_upd_idem reactor_update_order)
  show ?thesis unfolding run
  proof (rule unless_fatal_mono [OF EPoll_Update_ok [OF law, of ?s1 p ?d]])
    fix s2
    assume "\<exists>k'. s2 = ?s1\<lparr>poller := (poller ?s1)\<lparr>ep_kernel := k'\<rparr>\<rparr> \<and> interest k' =
      (interest (ep_kernel (poller ?s1)))(ch_fd ?d := if EPOLL_CTL_ADD = EPOLL_CTL_DEL then None else Some (ch_events ?d, p))"
    then obtain k' where s2: "s2 = ?s1\<lparr>poller := (poller ?s1)\<lparr>ep_kernel := k'\<rparr>\<rparr>"
      "interest k' = (interest (ep_kernel (poller s)))(ch_fd c \<mapsto> (f (ch_events c), p))" by auto
    have "ep_inv interest s2"
      by (rule ep_inv_after [OF inv c, where c' = ?d]) (use s2 reg fd in \<open>auto simp: epoll_consts\<close>)
    with s2(1) show "ep_inv interest s2 \<and> ep_channels (poller s2) = (ep_channels (poller s))(ch_fd c \<mapsto> p)
      \<and> chan_heap s2 = (chan_heap s)(p \<mapsto> ?d)" by simp
  qed simp_all
qed

lemma EPoll_set_events_ok:
  assumes law: "epoll_law ctl interest" and inv: "ep_inv interest s" and c: "chan_heap s p = Some c"
    and fd: "0 \<le> ch_fd c"
    and reg: "ep_channels (poller s) (ch_fd c) = Some p \<or> ep_channels (poller s) (ch_fd c) = None \<and> ch_index c = -1"
  shows "unless_fatal (\<lambda>s'. ep_inv interest s' \<and> ep_channels (poller s') = (ep_channels (poller s))(ch_fd c \<mapsto> p)
      \<and> chan_heap s' = (chan_heap s)(p \<mapsto> c\<lparr>ch_events := f (ch_events c), added_to_loop := True,
          ch_index := if ch_index c = kAdded \<and> f (ch_events c) = 0 then kDeleted else kAdded\<rparr>))
    (set_events (EPoll_UpdateChannel ctl) f p s)"
proof (cases "ch_index c = kAdded")
  case True
  then have regp: "ep_channels (poller s) (ch_fd c) = Some p" using reg by (auto simp: epoll_consts)
  then have "(ep_channels (poller s))(ch_fd c \<mapsto> p) = ep_channels (poller s)" by (simp add: fun_upd_idem)
  with EPoll_set_events_added [OF law inv c True fd regp, of f] True show ?thesis by simp
next
  case False
  with ep_invD(1) [OF inv, of "ch_fd c" p] c reg
  have "ep_channels (poller s) (ch_fd c) = Some p \<and> ch_index c = kDeleted \<or> ep_channels (poller s) (ch_fd c) = None \<and> ch_index c = kNew"
    by (auto simp: epoll_consts)
  from EPoll_set_events_absent [OF law inv c fd this, of f] False show ?thesis by simp
qed

lemma EPoll_Remove_ok:
  assumes law: "epoll_law ctl interest" and inv: "ep_inv interest s" and c: "chan_heap s p = Some c"
    and reg: "ep_channels (poller s) (ch_fd c) = Some p" and none: "IsNoneEvent c"
  shows "unless_fatal (\<lambda>s'. ep_inv interest s' \<and> ep_channels (poller s') = (ep_channels (poller s))(ch_fd c := None)
      \<and> chan_heap s' = (chan_heap s)(p \<mapsto> c\<lparr>added_to_loop := False, ch_index := kNew\<rparr>))
    (Channel_Remove (EPoll_RemoveChannel ctl) p s)"
proof -
  note i = ep_invD [OF inv]
  let ?c = "c\<lparr>added_to_loop := False\<rparr>"
  let ?d = "?c\<lparr>ch_index := kNew\<rparr>"
  let ?s1 = "s\<lparr>chan_heap := (chan_heap s)(p \<mapsto> ?c),
    poller := (poller s)\<lparr>ep_channels := (ep_channels (poller s))(ch_fd c := None)\<rparr>\<rparr>"
  have index: "ch_index c = kAdded \<or> ch_index c = kDeleted" using i(1) [OF reg] c by auto
  have run: "Channel_Remove (EPoll_RemoveChannel ctl) p s =
      and_then (if ch_index c = kAdded then EPoll_Update ctl EPOLL_CTL_DEL p ?s1 else Inr ?s1) (set_index p kNew)"
    using c reg none index
    by (simp add: Channel_Remove_def EPoll_RemoveChannel_def chan_def put_chan_def IsNoneEvent_def)
  have "unless_fatal (\<lambda>s2. \<exists>k'. s2 = ?s1\<lparr>poller := (poller ?s1)\<lparr>ep_kernel := k'\<rparr>\<rparr>
      \<and> interest k' = (interest (ep_kernel (poller s)))(ch_fd c := None))
      (if ch_index c = kAdded then EPoll_Update ctl EPOLL_CTL_DEL p ?s1 else Inr ?s1)"
  proof (cases "ch_index c = kAdded")
    case True
    have "interest (ep_kernel (poller s)) (ch_fd c) \<noteq> None"
      using i(3) reg c True by (simp add: ep_wanted_def)
    then show ?thesis using True EPoll_Update_ok [OF law, of ?s1 p ?c EPOLL_CTL_DEL] by simp
  next
    case False
    have "interest (ep_kernel (poller s)) (ch_fd c) = None"
      using i(3) reg c False by (simp add: ep_wanted_def)
    then have "interest (ep_kernel (poller s)) = (interest (ep_kernel (poller s)))(ch_fd c := None)"
      by (simp add: fun_upd_idem)
    with False show ?thesis by (auto intro!: exI [of _ "ep_kernel (poller s)"])
  qed
  then show ?thesis unfolding run
  proof (rule unless_fatal_and_then)
    fix s2
    assume "\<exists>k'. s2 = ?s1\<lparr>poller := (poller ?s1)\<lparr>ep_kernel := k'\<rparr>\<rparr>
      \<and> interest k' = (interest (ep_kernel (poller s)))(ch_fd c := None)"
    then obtain k' where s2: "s2 = ?s1\<lparr>poller := (poller ?s1)\<lparr>ep_kernel := k'\<rparr>\<rparr>"
      "interest k' = (interest (ep_kernel (poller s)))(ch_fd c := None)" by blast
    have "ep_inv interest (put_chan p ?d s2)"
      by (rule ep_inv_after [OF inv c, where c' = ?d]) (use s2 reg in \<open>auto simp: epoll_consts put_chan_def\<close>)
    then show "unless_fatal (\<lambda>s'. ep_inv interest s' \<and> ep_channels (poller s') = (ep_channels (poller s))(ch_fd c := None)
        \<and> chan_heap s' = (chan_heap s)(p \<mapsto> ?d)) (set_index p kNew s2)"
      using s2(1) by (simp add: set_index_def chan_def put_chan_def)
  qed
qed

interpretation epoll: channel_registry "\<lambda>s. epoll_law ctl interest \<and> ep_inv interest s"
  "\<lambda>s. ep_channels (poller s)" "EPoll_UpdateChannel ctl" "EPoll_RemoveChannel ctl" for ctl interest
proof (unfold_locales, goal_cases)
  case (1 s p c f)
  then show ?case by (intro unless_fatal_mono [OF EPoll_set_events_ok [of ctl interest s p c]]) auto
next
  case (2 s p c)
  then show ?case by (intro unless_fatal_mono [OF EPoll_Remove_ok [of ctl interest s p c]]) auto
next
  case (3 s fd p)
  then show ?case using ep_invD(1) [of interest s fd p] by auto
qed

subsection \<open>Runs\<close>

text \<open>
  The loop's use of the poller: channels are created and destroyed while they are not
  registered, their events are changed, and they are removed once they have no events. Only one
  channel at a time is registered for a descriptor.
\<close>

inductive ep_run :: "'k epoll_ctl \<Rightarrow> 'k \<Rightarrow> 'k epoll_poller reactor outcome \<Rightarrow> bool" for ctl k0 where
  start: "ep_run ctl k0 (Inr \<lparr>chan_heap = Map.empty, poller = EPollPoller_new k0\<rparr>)"
| create: "ep_run ctl k0 (Inr s) \<Longrightarrow> chan_heap s p = None \<Longrightarrow> 0 \<le> fd \<Longrightarrow>
    ep_run ctl k0 (Inr (put_chan p (Channel_new fd) s))"
| destroy: "ep_run ctl k0 (Inr s) \<Longrightarrow> HasChannel (\<lambda>s. ep_channels (poller s)) p s = Inr False \<Longrightarrow>
    ep_run ctl k0 (Inr (s\<lparr>chan_heap := (chan_heap s)(p := None)\<rparr>))"
| change: "ep_run ctl k0 (Inr s) \<Longrightarrow> chan_heap s p = Some c \<Longrightarrow>
    ep_channels (poller s) (ch_fd c) \<in> {None, Some p} \<Longrightarrow>
    ep_run ctl k0 (set_events (EPoll_UpdateChannel ctl) f p s)"
| remove: "ep_run ctl k0 (Inr s) \<Longrightarrow> chan_heap s p = Some c \<Longrightarrow>
    ep_channels (poller s) (ch_fd c) = Some p \<Longrightarrow> IsNoneEvent c \<Longrightarrow>
    ep_run ctl k0 (Channel_Remove (EPoll_RemoveChannel ctl) p s)"

definition fds_valid :: "'p reactor \<Rightarrow> bool" where
  "fds_valid s \<longleftrightarrow> (\<forall>p c. chan_heap s p = Some c \<longrightarrow> 0 \<le> ch_fd c)"

lemma ep_run_inv:
  assumes "ep_run ctl k0 m" "epoll_law ctl interest" "interest k0 = Map.empty"
  shows "unless_fatal (\<lambda>s. ep_inv interest s \<and> fds_valid s) m"
  using assms(1)
proof (induction rule: ep_run.induct)
  case start
  show ?case using assms(3) by (auto simp: ep_inv_def ep_wanted_def EPollPoller_new_def fds_valid_def)
next
  case (create s p fd)
  then have i: "ep_inv interest s" "fds_valid s" by simp_all
  have off: "q \<noteq> p" if "ep_channels (poller s) x = Some q" for x q
    using ep_invD(1) [OF i(1) that] create(2) by auto
  have "ep_wanted (put_chan p (Channel_new fd) s) = ep_wanted s"
    using off by (auto simp: ep_wanted_def fun_eq_iff split: option.split)
  with i off create(3) show ?case
    by (auto simp: ep_inv_def fds_valid_def Channel_new_def epoll_consts)
next
  case (destroy s p)
  then have i: "ep_inv interest s" "fds_valid s" by simp_all
  from destroy(2) obtain c where c: "chan_heap s p = Some c" "ep_channels (poller s) (ch_fd c) \<noteq> Some p"
    by (auto simp: HasChannel_def chan_def split: option.splits)
  have off: "q \<noteq> p" if "ep_channels (poller s) x = Some q" for x q
    using ep_invD(1) [OF i(1) that] that c by auto
  have "ep_wanted (s\<lparr>chan_heap := (chan_heap s)(p := None)\<rparr>) = ep_wanted s"
    using off by (auto simp: ep_wanted_def fun_eq_iff split: option.split)
  with i off show ?case by (auto simp: ep_inv_def fds_valid_def)
next
  case (change s p c f)
  then have i: "ep_inv interest s" "fds_valid s" by simp_all
  then have fd: "0 \<le> ch_fd c" using change(2) by (auto simp: fds_valid_def)
  have "ep_channels (poller s) (ch_fd c) = Some p \<or> ep_channels (poller s) (ch_fd c) = None \<and> ch_index c = -1"
    using change(3) ep_invD(2) [OF i(1) change(2)] by (auto simp: kNew_def)
  from EPoll_set_events_ok [OF assms(2) i(1) change(2) fd this, of f] show ?case
    by (rule unless_fatal_mono) (use fd i(2) in \<open>auto simp: fds_valid_def split: if_splits\<close>)
next
  case (remove s p c)
  then have i: "ep_inv interest s" "fds_valid s" by simp_all
  then have fd: "0 \<le> ch_fd c" using remove(2) by (auto simp: fds_valid_def)
  from EPoll_Remove_ok [OF assms(2) i(1) remove(2-4)] show ?case
    by (rule unless_fatal_mono) (use fd i(2) in \<open>auto simp: fds_valid_def split: if_splits\<close>)
qed

subsection \<open>Properties\<close>

text \<open>
  C5. In every run of \<^verbatim>\<open>EPollPoller\<close> no assertion fails, every \<^verbatim>\<open>epoll_ctl\<close> request is one the
  kernel can honour (the only fatal exit is the kernel refusing a legal add), and the kernel's
  interest list is exactly what the channels ask for: a descriptor is listed when its channel
  is in state \<^verbatim>\<open>kAdded\<close>, with that channel's current events and pointer, and in no other case.
\<close>

theorem EPoll_interest_exact:
  assumes "epoll_law ctl interest" "interest k0 = Map.empty" "ep_run ctl k0 m"
  shows "(\<exists>msg. m = Inl (LogFatal msg)) \<or>
    (\<exists>s. m = Inr s \<and> (\<forall>fd ev p. interest (ep_kernel (poller s)) fd = Some (ev, p) \<longleftrightarrow>
        ep_channels (poller s) fd = Some p
        \<and> (\<exists>c. chan_heap s p = Some c \<and> ch_fd c = fd \<and> ch_index c = kAdded \<and> ch_events c = ev)))"
proof (cases m)
  case (Inl e)
  then show ?thesis using ep_run_inv [OF assms(3,1,2)] by (cases e) (simp_all add: unless_fatal_def)
next
  case (Inr s)
  with ep_run_inv [OF assms(3,1,2)] have inv: "ep_inv interest s" by simp
  have "interest (ep_kernel (poller s)) fd = Some (ev, p) \<longleftrightarrow> ep_channels (poller s) fd = Some p
        \<and> (\<exists>c. chan_heap s p = Some c \<and> ch_fd c = fd \<and> ch_index c = kAdded \<and> ch_events c = ev)" for fd ev p
  proof (cases "ep_channels (poller s) fd")
    case None
    then show ?thesis unfolding ep_invD(3) [OF inv] ep_wanted_def by simp
  next
    case (Some q)
    from ep_invD(1) [OF inv Some] obtain c where "chan_heap s q = Some c" "ch_fd c = fd" by blast
    with Some show ?thesis unfolding ep_invD(3) [OF inv] ep_wanted_def by auto
  qed
  with Inr show ?thesis by blast
qed

definition ideal_ctl :: "(int \<Rightarrow> (events \<times> chan_ptr) option) epoll_ctl" where
  "ideal_ctl op fd ev k =
     (if (op = EPOLL_CTL_ADD) = (k fd = None) then (0, k(fd := if op = EPOLL_CTL_DEL then None else Some ev))
      else (-1, k))"

lemma ideal_ctl_law: "epoll_law ideal_ctl (\<lambda>k. k)"
  by (auto simp: epoll_law_def ideal_ctl_def split: if_splits) (metis not_None_eq surj_pair)

theorem EPoll_interest_exact_witness:
  "epoll_law ideal_ctl (\<lambda>k. k) \<and> (\<exists>s. ep_run ideal_ctl Map.empty (Inr s)
    \<and> ep_kernel (poller s) 5 = Some (kReadEvent, 1))"
proof -
  let ?s = "\<lparr>chan_heap = [1 \<mapsto> Channel_new 5], poller = EPollPoller_new Map.empty\<rparr>"
  have "ep_run ideal_ctl Map.empty (Inr (put_chan 1 (Channel_new 5) \<lparr>chan_heap = Map.empty, poller = EPollPoller_new Map.empty\<rparr>))"
    by (rule ep_run.create [OF ep_run.start]) simp_all
  then have r: "ep_run ideal_ctl Map.empty (Inr ?s)" by (simp add: put_chan_def)
  have "ep_run ideal_ctl Map.empty (set_events (EPoll_UpdateChannel ideal_ctl) (\<lambda>ev. ev OR kReadEvent) 1 ?s)"
    by (rule ep_run.change [OF r]) (simp_all add: EPollPoller_new_def)
  moreover have "\<exists>s. set_events (EPoll_UpdateChannel ideal_ctl) (\<lambda>ev. ev OR kReadEvent) 1 ?s = Inr s
      \<and> chan_heap s 1 = Some ((Channel_new 5)\<lparr>ch_events := kReadEvent, added_to_loop := True, ch_index := kAdded\<rparr>)
      \<and> ep_channels (poller s) 5 = Some 1"
    by (simp add: set_events_unfold EPoll_UpdateChannel_def set_index_def EPoll_Update_def ideal_ctl_def
        put_chan_def chan_def EPollPoller_new_def Channel_new_def epoll_consts)
  ultimately obtain s where s: "ep_run ideal_ctl Map.empty (Inr s)"
    "chan_heap s 1 = Some ((Channel_new 5)\<lparr>ch_events := kReadEvent, added_to_loop := True, ch_index := kAdded\<rparr>)"
    "ep_channels (poller s) 5 = Some 1" by auto
  have "(\<forall>fd ev p. ep_kernel (poller s) fd = Some (ev, p) \<longleftrightarrow> ep_channels (poller s) fd = Some p
        \<and> (\<exists>c. chan_heap s p = Some c \<and> ch_fd c = fd \<and> ch_index c = kAdded \<and> ch_events c = ev))"
    using EPoll_interest_exact [OF ideal_ctl_law refl s(1)] by simp
  then have "ep_kernel (poller s) 5 = Some (kReadEvent, 1)"
    using s(2,3) by (simp add: Channel_new_def)
  with s(1) ideal_ctl_law show ?thesis by blast
qed

lemma fill_loop:
  assumes "\<forall>(ev, p) \<in> set evs. \<exists>c. chan_heap s p = Some c \<and> ep_channels (poller s) (ch_fd c) = Some p"
    and "distinct (map snd evs)"
  shows "\<exists>s'. for_each (\<lambda>(ev, p) (s, active).
         and_then (chan p s) (\<lambda>c.
           asserting (ep_channels (poller s) (ch_fd c) \<noteq> None) ''it != channels_.end()''
           (asserting (ep_channels (poller s) (ch_fd c) = Some p) ''it->second == channel''
           (Inr (put_chan p (c\<lparr>ch_revents := ev\<rparr>) s, active @ [p]))))) evs (s, act)
      = Inr (s', act @ map snd evs) \<and> poller s' = poller s
      \<and> (\<forall>p. p \<notin> snd ` set evs \<longrightarrow> chan_heap s' p = chan_heap s p)
      \<and> (\<forall>(ev, p) \<in> set evs. chan_heap s' p = map_option (\<lambda>c. c\<lparr>ch_revents := ev\<rparr>) (chan_heap s p))"
  using assms
proof (induction evs arbitrary: s act)
  case Nil
  then show ?case by simp
next
  case (Cons e evs)
  obtain ev p where e: "e = (ev, p)" by (cases e)
  with Cons.prems(1) obtain c where c: "chan_heap s p = Some c" "ep_channels (poller s) (ch_fd c) = Some p" by auto
  let ?s = "put_chan p (c\<lparr>ch_revents := ev\<rparr>) s"
  have fresh: "p \<notin> snd ` set evs" using Cons.prems(2) e by auto
  have "\<forall>(ev, p) \<in> set evs. \<exists>c. chan_heap ?s p = Some c \<and> ep_channels (poller ?s) (ch_fd c) = Some p"
    using Cons.prems(1) fresh by force
  from Cons.IH [OF this, of "act @ [p]"] Cons.prems(2) obtain s' where
    s': "for_each (\<lambda>(ev, p) (s, active).
         and_then (chan p s) (\<lambda>c.
           asserting (ep_channels (poller s) (ch_fd c) \<noteq> None) ''it != channels_.end()''
           (asserting (ep_channels (poller s) (ch_fd c) = Some p) ''it->second == channel''
           (Inr (put_chan p (c\<lparr>ch_revents := ev\<rparr>) s, active @ [p]))))) evs (?s, act @ [p])
      = Inr (s', (act @ [p]) @ map snd evs)" "poller s' = poller ?s"
      "\<forall>p. p \<notin> snd ` set evs \<longrightarrow> chan_heap s' p = chan_heap ?s p"
      "\<forall>(ev, p) \<in> set evs. chan_heap s' p = map_option (\<lambda>c. c\<lparr>ch_revents := ev\<rparr>) (chan_heap ?s p)" by auto
  have "chan_heap s' q = map_option (\<lambda>c. c\<lparr>ch_revents := v\<rparr>) (chan_heap s q)" if "(v, q) \<in> set evs" for v q
  proof -
    have "q \<noteq> p" using that fresh by force
    with s'(4) that show ?thesis by auto
  qed
  moreover have "chan_heap s' p = Some (c\<lparr>ch_revents := ev\<rparr>)" using s'(3) fresh by simp
  moreover have "chan_heap s' q = chan_heap s q" if "q \<notin> snd ` set (e # evs)" for q using s'(3) that e by auto
  ultimately show ?case using s'(1,2) e c by (intro exI [of _ s']) (auto simp: chan_def)
qed

text \<open>
  C33. One \<^verbatim>\<open>EPollPoller::Poll\<close>: if \<^verbatim>\<open>epoll_wait\<close> reports channels that are in the interest list,
  each once, and no more than the event array holds, then no assertion fails, exactly those
  channels become active in the reported order with the reported events, no other channel is
  touched, and a full event array is doubled for the next call.
\<close>

theorem EPoll_Poll_reports:
  assumes inv: "ep_inv interest s" and "0 < n" "n \<le> ep_events_size (poller s)" "length evs = n"
    and "distinct (map snd evs)"
    and "\<forall>(ev, p) \<in> set evs. \<exists>fd ev0. interest (ep_kernel (poller s)) fd = Some (ev0, p)"
  shows "\<exists>s'. EPoll_Poll (int n) evs s = Inr (s', map snd evs)
    \<and> (\<forall>(ev, p) \<in> set evs. chan_heap s p \<noteq> None
        \<and> chan_heap s' p = map_option (\<lambda>c. c\<lparr>ch_revents := ev\<rparr>) (chan_heap s p))
    \<and> (\<forall>p. p \<notin> snd ` set evs \<longrightarrow> chan_heap s' p = chan_heap s p)
    \<and> ep_events_size (poller s') = (if n = ep_events_size (poller s) then 2 * n else ep_events_size (poller s))"
proof -
  have reg: "\<exists>c. chan_heap s p = Some c \<and> ep_channels (poller s) (ch_fd c) = Some p" if "(ev, p) \<in> set evs" for ev p
  proof -
    from assms(6) that obtain fd ev0 where "interest (ep_kernel (poller s)) fd = Some (ev0, p)" by auto
    then have "ep_wanted s fd = Some (ev0, p)" using ep_invD(3) [OF inv] by simp
    then have "ep_channels (poller s) fd = Some p" by (auto simp: ep_wanted_def split: option.splits if_splits)
    with ep_invD(1) [OF inv this] show ?thesis by auto
  qed
  then have "\<forall>(ev, p) \<in> set evs. \<exists>c. chan_heap s p = Some c \<and> ep_channels (poller s) (ch_fd c) = Some p" by auto
  from fill_loop [OF this assms(5), of "[]"] obtain s' where
    s': "EPoll_FillActiveChannels (int n) evs s = Inr (s', map snd evs)" "poller s' = poller s"
      "\<forall>p. p \<notin> snd ` set evs \<longrightarrow> chan_heap s' p = chan_heap s p"
      "\<forall>(ev, p) \<in> set evs. chan_heap s' p = map_option (\<lambda>c. c\<lparr>ch_revents := ev\<rparr>) (chan_heap s p)"
    using assms(3,4) by (auto simp: EPoll_FillActiveChannels_def)
  have live: "\<forall>(ev, p) \<in> set evs. chan_heap s p \<noteq> None" using reg by fastforce
  show ?thesis
  proof (cases "n = ep_events_size (poller s)")
    case True
    let ?s = "s'\<lparr>poller := (poller s')\<lparr>ep_events_size := ep_events_size (poller s') * 2\<rparr>\<rparr>"
    have "EPoll_Poll (int n) evs s = Inr (?s, map snd evs)" using s'(1,2) assms(2) True by (simp add: EPoll_Poll_def)
    with s' live True show ?thesis by (intro exI [of _ ?s]) auto
  next
    case False
    then have "EPoll_Poll (int n) evs s = Inr (s', map snd evs)" using s'(1,2) assms(2) by (simp add: EPoll_Poll_def)
    with s' live False show ?thesis by (intro exI [of _ s']) auto
  qed
qed

definition one_added :: "(int \<Rightarrow> (events \<times> chan_ptr) option) epoll_poller reactor" where
  "one_added = \<lparr>chan_heap = [1 \<mapsto> (Channel_new 5)\<lparr>ch_events := kReadEvent, ch_index := kAdded\<rparr>],
     poller = \<lparr>ep_channels = [5 \<mapsto> 1], ep_kernel = [5 \<mapsto> (kReadEvent, 1)], ep_events_size = 1\<rparr>\<rparr>"

theorem EPoll_Poll_reports_witness:
  "ep_inv (\<lambda>k. k) one_added
   \<and> (\<exists>s'. EPoll_Poll 1 [(POLLIN, 1)] one_added = Inr (s', [1]) \<and> ep_events_size (poller s') = 2)"
proof -
  have inv: "ep_inv (\<lambda>k. k) one_added"
    by (auto simp: ep_inv_def ep_wanted_def one_added_def Channel_new_def fun_eq_iff)
  have "\<exists>s'. EPoll_Poll (int 1) [(POLLIN, 1)] one_added = Inr (s', map snd [(POLLIN, 1)])
    \<and> (\<forall>(ev, p) \<in> set [(POLLIN, 1)]. chan_heap one_added p \<noteq> None
        \<and> chan_heap s' p = map_option (\<lambda>c. c\<lparr>ch_revents := ev\<rparr>) (chan_heap one_added p))
    \<and> (\<forall>p. p \<notin> snd ` set [(POLLIN, 1)] \<longrightarrow> chan_heap s' p = chan_heap one_added p)
    \<and> ep_events_size (poller s') = (if 1 = ep_events_size (poller one_added) then 2 * 1 else ep_events_size (poller one_added))"
    by (rule EPoll_Poll_reports [OF inv]) (auto simp: one_added_def)
  with inv show ?thesis by (auto simp: one_added_def)
qed

section \<open>PollPoller keeps its positions\<close>

definition owner :: "pollfd \<Rightarrow> int" where
  "owner pfd = (if pfd_fd pfd < 0 then - pfd_fd pfd - 1 else pfd_fd pfd)"

definition pp_slot :: "channel \<Rightarrow> pollfd \<Rightarrow> bool" where
  "pp_slot c pfd \<longleftrightarrow> owner pfd = ch_fd c \<and> pfd_events pfd = ucast (ch_events c)
     \<and> (IsNoneEvent c \<longrightarrow> pfd_fd pfd < 0)"

definition pp_inv :: "poll_poller reactor \<Rightarrow> bool" where
  "pp_inv s \<longleftrightarrow>
     (\<forall>fd p. pp_channels (poller s) fd = Some p \<longrightarrow> 0 \<le> fd \<and> (\<exists>c. chan_heap s p = Some c \<and> ch_fd c = fd
        \<and> 0 \<le> ch_index c \<and> nat (ch_index c) < length (pollfds (poller s))
        \<and> pp_slot c (pollfds (poller s) ! nat (ch_index c))))
     \<and> (\<forall>i < length (pollfds (poller s)). \<exists>p c. pp_channels (poller s) (owner (pollfds (poller s) ! i)) = Some p
        \<and> chan_heap s p = Some c \<and> ch_index c = int i)"

lemma pp_invD:
  assumes "pp_inv s"
  shows "pp_channels (poller s) fd = Some p \<Longrightarrow> 0 \<le> fd \<and> (\<exists>c. chan_heap s p = Some c \<and> ch_fd c = fd
      \<and> 0 \<le> ch_index c \<and> nat (ch_index c) < length (pollfds (poller s))
      \<and> pp_slot c (pollfds (poller s) ! nat (ch_index c)))"
    "i < length (pollfds (poller s)) \<Longrightarrow> \<exists>p c. pp_channels (poller s) (owner (pollfds (poller s) ! i)) = Some p
        \<and> chan_heap s p = Some c \<and> ch_index c = int i"
  using assms unfolding pp_inv_def by blast+

lemma pp_registered:
  assumes "pp_inv s" "pp_channels (poller s) fd = Some p" "chan_heap s p = Some c"
  shows "ch_fd c = fd" "0 \<le> fd" "0 \<le> ch_index c" "nat (ch_index c) < length (pollfds (poller s))"
    "pp_slot c (pollfds (poller s) ! nat (ch_index c))"
  using pp_invD(1) [OF assms(1,2)] assms(3) by auto

lemma owner_ignored [simp]: "0 \<le> fd \<Longrightarrow> pfd_fd pfd = - fd - 1 \<Longrightarrow> owner pfd = fd"
  "0 \<le> fd \<Longrightarrow> pfd_fd pfd = fd \<Longrightarrow> owner pfd = fd"
  by (simp_all add: owner_def)

lemma owner_cases: "owner pfd = fd \<Longrightarrow> pfd_fd pfd = fd \<or> pfd_fd pfd = - fd - 1"
  by (auto simp: owner_def split: if_splits)

lemma Poll_set_events_new:
  assumes inv: "pp_inv s" and c: "chan_heap s p = Some c" and "0 \<le> ch_fd c"
    and new: "pp_channels (poller s) (ch_fd c) = None" "ch_index c = -1" "f (ch_events c) \<noteq> 0"
  shows "\<exists>s'. set_events Poll_UpdateChannel f p s = Inr s' \<and> pp_inv s'
    \<and> pp_channels (poller s') = (pp_channels (poller s))(ch_fd c \<mapsto> p)
    \<and> (\<exists>c'. chan_heap s' p = Some c' \<and> ch_fd c' = ch_fd c \<and> ch_events c' = f (ch_events c))"
proof -
  let ?n = "length (pollfds (poller s))"
  let ?c = "c\<lparr>ch_events := f (ch_events c), added_to_loop := True, ch_index := int ?n\<rparr>"
  let ?pfd = "\<lparr>pfd_fd = ch_fd c, pfd_events = ucast (f (ch_events c)), pfd_revents = 0\<rparr>"
  let ?s = "\<lparr>chan_heap = (chan_heap s)(p \<mapsto> ?c),
     poller = \<lparr>pp_channels = (pp_channels (poller s))(ch_fd c \<mapsto> p), pollfds = pollfds (poller s) @ [?pfd]\<rparr>\<rparr>"
  have run: "set_events Poll_UpdateChannel f p s = Inr ?s"
    using c new by (simp add: set_events_unfold Poll_UpdateChannel_def put_chan_def chan_def Let_def)
  have off: "q \<noteq> p" if "pp_channels (poller s) fd = Some q" for fd q
    using pp_invD(1) [OF inv that] c new(2) by auto
  have "pp_inv ?s"
    unfolding pp_inv_def
  proof (intro conjI allI impI)
    fix fd q
    assume q: "pp_channels (poller ?s) fd = Some q"
    show "0 \<le> fd" using q assms(3) pp_invD(1) [OF inv, of fd q] by (auto split: if_splits)
    show "\<exists>d. chan_heap ?s q = Some d \<and> ch_fd d = fd \<and> 0 \<le> ch_index d \<and> nat (ch_index d) < length (pollfds (poller ?s))
        \<and> pp_slot d (pollfds (poller ?s) ! nat (ch_index d))"
    proof (cases "fd = ch_fd c")
      case True
      then show ?thesis using q assms(3) new(3) by (auto simp: pp_slot_def IsNoneEvent_def kNoneEvent_def)
    next
      case False
      with q have "pp_channels (poller s) fd = Some q" by simp
      with pp_invD(1) [OF inv this] off [OF this] show ?thesis by (auto simp: nth_append)
    qed
  next
    fix i
    assume i: "i < length (pollfds (poller ?s))"
    show "\<exists>q d. pp_channels (poller ?s) (owner (pollfds (poller ?s) ! i)) = Some q \<and> chan_heap ?s q = Some d
        \<and> ch_index d = int i"
    proof (cases "i = ?n")
      case True
      then show ?thesis using assms(3) by simp
    next
      case False
      with i have "i < ?n" by simp
      from pp_invD(2) [OF inv this] obtain q d where
        q: "pp_channels (poller s) (owner (pollfds (poller s) ! i)) = Some q" "chan_heap s q = Some d" "ch_index d = int i"
        by blast
      moreover have "owner (pollfds (poller s) ! i) \<noteq> ch_fd c" using q(1) new(1) by auto
      ultimately show ?thesis using off [OF q(1)] \<open>i < ?n\<close> by (simp add: nth_append)
    qed
  qed
  then show ?thesis using run by (intro exI [of _ ?s]) simp
qed

lemma Poll_set_events_again:
  assumes inv: "pp_inv s" and c: "chan_heap s p = Some c"
    and reg: "pp_channels (poller s) (ch_fd c) = Some p"
  shows "\<exists>s'. set_events Poll_UpdateChannel f p s = Inr s' \<and> pp_inv s'
    \<and> pp_channels (poller s') = (pp_channels (poller s))(ch_fd c \<mapsto> p)
    \<and> (\<exists>c'. chan_heap s' p = Some c' \<and> ch_fd c' = ch_fd c \<and> ch_events c' = f (ch_events c))"
proof -
  note r = pp_registered [OF inv reg c]
  let ?i = "nat (ch_index c)" and ?xs = "pollfds (poller s)"
  let ?c = "c\<lparr>ch_events := f (ch_events c), added_to_loop := True\<rparr>"
  let ?pfd1 = "(?xs ! ?i)\<lparr>pfd_events := ucast (f (ch_events c)), pfd_revents := 0\<rparr>"
  let ?pfd = "if IsNoneEvent ?c then ?pfd1\<lparr>pfd_fd := - ch_fd c - 1\<rparr> else ?pfd1"
  let ?s = "\<lparr>chan_heap = (chan_heap s)(p \<mapsto> ?c),
     poller = \<lparr>pp_channels = pp_channels (poller s), pollfds = ?xs[?i := ?pfd]\<rparr>\<rparr>"
  have own: "owner (?xs ! ?i) = ch_fd c" using r(5) by (simp add: pp_slot_def)
  then have slotfd: "pfd_fd (?xs ! ?i) = ch_fd c \<or> pfd_fd (?xs ! ?i) = - ch_fd c - 1" by (rule owner_cases)
  have own': "owner ?pfd = ch_fd c" using own r(2) by (auto simp: owner_def)
  have run: "set_events Poll_UpdateChannel f p s = Inr ?s"
    using c reg r(3,4) slotfd by (simp add: set_events_unfold Poll_UpdateChannel_def put_chan_def chan_def Let_def)
  have slot: "pp_slot ?c ?pfd" using own' r(2) by (auto simp: pp_slot_def)
  have "pp_inv ?s"
    unfolding pp_inv_def
  proof (intro conjI allI impI)
    fix fd q
    assume "pp_channels (poller ?s) fd = Some q"
    then have q: "pp_channels (poller s) fd = Some q" by simp
    then obtain d where d: "chan_heap s q = Some d" using pp_invD(1) [OF inv] by blast
    note rq = pp_registered [OF inv q d]
    show "0 \<le> fd" by (fact rq(2))
    show "\<exists>d. chan_heap ?s q = Some d \<and> ch_fd d = fd \<and> 0 \<le> ch_index d \<and> nat (ch_index d) < length (pollfds (poller ?s))
        \<and> pp_slot d (pollfds (poller ?s) ! nat (ch_index d))"
    proof (cases "q = p")
      case True
      then show ?thesis using rq(1) d c r slot by simp
    next
      case False
      have "nat (ch_index d) \<noteq> ?i"
      proof
        assume "nat (ch_index d) = ?i"
        then have "fd = ch_fd c" using rq(1,5) own by (simp add: pp_slot_def)
        with q reg False show False by simp
      qed
      then show ?thesis using rq d False by simp
    qed
  next
    fix i
    assume "i < length (pollfds (poller ?s))"
    then have i: "i < length ?xs" by simp
    from pp_invD(2) [OF inv i] obtain q d where
      q: "pp_channels (poller s) (owner (?xs ! i)) = Some q" "chan_heap s q = Some d" "ch_index d = int i" by blast
    show "\<exists>q d. pp_channels (poller ?s) (owner (pollfds (poller ?s) ! i)) = Some q \<and> chan_heap ?s q = Some d
        \<and> ch_index d = int i"
      using q i own own' reg c r(3,4) by (cases "i = ?i") auto
  qed
  moreover have "pp_channels (poller ?s) = (pp_channels (poller s))(ch_fd c \<mapsto> p)" using reg by (simp add: fun_upd_idem)
  ultimately show ?thesis using run by (intro exI [of _ ?s]) simp
qed

text \<open>Taking slot \<open>i\<close> out of the vector: the last slot moves there, unless it is the last.\<close>

lemma nth_swap_remove:
  assumes "i < length xs" "j < length xs - 1"
  shows "butlast (xs[i := List.last xs]) ! j = (if j = i then List.last xs else xs ! j)"
  using assms by (simp add: nth_butlast)

lemma butlast_update_last: "butlast (xs[length xs - 1 := x]) = butlast xs"
  by (simp add: butlast_list_update)

text \<open>
  The slot of the channel that leaves is filled with the last one, whose channel \<open>q\<close> gets the index.
\<close>

lemma pp_inv_swap_remove:
  fixes s p c q d
  defines "xs \<equiv> pollfds (poller s)" and "i \<equiv> nat (ch_index c)"
  defines "n \<equiv> length xs - 1"
  assumes inv: "pp_inv s" and c: "chan_heap s p = Some c" and reg: "pp_channels (poller s) (ch_fd c) = Some p"
    and own: "owner (xs ! i) = ch_fd c"
    and q: "pp_channels (poller s) (owner (xs ! n)) = Some q" "chan_heap s q = Some d" "ch_index d = int n"
    and h: "h = (if i = n then (chan_heap s)(p \<mapsto> c\<lparr>added_to_loop := False\<rparr>)
      else (chan_heap s)(p \<mapsto> c\<lparr>added_to_loop := False\<rparr>, q \<mapsto> d\<lparr>ch_index := ch_index c\<rparr>))"
    and ys: "ys = butlast (xs[i := List.last xs])"
  shows "pp_inv \<lparr>chan_heap = h, poller = \<lparr>pp_channels = (pp_channels (poller s))(ch_fd c := None), pollfds = ys\<rparr>\<rparr>"
    (is "pp_inv ?s")
proof -
  note r = pp_registered [OF inv reg c, folded xs_def i_def] and rq = pp_registered [OF inv q(1,2)]
  have n: "n < length xs" using r(4) by (simp add: n_def)
  have slot: "pp_slot d (xs ! n)" using rq(5) unfolding q(3) nat_int xs_def .
  have qp: "q = p \<longleftrightarrow> i = n" using own q reg c r(3) by (auto simp: i_def)
  have other: "owner (xs ! n) \<noteq> ch_fd c" if "i \<noteq> n" using that qp q(1) reg by auto
  have lst: "List.last xs = xs ! n" using n unfolding n_def by (intro last_conv_nth) auto
  have len: "length ys = n" by (simp add: n_def ys)
  have nth: "ys ! j = (if j = i then xs ! n else xs ! j)" if "j < n" for j
    using nth_swap_remove [OF r(4), of j] that lst by (simp add: n_def ys)
  have registered: "0 \<le> fd \<and> (\<exists>d. chan_heap ?s k = Some d \<and> ch_fd d = fd \<and> 0 \<le> ch_index d \<and> nat (ch_index d) < length (pollfds (poller ?s))
      \<and> pp_slot d (pollfds (poller ?s) ! nat (ch_index d)))" if "pp_channels (poller ?s) fd = Some k" for fd k
  proof -
    from that have k: "pp_channels (poller s) fd = Some k" "fd \<noteq> ch_fd c" by (auto split: if_splits)
    then obtain e where e: "chan_heap s k = Some e" using pp_invD(1) [OF inv] by blast
    note rk = pp_registered [OF inv k(1) e, folded xs_def]
    have kp: "k \<noteq> p" using e c rk(1) k(2) by auto
    have at_i: "nat (ch_index e) \<noteq> i" using rk(1,5) own k(2) by (auto simp: pp_slot_def)
    show ?thesis
    proof (cases "k = q")
      case True
      then have "i \<noteq> n" using qp kp by simp
      moreover from this have "i < n" using r(4) by (simp add: n_def)
      ultimately show ?thesis using True e q(2) rk(1,2) r(3) slot
        by (simp add: h len nth pp_slot_def IsNoneEvent_def i_def [symmetric])
    next
      case False
      then have "nat (ch_index e) \<noteq> n" using rk(1,5) q(1) k(1) by (auto simp: pp_slot_def)
      then have "nat (ch_index e) < n" using rk(4) by (simp add: n_def)
      then show ?thesis using e rk kp False at_i by (simp add: h len nth)
    qed
  qed
  have indexed: "\<exists>k e. pp_channels (poller ?s) (owner (pollfds (poller ?s) ! j)) = Some k \<and> chan_heap ?s k = Some e \<and> ch_index e = int j"
    if "j < length (pollfds (poller ?s))" for j
  proof (cases "j = i")
    case True
    then have "j < n" "i \<noteq> n" using that by (simp_all add: len)
    with True other show ?thesis using q(1) r(3) by (simp add: nth h) (simp add: i_def)
  next
    case False
    have j: "j < n" using that by (simp add: len)
    then have "j < length (pollfds (poller s))" using n by (simp add: xs_def)
    from pp_invD(2) [OF inv this] obtain k e where
      k: "pp_channels (poller s) (owner (xs ! j)) = Some k" "chan_heap s k = Some e" "ch_index e = int j" unfolding xs_def by blast
    have "k \<noteq> p" using k(2,3) c False r(3) by (auto simp: i_def)
    moreover have "k \<noteq> q" using k(2,3) q(2,3) j by auto
    moreover have "owner (xs ! j) \<noteq> ch_fd c" using k(1) reg \<open>k \<noteq> p\<close> by auto
    ultimately show ?thesis using k j False by (simp add: nth h)
  qed
  show ?thesis unfolding pp_inv_def using registered indexed by blast
qed

lemma Poll_Remove_ok:
  assumes inv: "pp_inv s" and c: "chan_heap s p = Some c"
    and reg: "pp_channels (poller s) (ch_fd c) = Some p" and none: "IsNoneEvent c"
  shows "\<exists>s'. Channel_Remove Poll_RemoveChannel p s = Inr s' \<and> pp_inv s'
    \<and> pp_channels (poller s') = (pp_channels (poller s))(ch_fd c := None)
    \<and> (\<exists>c'. chan_heap s' p = Some c' \<and> ch_fd c' = ch_fd c)"
proof -
  note r = pp_registered [OF inv reg c]
  let ?xs = "pollfds (poller s)" and ?i = "nat (ch_index c)"
  let ?n = "length ?xs - 1" and ?c = "c\<lparr>added_to_loop := False\<rparr>"
  have n: "?n < length ?xs" using r(4) by simp
  from pp_invD(2) [OF inv n] obtain q d where
    q: "pp_channels (poller s) (owner (?xs ! ?n)) = Some q" "chan_heap s q = Some d" "ch_index d = int ?n" by blast
  have own: "owner (?xs ! ?i) = ch_fd c" "pfd_fd (?xs ! ?i) = - ch_fd c - 1"
    using r(2,5) none by (auto simp: pp_slot_def owner_def split: if_splits)
  have qp: "q = p \<longleftrightarrow> ?i = ?n" using own q reg c r(3) by auto
  define h where "h = (if ?i = ?n then (chan_heap s)(p \<mapsto> ?c)
    else (chan_heap s)(p \<mapsto> ?c, q \<mapsto> d\<lparr>ch_index := ch_index c\<rparr>))"
  let ?s = "\<lparr>chan_heap = h, poller = \<lparr>pp_channels = (pp_channels (poller s))(ch_fd c := None), pollfds = butlast (?xs[?i := List.last ?xs])\<rparr>\<rparr>"
  have ev: "sint (pfd_events (?xs ! ?i)) = sint (ch_events c)"
    using r(5) none by (simp add: pp_slot_def IsNoneEvent_def kNoneEvent_def)
  have lst: "List.last ?xs = ?xs ! ?n" using n by (intro last_conv_nth) auto
  have "?i \<noteq> ?n \<Longrightarrow> owner (?xs ! ?n) \<noteq> ch_fd c" using qp q(1) reg by auto
  then have "Channel_Remove Poll_RemoveChannel p s = Inr ?s"
    using c reg none r(3,4) own ev q(1,2) lst qp
    by (simp add: Channel_Remove_def Poll_RemoveChannel_def chan_def put_chan_def IsNoneEvent_def h_def
        set_index_def Let_def butlast_update_last owner_def)
  moreover have "pp_inv ?s" by (rule pp_inv_swap_remove [OF inv c reg own(1) q h_def refl])
  moreover have "\<exists>c'. chan_heap ?s p = Some c' \<and> ch_fd c' = ch_fd c" using qp by (auto simp: h_def)
  ultimately show ?thesis by (intro exI [of _ ?s]) simp
qed

interpretation ppoll: channel_registry pp_inv "\<lambda>s. pp_channels (poller s)" Poll_UpdateChannel Poll_RemoveChannel
proof (unfold_locales, goal_cases)
  case (1 s p c f)
  then have "\<exists>s'. set_events Poll_UpdateChannel f p s = Inr s' \<and> pp_inv s'
    \<and> pp_channels (poller s') = (pp_channels (poller s))(ch_fd c \<mapsto> p)
    \<and> (\<exists>c'. chan_heap s' p = Some c' \<and> ch_fd c' = ch_fd c \<and> ch_events c' = f (ch_events c))"
    using Poll_set_events_new [of s p c f] Poll_set_events_again [of s p c f] by blast
  then show ?case by auto
next
  case (2 s p c)
  then have "\<exists>s'. Channel_Remove Poll_RemoveChannel p s = Inr s' \<and> pp_inv s'
    \<and> pp_channels (poller s') = (pp_channels (poller s))(ch_fd c := None)
    \<and> (\<exists>c'. chan_heap s' p = Some c' \<and> ch_fd c' = ch_fd c)"
    by (intro Poll_Remove_ok)
  then show ?case by auto
next
  case (3 s fd p)
  then show ?case using pp_invD(1) [of s fd p] by auto
qed

subsection \<open>Properties\<close>

text \<open>
  C22. Both pollers serve the life of a channel alike: a new channel enabled for some events, then
  disabled for all and removed, passes every assertion, and leaves the poller's registry as it was
  before, without the channel; each keeps its own invariant (the exact interest list for epoll,
  the positions in \<^verbatim>\<open>pollfds_\<close> for poll).
\<close>

theorem Poller_channel_lifecycle:
  assumes "chan_heap s p = Some c" "0 \<le> ch_fd c" "ch_index c = -1" "f (ch_events c) \<noteq> 0"
    and "chan_heap t p = Some c"
    and "pp_inv s" "pp_channels (poller s) (ch_fd c) = None"
    and "epoll_law ctl interest" "ep_inv interest t" "ep_channels (poller t) (ch_fd c) = None"
  shows "(\<exists>s'. and_then (set_events Poll_UpdateChannel f p s)
          (\<lambda>s1. and_then (DisableAll Poll_UpdateChannel p s1) (Channel_Remove Poll_RemoveChannel p)) = Inr s'
        \<and> pp_inv s' \<and> pp_channels (poller s') = pp_channels (poller s))
    \<and> unless_fatal (\<lambda>t'. ep_inv interest t' \<and> ep_channels (poller t') = ep_channels (poller t))
        (and_then (set_events (EPoll_UpdateChannel ctl) f p t)
          (\<lambda>t1. and_then (DisableAll (EPoll_UpdateChannel ctl) p t1) (Channel_Remove (EPoll_RemoveChannel ctl) p)))"
proof
  obtain s1 c1 where s1: "set_events Poll_UpdateChannel f p s = Inr s1" "pp_inv s1"
    "pp_channels (poller s1) = (pp_channels (poller s))(ch_fd c \<mapsto> p)" "chan_heap s1 p = Some c1" "ch_fd c1 = ch_fd c"
    using Poll_set_events_new [of s p c f, OF assms(6,1,2,7,3,4)] by blast
  obtain s2 c2 where s2: "DisableAll Poll_UpdateChannel p s1 = Inr s2" "pp_inv s2"
    "pp_channels (poller s2) = (pp_channels (poller s1))(ch_fd c \<mapsto> p)" "chan_heap s2 p = Some c2" "ch_fd c2 = ch_fd c"
    "IsNoneEvent c2"
    using Poll_set_events_again [OF s1(2,4), of "\<lambda>_. kNoneEvent"] s1(3,5)
    by (auto simp: DisableAll_def IsNoneEvent_def)
  from Poll_Remove_ok [OF s2(2,4) _ s2(6)] s2(3,5) s1 s2(1) assms(7)
  show "\<exists>s'. and_then (set_events Poll_UpdateChannel f p s)
          (\<lambda>s1. and_then (DisableAll Poll_UpdateChannel p s1) (Channel_Remove Poll_RemoveChannel p)) = Inr s'
        \<and> pp_inv s' \<and> pp_channels (poller s') = pp_channels (poller s)"
    by (auto simp: fun_eq_iff)
  have e: "epoll_law ctl interest \<and> ep_inv interest t" using assms(8,9) by blast
  show "unless_fatal (\<lambda>t'. ep_inv interest t' \<and> ep_channels (poller t') = ep_channels (poller t))
        (and_then (set_events (EPoll_UpdateChannel ctl) f p t)
          (\<lambda>t1. and_then (DisableAll (EPoll_UpdateChannel ctl) p t1) (Channel_Remove (EPoll_RemoveChannel ctl) p)))"
    by (rule unless_fatal_mono [OF epoll.lifecycle [where f = f, OF e assms(5,2,10,3,4)]]) auto
qed

definition pp_fresh :: "poll_poller reactor" where
  "pp_fresh = \<lparr>chan_heap = [1 \<mapsto> Channel_new 5], poller = PollPoller_new\<rparr>"

definition ep_fresh :: "(int \<Rightarrow> (events \<times> chan_ptr) option) epoll_poller reactor" where
  "ep_fresh = \<lparr>chan_heap = [1 \<mapsto> Channel_new 5], poller = EPollPoller_new Map.empty\<rparr>"

theorem Poller_channel_lifecycle_witness:
  "pp_inv pp_fresh \<and> ep_inv (\<lambda>k. k) ep_fresh
   \<and> (\<exists>s'. and_then (EnableReading Poll_UpdateChannel 1 pp_fresh)
          (\<lambda>s1. and_then (DisableAll Poll_UpdateChannel 1 s1) (Channel_Remove Poll_RemoveChannel 1)) = Inr s')"
proof -
  have f: "chan_heap pp_fresh 1 = Some (Channel_new 5)" "chan_heap ep_fresh 1 = Some (Channel_new 5)"
    "0 \<le> ch_fd (Channel_new 5)" "ch_index (Channel_new 5) = -1" "ch_events (Channel_new 5) OR kReadEvent \<noteq> 0"
    "pp_channels (poller pp_fresh) (ch_fd (Channel_new 5)) = None"
    "ep_channels (poller ep_fresh) (ch_fd (Channel_new 5)) = None"
    by (simp_all add: pp_fresh_def ep_fresh_def Channel_new_def PollPoller_new_def EPollPoller_new_def poll_consts)
  have i: "pp_inv pp_fresh" "ep_inv (\<lambda>k. k) ep_fresh"
    by (auto simp: pp_inv_def ep_inv_def ep_wanted_def pp_fresh_def ep_fresh_def PollPoller_new_def
        EPollPoller_new_def Channel_new_def epoll_consts fun_eq_iff)
  from Poller_channel_lifecycle [where f = "\<lambda>ev. ev OR kReadEvent", OF f(1,3,4,5,2) i(1) f(6) ideal_ctl_law i(2) f(7)] i
  show ?thesis by (auto simp: EnableReading_def)
qed

text \<open>
  \<^verbatim>\<open>PollPoller\<close> never polls a channel again once all its events have been disabled: disabling
  stores \<open>-fd-1\<close> in the slot so that \<^verbatim>\<open>poll\<close> ignores it, and enabling the channel again updates the
  events of the slot but never its descriptor. \<^verbatim>\<open>EPollPoller\<close> registers the channel again.
\<close>

lemma Poll_reenabled_channel_is_ignored:
  "(\<exists>s'. and_then (EnableReading Poll_UpdateChannel 1 pp_fresh) (\<lambda>s1. and_then (DisableAll Poll_UpdateChannel 1 s1)
        (EnableReading Poll_UpdateChannel 1)) = Inr s'
      \<and> map pfd_fd (pollfds (poller s')) = [-6] \<and> map_option ch_events (chan_heap s' 1) = Some kReadEvent)
   \<and> (\<exists>t'. and_then (EnableReading (EPoll_UpdateChannel ideal_ctl) 1 ep_fresh)
          (\<lambda>t1. and_then (DisableAll (EPoll_UpdateChannel ideal_ctl) 1 t1) (EnableReading (EPoll_UpdateChannel ideal_ctl) 1)) = Inr t'
      \<and> ep_kernel (poller t') 5 = Some (kReadEvent, 1))"
  by (simp add: pp_fresh_def ep_fresh_def EnableReading_def DisableAll_def set_events_def Channel_Update_def
      Poll_UpdateChannel_def EPoll_UpdateChannel_def EPoll_Update_def set_index_def chan_def put_chan_def
      PollPoller_new_def EPollPoller_new_def Channel_new_def ideal_ctl_def IsNoneEvent_def poll_consts epoll_consts)

text \<open>
  \<^verbatim>\<open>PollPoller::RemoveChannel\<close> leaves the removed channel's index as it was, so enabling a
  removed channel again takes the branch for known channels and fails its assertion;
  \<^verbatim>\<open>EPollPoller\<close> resets the index and accepts the channel again.
\<close>

lemma Poll_removed_channel_cannot_return:
  "and_then (EnableReading Poll_UpdateChannel 1 pp_fresh) (\<lambda>s1. and_then (DisableAll Poll_UpdateChannel 1 s1)
        (\<lambda>s2. and_then (Channel_Remove Poll_RemoveChannel 1 s2) (EnableReading Poll_UpdateChannel 1)))
     = Inl (AssertFailed ''channels_.find(channel->fd()) != channels_.end()'')
   \<and> returns (and_then (EnableReading (EPoll_UpdateChannel ideal_ctl) 1 ep_fresh)
          (\<lambda>t1. and_then (DisableAll (EPoll_UpdateChannel ideal_ctl) 1 t1)
          (\<lambda>t2. and_then (Channel_Remove (EPoll_RemoveChannel ideal_ctl) 1 t2) (EnableReading (EPoll_UpdateChannel ideal_ctl) 1))))"
  by (simp add: pp_fresh_def ep_fresh_def EnableReading_def DisableAll_def set_events_def Channel_Update_def
      Poll_UpdateChannel_def EPoll_UpdateChannel_def EPoll_Update_def set_index_def chan_def put_chan_def
      Channel_Remove_def Poll_RemoveChannel_def EPoll_RemoveChannel_def
      PollPoller_new_def EPollPoller_new_def Channel_new_def ideal_ctl_def IsNoneEvent_def poll_consts epoll_consts)

end
