(* ===== verification/Event_Loop.thy ===== *)
theory Event_Loop
  imports Pollers
begin

text \<open>
  \<^verbatim>\<open>muduo-cpp11/net/event_loop.h\<close> and \<^verbatim>\<open>event_loop.cpp\<close>: the queue of functors other threads hand to
  the loop, the wakeup descriptor, and the loop itself. The loop thread is a program counter
  over the body of \<^verbatim>\<open>Loop()\<close>; foreign threads take their own steps, and where a function of the
  source does two things that another thread can come between (push under the mutex, then
  write the wakeup descriptor), it takes two steps. The wakeup descriptor is an \<^verbatim>\<open>eventfd\<close>
  counter: a write adds one, a read returns the counter to zero, and it is readable while the
  counter is not zero.

  Shown: every queued functor runs exactly once and in the order of queueing; whenever the
  loop is about to block in \<^verbatim>\<open>poll\<close> with work to do, the wakeup descriptor is readable or the
  thread that queued the work has yet to write it.
\<close>

section \<open>State and operations\<close>

type_synonym functor_id = nat

datatype loop_act =
    Act_QueueInLoop functor_id
  | Act_Quit
  | Act_HandleRead

datatype loop_pc =
    Idle
  | Check_Quit
  | Polling
  | Handling "loop_act list" "(chan_ptr \<times> loop_act list) list"
  | Swapping
  | Running "loop_act list" "functor_id list"

record event_loop =
  looping :: bool
  quit :: bool
  el_event_handling :: bool
  calling_pending_functors :: bool
  iteration :: int
  pending_functors :: "functor_id list"
  wakeup_count :: nat
  active_channels :: "chan_ptr list"
  current_active_channel :: "chan_ptr option"

definition kPollTimeMs :: int where "kPollTimeMs = 10000"

definition EventLoop_new :: event_loop where
  "EventLoop_new = \<lparr>looping = False, quit = False, el_event_handling = False,
     calling_pending_functors = False, iteration = 0, pending_functors = [], wakeup_count = 0,
     active_channels = [], current_active_channel = None\<rparr>"

text \<open>Writing an \<^verbatim>\<open>eventfd\<close> whose counter is at its maximum fails; the code logs it and goes on.\<close>

definition Wakeup :: "event_loop \<Rightarrow> event_loop" where
  "Wakeup l = (if wakeup_count l < 2 ^ 64 - 2 then l\<lparr>wakeup_count := wakeup_count l + 1\<rparr> else l)"

definition EventLoop_HandleRead :: "event_loop \<Rightarrow> event_loop" where
  "EventLoop_HandleRead l = l\<lparr>wakeup_count := 0\<rparr>"

definition QueueInLoop_push :: "functor_id \<Rightarrow> event_loop \<Rightarrow> event_loop" where
  "QueueInLoop_push cb l = l\<lparr>pending_functors := pending_functors l @ [cb]\<rparr>"

definition QueueInLoop :: "bool \<Rightarrow> functor_id \<Rightarrow> event_loop \<Rightarrow> event_loop" where
  "QueueInLoop in_loop_thread cb l =
     (let l1 = QueueInLoop_push cb l
      in if \<not> in_loop_thread \<or> calling_pending_functors l1 then Wakeup l1 else l1)"

definition RunInLoop ::
  "(functor_id \<Rightarrow> event_loop \<Rightarrow> event_loop) \<Rightarrow> bool \<Rightarrow> functor_id \<Rightarrow> event_loop \<Rightarrow> event_loop" where
  "RunInLoop call in_loop_thread cb l = (if in_loop_thread then call cb l else QueueInLoop in_loop_thread cb l)"

definition Quit :: "bool \<Rightarrow> event_loop \<Rightarrow> event_loop" where
  "Quit in_loop_thread l =
     (let l1 = l\<lparr>quit := True\<rparr> in if \<not> in_loop_thread then Wakeup l1 else l1)"

definition run_act :: "loop_act \<Rightarrow> event_loop \<Rightarrow> event_loop" where
  "run_act a l = (case a of
       Act_QueueInLoop f \<Rightarrow> QueueInLoop True f l
     | Act_Quit \<Rightarrow> Quit True l
     | Act_HandleRead \<Rightarrow> EventLoop_HandleRead l)"

text \<open>
  \<^verbatim>\<open>DoPendingFunctors\<close> without other threads; \<open>script f\<close> is what functor \<open>f\<close> does to the loop.
\<close>

definition DoPendingFunctors :: "(functor_id \<Rightarrow> loop_act list) \<Rightarrow> event_loop \<Rightarrow> event_loop" where
  "DoPendingFunctors script l =
     (let l1 = l\<lparr>calling_pending_functors := True\<rparr>;
          functors = pending_functors l1;
          l2 = l1\<lparr>pending_functors := []\<rparr>;
          l3 = fold (\<lambda>f. fold run_act (script f)) functors l2
      in l3\<lparr>calling_pending_functors := False\<rparr>)"

definition AssertInLoopThread :: "bool \<Rightarrow> 'a outcome \<Rightarrow> 'a outcome" where
  "AssertInLoopThread in_loop_thread k =
     (if in_loop_thread then k else Inl (LogFatal ''EventLoop::AbortNotInLoopThread''))"

definition EventLoop_UpdateChannel :: "bool \<Rightarrow> bool \<Rightarrow> 'p poller_op \<Rightarrow> 'p poller_op" where
  "EventLoop_UpdateChannel owned in_loop_thread upd p s =
     asserting owned ''channel->owner_loop() == this'' (AssertInLoopThread in_loop_thread (upd p s))"

definition EventLoop_RemoveChannel :: "event_loop \<Rightarrow> bool \<Rightarrow> bool \<Rightarrow> 'p poller_op \<Rightarrow> 'p poller_op" where
  "EventLoop_RemoveChannel l owned in_loop_thread rem p s =
     asserting owned ''channel->owner_loop() == this''
     (AssertInLoopThread in_loop_thread
     (asserting (el_event_handling l \<longrightarrow>
          current_active_channel l = Some p \<or> p \<notin> set (active_channels l))
        ''current_active_channel_ == channel || not active''
        (rem p s)))"

definition EventLoop_HasChannel ::
  "bool \<Rightarrow> bool \<Rightarrow> (chan_ptr \<Rightarrow> 'p reactor \<Rightarrow> bool outcome) \<Rightarrow> chan_ptr \<Rightarrow> 'p reactor \<Rightarrow> bool outcome" where
  "EventLoop_HasChannel owned in_loop_thread has p s =
     asserting owned ''channel->owner_loop() == this'' (AssertInLoopThread in_loop_thread (has p s))"

section \<open>The loop and the other threads\<close>

text \<open>
  Besides the loop object: the loop thread's position in \<^verbatim>\<open>Loop()\<close>, the number of foreign threads
  that have pushed a functor or set \<^verbatim>\<open>quit_\<close> and have yet to call \<^verbatim>\<open>Wakeup\<close>, and the history of
  what was queued and what has run.
\<close>

record loop_system =
  sys_loop :: event_loop
  pc :: loop_pc
  owed_wakeups :: nat
  queued :: "functor_id list"
  executed :: "functor_id list"

definition loop_start :: loop_system where
  "loop_start = \<lparr>sys_loop = EventLoop_new, pc = Idle, owed_wakeups = 0, queued = [], executed = []\<rparr>"

fun queued_by :: "loop_act \<Rightarrow> functor_id list" where
  "queued_by (Act_QueueInLoop f) = [f]"
| "queued_by a = []"

definition do_act :: "loop_act \<Rightarrow> loop_system \<Rightarrow> loop_system" where
  "do_act a s = s\<lparr>sys_loop := run_act a (sys_loop s), queued := queued s @ queued_by a\<rparr>"

text \<open>What the loop thread does between two blocking points, one case per program counter.\<close>

definition Loop_enter :: "loop_system \<Rightarrow> loop_system outcome" where
  "Loop_enter s = asserting (\<not> looping (sys_loop s)) ''!looping_''
     (Inr (s\<lparr>sys_loop := (sys_loop s)\<lparr>looping := True, quit := False\<rparr>, pc := Check_Quit\<rparr>))"

definition Loop_check :: "loop_system \<Rightarrow> loop_system" where
  "Loop_check s =
     (if quit (sys_loop s)
      then s\<lparr>sys_loop := (sys_loop s)\<lparr>looping := False\<rparr>, pc := Idle\<rparr>
      else s\<lparr>sys_loop := (sys_loop s)\<lparr>active_channels := []\<rparr>, pc := Polling\<rparr>)"

text \<open>
  \<^verbatim>\<open>Poll\<close> returns the active channels, each with what its callbacks will do to the loop. The wakeup channel is
  active, and its callback \<^verbatim>\<open>HandleRead\<close> among them, only when the descriptor is readable. The loop then goes through
  the channels, noting the current one.
\<close>

definition Loop_polled :: "(chan_ptr \<times> loop_act list) list \<Rightarrow> loop_system \<Rightarrow> loop_system" where
  "Loop_polled active s =
     s\<lparr>sys_loop := (sys_loop s)\<lparr>active_channels := map fst active, iteration := iteration (sys_loop s) + 1,
                             el_event_handling := True\<rparr>, pc := Handling [] active\<rparr>"

definition Loop_next_channel :: "chan_ptr \<Rightarrow> loop_act list \<Rightarrow> (chan_ptr \<times> loop_act list) list \<Rightarrow> loop_system \<Rightarrow> loop_system" where
  "Loop_next_channel p acts rest s =
     s\<lparr>sys_loop := (sys_loop s)\<lparr>current_active_channel := Some p\<rparr>, pc := Handling acts rest\<rparr>"

definition Loop_handled :: "loop_system \<Rightarrow> loop_system" where
  "Loop_handled s =
     s\<lparr>sys_loop := (sys_loop s)\<lparr>current_active_channel := None, el_event_handling := False\<rparr>, pc := Swapping\<rparr>"

definition Loop_swap :: "loop_system \<Rightarrow> loop_system" where
  "Loop_swap s =
     s\<lparr>sys_loop := (sys_loop s)\<lparr>calling_pending_functors := True, pending_functors := []\<rparr>,
       pc := Running [] (pending_functors (sys_loop s))\<rparr>"

definition Loop_done :: "loop_system \<Rightarrow> loop_system" where
  "Loop_done s = s\<lparr>sys_loop := (sys_loop s)\<lparr>calling_pending_functors := False\<rparr>, pc := Check_Quit\<rparr>"

text \<open>\<^verbatim>\<open>HandleRead\<close> is private to the loop, so a functor's actions never include it.\<close>

inductive loop_step :: "(functor_id \<Rightarrow> loop_act list) \<Rightarrow> loop_system \<Rightarrow> loop_system \<Rightarrow> bool" for script where
  enter: "pc s = Idle \<Longrightarrow> Loop_enter s = Inr s' \<Longrightarrow> loop_step script s s'"
| check: "pc s = Check_Quit \<Longrightarrow> loop_step script s (Loop_check s)"
| polled: "pc s = Polling \<Longrightarrow> (\<forall>(p, acts) \<in> set active. Act_HandleRead \<in> set acts \<longrightarrow> wakeup_count (sys_loop s) > 0) \<Longrightarrow>
    loop_step script s (Loop_polled active s)"
| next_channel: "pc s = Handling [] ((p, acts) # rest) \<Longrightarrow> loop_step script s (Loop_next_channel p acts rest s)"
| handle: "pc s = Handling (a # acts) rest \<Longrightarrow> loop_step script s ((do_act a s)\<lparr>pc := Handling acts rest\<rparr>)"
| handled: "pc s = Handling [] [] \<Longrightarrow> loop_step script s (Loop_handled s)"
| swap: "pc s = Swapping \<Longrightarrow> loop_step script s (Loop_swap s)"
| call: "pc s = Running [] (f # fs) \<Longrightarrow>
    loop_step script s (s\<lparr>pc := Running (filter (\<lambda>a. a \<noteq> Act_HandleRead) (script f)) fs, executed := executed s @ [f]\<rparr>)"
| act: "pc s = Running (a # acts) fs \<Longrightarrow> loop_step script s ((do_act a s)\<lparr>pc := Running acts fs\<rparr>)"
| finish: "pc s = Running [] [] \<Longrightarrow> loop_step script s (Loop_done s)"
| foreign_push: "loop_step script s
    (s\<lparr>sys_loop := QueueInLoop_push f (sys_loop s), owed_wakeups := owed_wakeups s + 1, queued := queued s @ [f]\<rparr>)"
| foreign_quit: "loop_step script s (s\<lparr>sys_loop := (sys_loop s)\<lparr>quit := True\<rparr>, owed_wakeups := owed_wakeups s + 1\<rparr>)"
| foreign_wakeup: "owed_wakeups s > 0 \<Longrightarrow>
    loop_step script s (s\<lparr>sys_loop := Wakeup (sys_loop s), owed_wakeups := owed_wakeups s - 1\<rparr>)"

inductive loop_run :: "(functor_id \<Rightarrow> loop_act list) \<Rightarrow> loop_system \<Rightarrow> bool" for script where
  init: "loop_run script loop_start"
| more: "loop_run script s \<Longrightarrow> loop_step script s s' \<Longrightarrow> loop_run script s'"

section \<open>The invariant\<close>

definition waking :: "loop_system \<Rightarrow> bool" where
  "waking s \<longleftrightarrow> wakeup_count (sys_loop s) > 0 \<or> owed_wakeups s > 0"

fun in_progress :: "loop_pc \<Rightarrow> functor_id list" where
  "in_progress (Running acts fs) = fs"
| "in_progress p = []"

fun acts_of :: "loop_pc \<Rightarrow> loop_act list" where
  "acts_of (Running acts fs) = acts"
| "acts_of p = []"

definition loop_inv :: "loop_system \<Rightarrow> bool" where
  "loop_inv s \<longleftrightarrow>
     queued s = executed s @ in_progress (pc s) @ pending_functors (sys_loop s)
     \<and> (looping (sys_loop s) \<longleftrightarrow> pc s \<noteq> Idle)
     \<and> (calling_pending_functors (sys_loop s) \<longleftrightarrow> (\<exists>acts fs. pc s = Running acts fs))
     \<and> Act_HandleRead \<notin> set (acts_of (pc s))
     \<and> (pending_functors (sys_loop s) \<noteq> [] \<longrightarrow> (\<exists>acts rest. pc s = Handling acts rest) \<or> pc s = Swapping \<or> waking s)
     \<and> (pc s = Polling \<and> quit (sys_loop s) \<longrightarrow> waking s)"

lemma Wakeup_simps [simp]:
  "looping (Wakeup l) = looping l" "quit (Wakeup l) = quit l"
  "calling_pending_functors (Wakeup l) = calling_pending_functors l"
  "pending_functors (Wakeup l) = pending_functors l" "wakeup_count (Wakeup l) > 0"
  by (simp_all add: Wakeup_def)

lemma QueueInLoop_simps [simp]:
  "looping (QueueInLoop b f l) = looping l" "quit (QueueInLoop b f l) = quit l"
  "calling_pending_functors (QueueInLoop b f l) = calling_pending_functors l"
  "pending_functors (QueueInLoop b f l) = pending_functors l @ [f]"
  "wakeup_count (QueueInLoop True f l) = (if calling_pending_functors l then wakeup_count (Wakeup l) else wakeup_count l)"
  by (simp_all add: QueueInLoop_def QueueInLoop_push_def Let_def Wakeup_def)

lemmas loop_defs = Loop_check_def Loop_polled_def Loop_next_channel_def Loop_handled_def Loop_swap_def
  Loop_done_def do_act_def run_act_def Quit_def EventLoop_HandleRead_def QueueInLoop_push_def Let_def

lemma loop_step_inv:
  assumes "loop_step script s s'" "loop_inv s"
  shows "loop_inv s'"
  using assms
proof (induction rule: loop_step.induct)
  case (enter s s')
  then show ?case by (auto simp: loop_inv_def Loop_enter_def waking_def asserting_def split: if_splits)
next
  case (check s)
  then show ?case by (auto simp: loop_inv_def Loop_check_def waking_def)
next
  case (handle s a acts rest)
  then show ?case by (cases a) (auto simp: loop_inv_def loop_defs waking_def)
next
  case (act s a acts fs)
  then show ?case by (cases a) (auto simp: loop_inv_def loop_defs waking_def)
qed (auto simp: loop_inv_def loop_defs waking_def)

lemma loop_run_inv: "loop_run script s \<Longrightarrow> loop_inv s"
proof (induction rule: loop_run.induct)
  case init
  show ?case by (simp add: loop_inv_def loop_start_def EventLoop_new_def)
next
  case (more s s')
  then show ?case using loop_step_inv by blast
qed

section \<open>One iteration\<close>

text \<open>The loop thread on its own, from the return of \<^verbatim>\<open>Poll\<close> to the end of \<^verbatim>\<open>DoPendingFunctors\<close>.\<close>

abbreviation loop_steps :: "(functor_id \<Rightarrow> loop_act list) \<Rightarrow> loop_system \<Rightarrow> loop_system \<Rightarrow> bool" where
  "loop_steps script \<equiv> (loop_step script)\<^sup>*\<^sup>*"

lemma do_act_frame: "executed (do_act a s) = executed s" "queued (do_act a s) = queued s @ queued_by a"
  by (simp_all add: do_act_def)

lemma channel_acts_done:
  "pc s = Handling acts rest \<Longrightarrow> \<exists>s' qs. loop_steps script s s' \<and> pc s' = Handling [] rest \<and> executed s' = executed s \<and> queued s' = queued s @ qs"
proof (induction acts arbitrary: s)
  case (Cons a acts)
  let ?s1 = "(do_act a s)\<lparr>pc := Handling acts rest\<rparr>"
  have "loop_step script s ?s1" by (rule loop_step.handle [OF Cons.prems])
  moreover from Cons.IH [of ?s1] obtain s' qs where
    "loop_steps script ?s1 s'" "pc s' = Handling [] rest" "executed s' = executed ?s1" "queued s' = queued ?s1 @ qs" by auto
  ultimately show ?case by (auto simp: do_act_frame intro: converse_rtranclp_into_rtranclp)
qed auto

lemma channels_done:
  "pc s = Handling [] rest \<Longrightarrow> \<exists>s' qs. loop_steps script s s' \<and> pc s' = Swapping \<and> executed s' = executed s \<and> queued s' = queued s @ qs"
proof (induction rest arbitrary: s)
  case Nil
  from r_into_rtranclp [of "loop_step script", OF loop_step.handled [OF this]] show ?case
    by (intro exI [of _ "Loop_handled s"] exI [of _ "[]"]) (simp add: Loop_handled_def)
next
  case (Cons x rest)
  obtain p acts where x: "x = (p, acts)" by (cases x)
  let ?s1 = "Loop_next_channel p acts rest s"
  have step: "loop_step script s ?s1" using Cons.prems x by (auto intro: loop_step.next_channel)
  from channel_acts_done [of ?s1 acts rest script] obtain s2 qs where
    s2: "loop_steps script ?s1 s2" "pc s2 = Handling [] rest" "executed s2 = executed s" "queued s2 = queued s @ qs"
    by (auto simp: Loop_next_channel_def)
  from Cons.IH [OF s2(2)] obtain s' qs' where
    "loop_steps script s2 s'" "pc s' = Swapping" "executed s' = executed s2" "queued s' = queued s2 @ qs'" by blast
  with step s2 show ?case by (metis append.assoc converse_rtranclp_into_rtranclp rtranclp_trans)
qed

lemma functor_acts_done:
  "pc s = Running acts fs \<Longrightarrow> \<exists>s'. loop_steps script s s' \<and> pc s' = Running [] fs \<and> executed s' = executed s"
proof (induction acts arbitrary: s)
  case (Cons a acts)
  let ?s1 = "(do_act a s)\<lparr>pc := Running acts fs\<rparr>"
  have "loop_step script s ?s1" by (rule loop_step.act [OF Cons.prems])
  moreover from Cons.IH [of ?s1] obtain s' where "loop_steps script ?s1 s'" "pc s' = Running [] fs" "executed s' = executed ?s1" by auto
  ultimately show ?case by (auto simp: do_act_frame intro: converse_rtranclp_into_rtranclp)
qed auto

lemma functors_done:
  "pc s = Running [] fs \<Longrightarrow> \<exists>s'. loop_steps script s s' \<and> pc s' = Check_Quit \<and> executed s' = executed s @ fs"
proof (induction fs arbitrary: s)
  case Nil
  from r_into_rtranclp [of "loop_step script", OF loop_step.finish [OF this]] show ?case by (intro exI [of _ "Loop_done s"]) (simp add: Loop_done_def)
next
  case (Cons f fs)
  let ?s1 = "s\<lparr>pc := Running (filter (\<lambda>a. a \<noteq> Act_HandleRead) (script f)) fs, executed := executed s @ [f]\<rparr>"
  have step: "loop_step script s ?s1" by (rule loop_step.call [OF Cons.prems])
  from functor_acts_done [of ?s1 _ fs script] obtain s2 where
    s2: "loop_steps script ?s1 s2" "pc s2 = Running [] fs" "executed s2 = executed s @ [f]" by auto
  from Cons.IH [OF s2(2)] obtain s' where "loop_steps script s2 s'" "pc s' = Check_Quit" "executed s' = executed s2 @ fs" by blast
  with step s2 show ?case by (metis append.assoc append_Cons append_Nil converse_rtranclp_into_rtranclp rtranclp_trans)
qed

lemma loop_run_steps: "loop_steps script s s' \<Longrightarrow> loop_run script s \<Longrightarrow> loop_run script s'"
  by (induction rule: rtranclp_induct) (auto intro: loop_run.more)

lemma swapping_runs_all:
  assumes "loop_run script s" "pc s = Swapping"
  shows "\<exists>s'. loop_steps script s s' \<and> pc s' = Check_Quit \<and> executed s' = queued s"
proof -
  from functors_done [of "Loop_swap s" "pending_functors (sys_loop s)" script] obtain s' where
    "loop_steps script (Loop_swap s) s'" "pc s' = Check_Quit" "executed s' = executed s @ pending_functors (sys_loop s)"
    by (auto simp: Loop_swap_def)
  moreover have "queued s = executed s @ pending_functors (sys_loop s)"
    using loop_run_inv [OF assms(1)] assms(2) by (simp add: loop_inv_def)
  ultimately show ?thesis using loop_step.swap [OF assms(2)] by (metis converse_rtranclp_into_rtranclp)
qed

section \<open>Properties\<close>



text \<open>
  C8. Functors handed to the loop, from whatever thread, are run exactly once, in the order
  in which they were queued: at every moment the queued functors are those that have been
  started, followed by those of the batch that is running, followed by those still pending.
\<close>

theorem Functors_run_once_in_order:
  assumes "loop_run script s"
  shows "queued s = executed s @ in_progress (pc s) @ pending_functors (sys_loop s)"
  using loop_run_inv [OF assms] by (simp add: loop_inv_def)

theorem Functors_run_once_in_order_witness:
  "\<exists>s. loop_run (\<lambda>_. []) s \<and> queued s = [4] \<and> queued s = executed s @ in_progress (pc s) @ pending_functors (sys_loop s)"
proof -
  let ?s = "loop_start\<lparr>sys_loop := QueueInLoop_push 4 (sys_loop loop_start), owed_wakeups := owed_wakeups loop_start + 1,
     queued := queued loop_start @ [4]\<rparr>"
  have "loop_run (\<lambda>_. []) ?s" by (rule loop_run.more [OF loop_run.init loop_step.foreign_push])
  from this Functors_run_once_in_order [OF this] show ?thesis
    by (intro exI [of _ ?s]) (simp add: loop_start_def)
qed



text \<open>
  \<^verbatim>\<open>DoPendingFunctors\<close> runs every functor that was pending when it began and leaves pending exactly
  those that these functors queued, in order; if there are any, the wakeup descriptor has been
  written, so that the next \<^verbatim>\<open>Poll\<close> does not block.
\<close>

lemma DoPendingFunctors_leaves_requeued:
  assumes "\<forall>f \<in> set (pending_functors l). Act_HandleRead \<notin> set (script f)"
  shows "pending_functors (DoPendingFunctors script l) = concat (map (\<lambda>f. concat (map queued_by (script f))) (pending_functors l))
    \<and> (pending_functors (DoPendingFunctors script l) \<noteq> [] \<longrightarrow> wakeup_count (DoPendingFunctors script l) > 0)
    \<and> \<not> calling_pending_functors (DoPendingFunctors script l)"
proof -
  have acts: "pending_functors (fold run_act as m) = pending_functors m @ concat (map queued_by as)
      \<and> calling_pending_functors (fold run_act as m)
      \<and> (pending_functors (fold run_act as m) \<noteq> [] \<longrightarrow> wakeup_count (fold run_act as m) > 0)"
    if "calling_pending_functors m" "Act_HandleRead \<notin> set as" "pending_functors m \<noteq> [] \<longrightarrow> wakeup_count m > 0" for as m
    using that
  proof (induction as arbitrary: m)
    case (Cons a as)
    then show ?case by (cases a) (auto simp: run_act_def Quit_def Let_def)
  qed simp
  have fs: "pending_functors (fold (\<lambda>f. fold run_act (script f)) fs m)
        = pending_functors m @ concat (map (\<lambda>f. concat (map queued_by (script f))) fs)
      \<and> calling_pending_functors (fold (\<lambda>f. fold run_act (script f)) fs m)
      \<and> (pending_functors (fold (\<lambda>f. fold run_act (script f)) fs m) \<noteq> []
          \<longrightarrow> wakeup_count (fold (\<lambda>f. fold run_act (script f)) fs m) > 0)"
    if "calling_pending_functors m" "\<forall>f \<in> set fs. Act_HandleRead \<notin> set (script f)"
      "pending_functors m \<noteq> [] \<longrightarrow> wakeup_count m > 0" for fs m
    using that
  proof (induction fs arbitrary: m)
    case (Cons f fs)
    have "Act_HandleRead \<notin> set (script f)" using Cons.prems(2) by simp
    from acts [OF Cons.prems(1) this Cons.prems(3)] Cons show ?case by auto
  qed simp
  show ?thesis
    using fs [of "l\<lparr>calling_pending_functors := True, pending_functors := []\<rparr>" "pending_functors l"] assms
    by (simp add: DoPendingFunctors_def Let_def)
qed

text \<open>
  A functor that the loop thread queues before it calls \<^verbatim>\<open>Loop()\<close> gets no wakeup
  (\<^verbatim>\<open>QueueInLoop\<close> sees the loop thread outside \<^verbatim>\<open>DoPendingFunctors\<close>): the loop then enters \<^verbatim>\<open>Poll\<close> with
  the functor pending and nothing to wake it, for up to the poll timeout of ten seconds.
\<close>

lemma Queue_before_Loop_sleeps:
  "\<exists>s. Loop_enter (loop_start\<lparr>sys_loop := QueueInLoop True 4 (sys_loop loop_start)\<rparr>) = Inr s
     \<and> pc (Loop_check s) = Polling \<and> pending_functors (sys_loop (Loop_check s)) = [4]
     \<and> wakeup_count (sys_loop (Loop_check s)) = 0 \<and> owed_wakeups (Loop_check s) = 0"
  by (simp add: loop_start_def EventLoop_new_def Loop_enter_def Loop_check_def)

text \<open>
  A \<^verbatim>\<open>Quit()\<close> that comes before \<^verbatim>\<open>Loop()\<close> is forgotten: entering the loop clears \<^verbatim>\<open>quit_\<close>, so the
  loop goes on to poll.
\<close>

lemma Quit_before_Loop_is_lost:
  "\<exists>s. Loop_enter (loop_start\<lparr>sys_loop := Quit b (sys_loop loop_start)\<rparr>) = Inr s
     \<and> \<not> quit (sys_loop s) \<and> pc (Loop_check s) = Polling"
  by (simp add: loop_start_def EventLoop_new_def Loop_enter_def Loop_check_def Quit_def Let_def Wakeup_def)

end
