(* ===== verification/Endian.thy ===== *)
theory Endian
  imports Muduo_Prelude
begin

text \<open>
  \<^verbatim>\<open>muduo-cpp11/net/endian.h\<close>: the six conversions between host and network byte order. The
  host's byte order is the argument \<open>le\<close> (little-endian or not); \<^verbatim>\<open>htobeNN\<close> and \<^verbatim>\<open>beNNtoh\<close>
  of the C library swap the bytes on a little-endian host and do nothing on a big-endian one.
  The contract the clients use is the locale \<open>wire_int\<close>: the bytes in memory after a
  host-to-network conversion are the big-endian bytes of the value, and the conversion back
  recovers it.
\<close>

section \<open>Integers in memory\<close>

fun bytes_of_nat :: "nat \<Rightarrow> nat \<Rightarrow> char list" where
  "bytes_of_nat 0 x = []"
| "bytes_of_nat (Suc n) x = char_of x # bytes_of_nat n (x div 256)"

fun nat_of_bytes :: "char list \<Rightarrow> nat" where
  "nat_of_bytes [] = 0"
| "nat_of_bytes (c # cs) = of_char c + 256 * nat_of_bytes cs"

definition mem_of_word :: "bool \<Rightarrow> nat \<Rightarrow> 'a::len word \<Rightarrow> char list" where
  "mem_of_word le n x = (if le then bytes_of_nat n (unat x) else rev (bytes_of_nat n (unat x)))"

definition word_of_mem :: "bool \<Rightarrow> char list \<Rightarrow> 'a::len word" where
  "word_of_mem le cs = of_nat (nat_of_bytes (if le then cs else rev cs))"

definition be_bytes :: "nat \<Rightarrow> 'a::len word \<Rightarrow> char list" where
  "be_bytes n x = rev (bytes_of_nat n (unat x))"

definition bswap :: "nat \<Rightarrow> 'a::len word \<Rightarrow> 'a word" where
  "bswap n x = of_nat (nat_of_bytes (rev (bytes_of_nat n (unat x))))"

section \<open>The conversions\<close>

definition HostToNetwork64 :: "bool \<Rightarrow> 64 word \<Rightarrow> 64 word" where
  "HostToNetwork64 le host64 = (if le then bswap 8 host64 else host64)"

definition HostToNetwork32 :: "bool \<Rightarrow> 32 word \<Rightarrow> 32 word" where
  "HostToNetwork32 le host32 = (if le then bswap 4 host32 else host32)"

definition HostToNetwork16 :: "bool \<Rightarrow> 16 word \<Rightarrow> 16 word" where
  "HostToNetwork16 le host16 = (if le then bswap 2 host16 else host16)"

definition NetworkToHost64 :: "bool \<Rightarrow> 64 word \<Rightarrow> 64 word" where
  "NetworkToHost64 le net64 = (if le then bswap 8 net64 else net64)"

definition NetworkToHost32 :: "bool \<Rightarrow> 32 word \<Rightarrow> 32 word" where
  "NetworkToHost32 le net32 = (if le then bswap 4 net32 else net32)"

definition NetworkToHost16 :: "bool \<Rightarrow> 16 word \<Rightarrow> 16 word" where
  "NetworkToHost16 le net16 = (if le then bswap 2 net16 else net16)"

section \<open>Bytes and numbers\<close>

lemma length_bytes_of_nat [simp]: "length (bytes_of_nat n x) = n"
  by (induction n arbitrary: x) auto

lemma nat_of_bytes_of_nat: "nat_of_bytes (bytes_of_nat n x) = x mod 256 ^ n"
  by (induction n arbitrary: x) (simp_all add: mod_mult2_eq)

lemma char_of_low_byte: "char_of (of_char c + 256 * k :: nat) = c"
proof -
  have "char_of (of_char c + 256 * k :: nat) = char_of (of_char c :: nat)"
    by (simp only: char_of_quasi_inj mod_mult_self2)
  then show ?thesis by simp
qed

lemma of_char_less_256: "of_char c < (256 :: nat)"
proof -
  have "(of_char c :: nat) = of_char c mod 256"
    using of_char_of [of "of_char c :: nat"] by simp
  then show ?thesis by (metis mod_less_divisor zero_less_numeral)
qed

lemma bytes_of_nat_of_bytes: "bytes_of_nat (length cs) (nat_of_bytes cs) = cs"
  by (induction cs) (simp_all add: char_of_low_byte of_char_less_256)

lemma byte_digit_bound: "a < 256 \<Longrightarrow> b < m \<Longrightarrow> a + 256 * b < 256 * (m :: nat)"
  by linarith

lemma nat_of_bytes_less: "nat_of_bytes cs < 256 ^ length cs"
  by (induction cs) (simp_all add: byte_digit_bound of_char_less_256)

lemma length_mem_of_word [simp]: "length (mem_of_word le n x) = n"
  by (simp add: mem_of_word_def)

lemma length_be_bytes [simp]: "length (be_bytes n x) = n"
  by (simp add: be_bytes_def)

lemma unat_of_bytes:
  "LENGTH('a::len) = 8 * length cs \<Longrightarrow> unat (of_nat (nat_of_bytes cs) :: 'a word) = nat_of_bytes cs"
  using nat_of_bytes_less [of cs] by (simp add: unat_of_nat power_mult)

lemma of_bytes_of_word:
  "LENGTH('a::len) = 8 * n \<Longrightarrow> of_nat (nat_of_bytes (bytes_of_nat n (unat x))) = (x :: 'a word)"
  using unsigned_less [of x, where ?'a = nat] by (simp add: nat_of_bytes_of_nat power_mult)

section \<open>The wire format\<close>

text \<open>
  What a client of the conversions at one width relies on: \<open>h2n\<close> leaves the big-endian bytes
  of the value in memory on either kind of host, and \<open>n2h\<close> reads them back.
\<close>

locale wire_int =
  fixes le :: bool
    and n :: nat
    and h2n :: "'a::len word \<Rightarrow> 'a word"
    and n2h :: "'a word \<Rightarrow> 'a word"
  assumes width: "LENGTH('a) = 8 * n"
    and h2n_wire: "mem_of_word le n (h2n x) = be_bytes n x"
    and n2h_wire: "n2h (word_of_mem le (be_bytes n x)) = x"
begin

lemma decode_encode: "n2h (word_of_mem le (mem_of_word le n (h2n x))) = x"
  by (simp add: h2n_wire n2h_wire)

lemma n2h_h2n: "n2h (h2n x) = x"
proof -
  have "h2n x = word_of_mem le (mem_of_word le n (h2n x))"
    by (simp add: word_of_mem_def mem_of_word_def of_bytes_of_word width)
  with decode_encode [of x] show ?thesis by simp
qed

lemma be_bytes_inject: "be_bytes n (x :: 'a word) = be_bytes n y \<longleftrightarrow> x = y"
  by (metis n2h_wire)

end

lemma wire_int_swap:
  assumes "LENGTH('a::len) = 8 * n"
    and "\<And>x. h2n x = (if le then bswap n x else x)"
    and "\<And>x. n2h x = (if le then bswap n x else (x :: 'a word))"
  shows "wire_int le n h2n n2h"
proof
  fix x :: "'a word"
  have rt: "bytes_of_nat n (unat (bswap n x)) = rev (bytes_of_nat n (unat x))" for x :: "'a word"
    using bytes_of_nat_of_bytes [of "rev (bytes_of_nat n (unat x))"]
    by (simp add: bswap_def unat_of_bytes assms(1))
  show "mem_of_word le n (h2n x) = be_bytes n x"
    by (simp add: mem_of_word_def be_bytes_def assms(2) rt)
  have "bswap n (bswap n x) = x"
    by (simp add: bswap_def [of n "bswap n x"] rt of_bytes_of_word assms(1))
  then show "n2h (word_of_mem le (be_bytes n x)) = x"
    by (simp add: word_of_mem_def be_bytes_def assms(3) of_bytes_of_word assms(1)
        bswap_def [of n x, symmetric])
qed (rule assms(1))

interpretation net64: wire_int le 8 "HostToNetwork64 le" "NetworkToHost64 le" for le
  by (rule wire_int_swap) (simp_all add: HostToNetwork64_def NetworkToHost64_def)

interpretation net32: wire_int le 4 "HostToNetwork32 le" "NetworkToHost32 le" for le
  by (rule wire_int_swap) (simp_all add: HostToNetwork32_def NetworkToHost32_def)

interpretation net16: wire_int le 2 "HostToNetwork16 le" "NetworkToHost16 le" for le
  by (rule wire_int_swap) (simp_all add: HostToNetwork16_def NetworkToHost16_def)

interpretation net8: wire_int le 1 "\<lambda>x :: 8 word. x" "\<lambda>x. x" for le
  by unfold_locales
    (simp_all add: mem_of_word_def be_bytes_def word_of_mem_def of_bytes_of_word [of 1, simplified])

end
