(* ===== verification/String_Piece.thy ===== *)
theory String_Piece
  imports Muduo_Prelude "HOL-Library.List_Lexorder" "HOL-Library.Char_ord"
begin

text \<open>
  \<^verbatim>\<open>muduo-cpp11/base/string_piece.h\<close>: a pointer and an \<^verbatim>\<open>int\<close> length into characters owned by
  someone else. The model keeps the array the pointer points into, the offset of \<^verbatim>\<open>ptr_\<close> in it
  and \<^verbatim>\<open>length_\<close>; reading outside the array is undefined behaviour. The lemmas say when a
  piece is valid, what text it denotes (\<open>sp_view\<close>) and that every comparison operator is the
  lexicographic order of the texts, characters compared as unsigned bytes.
\<close>

section \<open>Pieces\<close>

record string_piece =
  sp_obj :: "char list"
  sp_ptr :: int
  sp_length :: int

definition strlen :: "char list \<Rightarrow> nat outcome" where
  "strlen s = (if CHR 0x00 \<in> set s then Inr (length (takeWhile (\<lambda>c. c \<noteq> CHR 0x00) s))
               else Inl (UndefinedBehaviour ''strlen''))"

definition StringPiece_null :: string_piece where
  "StringPiece_null = \<lparr>sp_obj = [], sp_ptr = 0, sp_length = 0\<rparr>"

definition StringPiece_cstr :: "char list \<Rightarrow> string_piece outcome" where
  "StringPiece_cstr str =
     and_then (strlen str) (\<lambda>n. Inr \<lparr>sp_obj = str, sp_ptr = 0, sp_length = int_of_size n\<rparr>)"

definition StringPiece_string :: "char list \<Rightarrow> string_piece" where
  "StringPiece_string str = \<lparr>sp_obj = str, sp_ptr = 0, sp_length = int_of_size (length str)\<rparr>"

definition StringPiece_range :: "char list \<Rightarrow> int \<Rightarrow> int \<Rightarrow> string_piece" where
  "StringPiece_range obj offset len = \<lparr>sp_obj = obj, sp_ptr = offset, sp_length = len\<rparr>"

definition StringPiece_size :: "string_piece \<Rightarrow> int" where
  "StringPiece_size sp = sp_length sp"

definition StringPiece_empty :: "string_piece \<Rightarrow> bool" where
  "StringPiece_empty sp \<longleftrightarrow> sp_length sp = 0"

definition StringPiece_clear :: "string_piece \<Rightarrow> string_piece" where
  "StringPiece_clear sp = StringPiece_null"

definition StringPiece_set :: "string_piece \<Rightarrow> char list \<Rightarrow> int \<Rightarrow> int \<Rightarrow> string_piece" where
  "StringPiece_set sp obj buffer len = sp\<lparr>sp_obj := obj, sp_ptr := buffer, sp_length := len\<rparr>"

definition StringPiece_set_cstr :: "string_piece \<Rightarrow> char list \<Rightarrow> string_piece outcome" where
  "StringPiece_set_cstr sp str =
     and_then (strlen str) (\<lambda>n. Inr (sp\<lparr>sp_obj := str, sp_ptr := 0, sp_length := int_of_size n\<rparr>))"

definition StringPiece_at :: "string_piece \<Rightarrow> int \<Rightarrow> char outcome" where
  "StringPiece_at sp i =
     (if 0 \<le> sp_ptr sp + i \<and> sp_ptr sp + i < int (length (sp_obj sp))
      then Inr (sp_obj sp ! nat (sp_ptr sp + i))
      else Inl (UndefinedBehaviour ''operator[]''))"

definition StringPiece_remove_prefix :: "string_piece \<Rightarrow> int \<Rightarrow> string_piece outcome" where
  "StringPiece_remove_prefix sp n =
     (if 0 \<le> sp_ptr sp + n \<and> sp_ptr sp + n \<le> int (length (sp_obj sp))
      then Inr (sp\<lparr>sp_ptr := sp_ptr sp + n, sp_length := sp_length sp - n\<rparr>)
      else Inl (UndefinedBehaviour ''remove_prefix''))"

definition StringPiece_remove_suffix :: "string_piece \<Rightarrow> int \<Rightarrow> string_piece" where
  "StringPiece_remove_suffix sp n = sp\<lparr>sp_length := sp_length sp - n\<rparr>"

text \<open>Reading \<open>n\<close> bytes from \<^verbatim>\<open>ptr_\<close>, as \<^verbatim>\<open>memcmp\<close> and the \<^verbatim>\<open>std::string\<close> constructor do.\<close>

definition sp_read :: "string_piece \<Rightarrow> int \<Rightarrow> char list outcome" where
  "sp_read sp n =
     (if 0 \<le> n \<and> 0 \<le> sp_ptr sp \<and> sp_ptr sp + n \<le> int (length (sp_obj sp))
      then Inr (take (nat n) (drop (nat (sp_ptr sp)) (sp_obj sp)))
      else Inl (UndefinedBehaviour ''read outside the object''))"

fun memcmp :: "char list \<Rightarrow> char list \<Rightarrow> int" where
  "memcmp (a # as) (b # bs) =
     (if a < b then -1 else if b < a then 1 else memcmp as bs)"
| "memcmp _ _ = 0"

definition sp_memcmp :: "string_piece \<Rightarrow> string_piece \<Rightarrow> int \<Rightarrow> int outcome" where
  "sp_memcmp x y n = and_then (sp_read x n) (\<lambda>a. and_then (sp_read y n) (\<lambda>b. Inr (memcmp a b)))"

definition StringPiece_eq :: "string_piece \<Rightarrow> string_piece \<Rightarrow> bool outcome" where
  "StringPiece_eq x y =
     (if sp_length x = sp_length y
      then and_then (sp_memcmp x y (sp_length x)) (\<lambda>r. Inr (r = 0))
      else Inr False)"

definition StringPiece_neq :: "string_piece \<Rightarrow> string_piece \<Rightarrow> bool outcome" where
  "StringPiece_neq x y = and_then (StringPiece_eq x y) (\<lambda>b. Inr (\<not> b))"

definition binary_predicate ::
  "(int \<Rightarrow> int \<Rightarrow> bool) \<Rightarrow> (int \<Rightarrow> int \<Rightarrow> bool) \<Rightarrow> string_piece \<Rightarrow> string_piece \<Rightarrow> bool outcome" where
  "binary_predicate cmp auxcmp x y =
     and_then (sp_memcmp x y (if sp_length x < sp_length y then sp_length x else sp_length y))
       (\<lambda>r. Inr (auxcmp r 0 \<or> r = 0 \<and> cmp (sp_length x) (sp_length y)))"

definition StringPiece_less :: "string_piece \<Rightarrow> string_piece \<Rightarrow> bool outcome" where
  "StringPiece_less = binary_predicate (<) (<)"

definition StringPiece_less_eq :: "string_piece \<Rightarrow> string_piece \<Rightarrow> bool outcome" where
  "StringPiece_less_eq = binary_predicate (\<le>) (<)"

definition StringPiece_greater_eq :: "string_piece \<Rightarrow> string_piece \<Rightarrow> bool outcome" where
  "StringPiece_greater_eq = binary_predicate (\<ge>) (>)"

definition StringPiece_greater :: "string_piece \<Rightarrow> string_piece \<Rightarrow> bool outcome" where
  "StringPiece_greater = binary_predicate (>) (>)"

definition StringPiece_compare :: "string_piece \<Rightarrow> string_piece \<Rightarrow> int outcome" where
  "StringPiece_compare x y =
     and_then (sp_memcmp x y (if sp_length x < sp_length y then sp_length x else sp_length y))
       (\<lambda>r. if r = 0
            then if sp_length x < sp_length y then Inr (-1)
                 else if sp_length x > sp_length y then Inr 1 else Inr r
            else Inr r)"

definition StringPiece_as_string :: "string_piece \<Rightarrow> char list outcome" where
  "StringPiece_as_string sp =
     (if vector_max_size < size_of_int (sp_length sp) then Inl LengthError
      else sp_read sp (sp_length sp))"

text \<open>\<^verbatim>\<open>target->assign(ptr_, length_)\<close>: the new value of the target, whatever it was.\<close>

definition CopyToString :: "string_piece \<Rightarrow> char list \<Rightarrow> char list outcome" where
  "CopyToString sp target =
     (if vector_max_size < size_of_int (sp_length sp) then Inl LengthError
      else sp_read sp (sp_length sp))"

definition StringPiece_starts_with :: "string_piece \<Rightarrow> string_piece \<Rightarrow> bool outcome" where
  "StringPiece_starts_with sp x =
     (if sp_length sp \<ge> sp_length x
      then and_then (sp_memcmp sp x (sp_length x)) (\<lambda>r. Inr (r = 0))
      else Inr False)"

section \<open>Validity and the text of a piece\<close>

definition sp_valid :: "string_piece \<Rightarrow> bool" where
  "sp_valid sp \<longleftrightarrow> 0 \<le> sp_ptr sp \<and> 0 \<le> sp_length sp
     \<and> sp_ptr sp + sp_length sp \<le> int (length (sp_obj sp)) \<and> sp_length sp < 2 ^ 31"

definition sp_view :: "string_piece \<Rightarrow> char list" where
  "sp_view sp = take (nat (sp_length sp)) (drop (nat (sp_ptr sp)) (sp_obj sp))"

lemma length_sp_view: "sp_valid sp \<Longrightarrow> int (length (sp_view sp)) = sp_length sp"
  by (auto simp: sp_valid_def sp_view_def min_def)

lemma sp_read_view:
  "sp_valid sp \<Longrightarrow> 0 \<le> n \<Longrightarrow> n \<le> sp_length sp \<Longrightarrow> sp_read sp n = Inr (take (nat n) (sp_view sp))"
  by (auto simp: sp_valid_def sp_view_def sp_read_def min_def)

lemma sp_read_all: "sp_valid sp \<Longrightarrow> sp_read sp (sp_length sp) = Inr (sp_view sp)"
  using sp_read_view [of sp "sp_length sp"] by (auto simp: sp_valid_def sp_view_def)

lemma valid_StringPiece_string:
  "length str < 2 ^ 31 \<Longrightarrow> sp_valid (StringPiece_string str) \<and> sp_view (StringPiece_string str) = str"
  by (simp add: sp_valid_def sp_view_def StringPiece_string_def machine_simps)

text \<open>The order on prefixes of equal length is what \<open>memcmp\<close> computes.\<close>

abbreviation common_prefix_cmp :: "char list \<Rightarrow> char list \<Rightarrow> int" where
  "common_prefix_cmp a b \<equiv>
     memcmp (take (min (length a) (length b)) a) (take (min (length a) (length b)) b)"

lemma Nil_less_iff: "[] < x \<longleftrightarrow> x \<noteq> ([] :: char list)"
  by (cases x) auto

lemma memcmp_less:
  "common_prefix_cmp a b < 0 \<or> common_prefix_cmp a b = 0 \<and> length a < length b \<longleftrightarrow> a < b"
  by (induction a b rule: memcmp.induct) (auto simp: Nil_less_iff)

lemma memcmp_greater:
  "common_prefix_cmp a b > 0 \<or> common_prefix_cmp a b = 0 \<and> length a > length b \<longleftrightarrow> b < a"
  by (induction a b rule: memcmp.induct) (auto simp: Nil_less_iff)

lemma memcmp_sign: "memcmp a b \<in> {-1, 0, 1}"
  by (induction a b rule: memcmp.induct) auto

lemma memcmp_same_length: "length a = length b \<Longrightarrow> memcmp a b = 0 \<longleftrightarrow> a = b"
  by (induction a b rule: memcmp.induct) auto

lemma sp_memcmp_view:
  assumes "sp_valid x" "sp_valid y"
  shows "sp_memcmp x y (if sp_length x < sp_length y then sp_length x else sp_length y) =
    Inr (common_prefix_cmp (sp_view x) (sp_view y))"
proof -
  let ?m = "if sp_length x < sp_length y then sp_length x else sp_length y"
  have "nat ?m = min (length (sp_view x)) (length (sp_view y))"
    using assms by (auto simp: min_def dest!: length_sp_view)
  moreover have "0 \<le> ?m" "?m \<le> sp_length x" "?m \<le> sp_length y"
    using assms by (auto simp: sp_valid_def)
  ultimately show ?thesis
    by (simp only: sp_memcmp_def sp_read_view assms and_then_Inr)
qed

text \<open>
  The six comparison operators of \<^verbatim>\<open>StringPiece\<close> and \<^verbatim>\<open>compare\<close> read only valid memory and
  are one total order: the lexicographic order of the texts as unsigned bytes.
\<close>

lemma StringPiece_comparisons_lexicographic:
  assumes "sp_valid x" and "sp_valid y"
  shows "StringPiece_eq x y = Inr (sp_view x = sp_view y)
    \<and> StringPiece_neq x y = Inr (sp_view x \<noteq> sp_view y)
    \<and> StringPiece_less x y = Inr (sp_view x < sp_view y)
    \<and> StringPiece_less_eq x y = Inr (sp_view x \<le> sp_view y)
    \<and> StringPiece_greater_eq x y = Inr (sp_view y \<le> sp_view x)
    \<and> StringPiece_greater x y = Inr (sp_view y < sp_view x)
    \<and> StringPiece_compare x y =
        Inr (if sp_view x < sp_view y then -1 else if sp_view x = sp_view y then 0 else 1)"
proof -
  let ?r = "common_prefix_cmp (sp_view x) (sp_view y)"
  have len: "sp_length x = int (length (sp_view x))" "sp_length y = int (length (sp_view y))"
    using assms by (simp_all add: length_sp_view)
  note lt = memcmp_less [of "sp_view x" "sp_view y"]
  note gt = memcmp_greater [of "sp_view x" "sp_view y"]
  note cmp = sp_memcmp_view [OF assms]
  have eq: "StringPiece_eq x y = Inr (sp_view x = sp_view y)"
  proof (cases "length (sp_view x) = length (sp_view y)")
    case True
    with cmp len memcmp_same_length [OF True] show ?thesis
      by (simp add: StringPiece_eq_def)
  next
    case False
    with len show ?thesis by (auto simp: StringPiece_eq_def)
  qed
  moreover have "StringPiece_less x y = Inr (sp_view x < sp_view y)"
    unfolding StringPiece_less_def binary_predicate_def cmp using lt len by auto
  moreover have "StringPiece_greater x y = Inr (sp_view y < sp_view x)"
    unfolding StringPiece_greater_def binary_predicate_def cmp using gt len by auto
  moreover have "StringPiece_less_eq x y = Inr (sp_view x \<le> sp_view y)"
    unfolding StringPiece_less_eq_def binary_predicate_def cmp using gt len
    by (auto simp: not_less [symmetric])
  moreover have "StringPiece_greater_eq x y = Inr (sp_view y \<le> sp_view x)"
    unfolding StringPiece_greater_eq_def binary_predicate_def cmp using lt len
    by (auto simp: not_less [symmetric])
  moreover have "StringPiece_compare x y =
      Inr (if sp_view x < sp_view y then -1 else if sp_view x = sp_view y then 0 else 1)"
    unfolding StringPiece_compare_def cmp
    using lt gt len memcmp_sign [of "take (min (length (sp_view x)) (length (sp_view y))) (sp_view x)"
        "take (min (length (sp_view x)) (length (sp_view y))) (sp_view y)"]
    by auto
  ultimately show ?thesis by (simp add: StringPiece_neq_def)
qed

lemma StringPiece_comparisons_lexicographic_witness:
  "sp_valid (StringPiece_string ''GET'') \<and> sp_valid (StringPiece_range ''xGETa'' 1 4)
   \<and> StringPiece_less (StringPiece_string ''GET'') (StringPiece_range ''xGETa'' 1 4) = Inr True"
proof -
  have v: "sp_valid (StringPiece_string ''GET'')" "sp_valid (StringPiece_range ''xGETa'' 1 4)"
    by (simp_all add: sp_valid_def StringPiece_string_def StringPiece_range_def int_of_size_def)
  have "sp_view (StringPiece_string ''GET'') < sp_view (StringPiece_range ''xGETa'' 1 4)"
    by (simp add: sp_view_def StringPiece_string_def StringPiece_range_def int_of_size_def)
  with StringPiece_comparisons_lexicographic [OF v] v show ?thesis by simp
qed

section \<open>Pieces as strings\<close>

lemma as_string_view: "sp_valid sp \<Longrightarrow> StringPiece_as_string sp = Inr (sp_view sp)"
  by (simp add: StringPiece_as_string_def sp_read_all)
     (auto simp: sp_valid_def size_of_int_def vector_max_size_def)

lemma CopyToString_view: "sp_valid sp \<Longrightarrow> CopyToString sp target = Inr (sp_view sp)"
  by (simp add: CopyToString_def sp_read_all)
     (auto simp: sp_valid_def size_of_int_def vector_max_size_def)

lemma starts_with_prefix:
  assumes "sp_valid sp" "sp_valid x"
  shows "StringPiece_starts_with sp x = Inr (\<exists>t. sp_view sp = sp_view x @ t)"
proof (cases "sp_length x \<le> sp_length sp")
  case True
  have "0 \<le> sp_length x" using assms by (simp add: sp_valid_def)
  then have "sp_memcmp sp x (sp_length x) =
      Inr (memcmp (take (length (sp_view x)) (sp_view sp)) (sp_view x))"
    using True assms by (simp add: sp_memcmp_def sp_read_view sp_read_all flip: length_sp_view)
  moreover have "length (sp_view x) \<le> length (sp_view sp)"
    using True assms by (simp flip: length_sp_view)
  ultimately show ?thesis using True
    by (auto simp: StringPiece_starts_with_def memcmp_same_length)
       (metis append_take_drop_id)
next
  case False
  have "length (sp_view sp) < length (sp_view x)"
    using False assms by (simp flip: length_sp_view)
  with False show ?thesis by (auto simp: StringPiece_starts_with_def)
qed

lemma remove_prefix_view:
  assumes "sp_valid sp" "0 \<le> n" "n \<le> sp_length sp"
  shows "\<exists>sp'. StringPiece_remove_prefix sp n = Inr sp' \<and> sp_valid sp'
    \<and> sp_view sp' = drop (nat n) (sp_view sp)"
  using assms
  by (auto simp: StringPiece_remove_prefix_def sp_valid_def sp_view_def drop_take nat_diff_distrib
      nat_add_distrib add.commute)

end
