(* ===== verification/Buffer.thy ===== *)
theory Buffer
  imports Endian String_Piece
begin

text \<open>
  \<^verbatim>\<open>muduo-cpp11/net/buffer.h\<close> and \<^verbatim>\<open>buffer.cpp\<close>: the byte buffer of every connection. The state
  is the vector and the two indices; a \<^verbatim>\<open>const char*\<close> into the buffer is the offset from
  \<^verbatim>\<open>begin()\<close>. The text a buffer holds is \<open>content\<close>, its well-formedness \<open>wf_buffer\<close>. The
  contract that clients use is the locale \<open>byte_queue\<close>: appending adds at the end, retrieving
  drops from the front, and no assertion fails while the vector can hold the bytes.
\<close>

section \<open>State and accessors\<close>

record buffer =
  buf_bytes :: "char list"
  reader_index :: nat
  writer_index :: nat

definition kCheapPrepend :: nat where "kCheapPrepend = 8"

definition kInitialSize :: nat where "kInitialSize = 1024"

definition kCRLF :: "char list" where "kCRLF = [CHR 0x0D, CHR 0x0A]"

definition ReadableBytes :: "buffer \<Rightarrow> nat" where
  "ReadableBytes b = size_sub (writer_index b) (reader_index b)"

definition WritableBytes :: "buffer \<Rightarrow> nat" where
  "WritableBytes b = size_sub (length (buf_bytes b)) (writer_index b)"

definition PrependableBytes :: "buffer \<Rightarrow> nat" where
  "PrependableBytes b = reader_index b"

definition Peek :: "buffer \<Rightarrow> nat" where
  "Peek b = reader_index b"

definition BeginWrite :: "buffer \<Rightarrow> nat" where
  "BeginWrite b = writer_index b"

definition Buffer_new :: "nat \<Rightarrow> buffer outcome" where
  "Buffer_new initial_size =
     and_then (vector_resize (size_add kCheapPrepend initial_size) []) (\<lambda>v.
       let b = \<lparr>buf_bytes = v, reader_index = kCheapPrepend, writer_index = kCheapPrepend\<rparr>
       in asserting (ReadableBytes b = 0) ''ReadableBytes() == 0''
          (asserting (WritableBytes b = initial_size) ''WritableBytes() == initial_size''
          (asserting (PrependableBytes b = kCheapPrepend) ''PrependableBytes() == kCheapPrepend''
          (Inr b))))"

definition Buffer_swap :: "buffer \<Rightarrow> buffer \<Rightarrow> buffer \<times> buffer" where
  "Buffer_swap this rhs =
     (\<lparr>buf_bytes = buf_bytes rhs, reader_index = reader_index rhs, writer_index = writer_index rhs\<rparr>,
      \<lparr>buf_bytes = buf_bytes this, reader_index = reader_index this, writer_index = writer_index this\<rparr>)"

section \<open>Searching\<close>

definition FindCRLF_from :: "buffer \<Rightarrow> nat \<Rightarrow> nat option outcome" where
  "FindCRLF_from b start =
     asserting (Peek b \<le> start) ''Peek() <= start''
     (asserting (start \<le> BeginWrite b) ''start <= BeginWrite()''
     (let crlf = std_search (buf_bytes b) start (BeginWrite b) kCRLF
      in Inr (if crlf = BeginWrite b then None else Some crlf)))"

definition FindCRLF :: "buffer \<Rightarrow> nat option" where
  "FindCRLF b =
     (let crlf = std_search (buf_bytes b) (Peek b) (BeginWrite b) kCRLF
      in if crlf = BeginWrite b then None else Some crlf)"

definition memchr :: "char list \<Rightarrow> nat \<Rightarrow> char \<Rightarrow> nat \<Rightarrow> nat option" where
  "memchr v s c n = (let p = std_find v s (s + n) c in if p = s + n then None else Some p)"

definition FindEOL :: "buffer \<Rightarrow> nat option" where
  "FindEOL b = memchr (buf_bytes b) (Peek b) (CHR 0x0A) (ReadableBytes b)"

definition FindEOL_from :: "buffer \<Rightarrow> nat \<Rightarrow> nat option outcome" where
  "FindEOL_from b start =
     asserting (Peek b \<le> start) ''Peek() <= start''
     (asserting (start \<le> BeginWrite b) ''start <= BeginWrite()''
     (Inr (memchr (buf_bytes b) start (CHR 0x0A) (BeginWrite b - start))))"

section \<open>Retrieving\<close>

definition RetrieveAll :: "buffer \<Rightarrow> buffer" where
  "RetrieveAll b = b\<lparr>reader_index := kCheapPrepend, writer_index := kCheapPrepend\<rparr>"

definition Retrieve :: "buffer \<Rightarrow> nat \<Rightarrow> buffer outcome" where
  "Retrieve b len =
     asserting (len \<le> ReadableBytes b) ''len <= ReadableBytes()''
     (if len < ReadableBytes b then Inr (b\<lparr>reader_index := size_add (reader_index b) len\<rparr>)
      else Inr (RetrieveAll b))"

definition RetrieveUntil :: "buffer \<Rightarrow> nat \<Rightarrow> buffer outcome" where
  "RetrieveUntil b end_ptr =
     asserting (Peek b \<le> end_ptr) ''Peek() <= end''
     (asserting (end_ptr \<le> BeginWrite b) ''end <= BeginWrite()''
     (Retrieve b (end_ptr - Peek b)))"

definition RetrieveInt64 :: "buffer \<Rightarrow> buffer outcome" where "RetrieveInt64 b = Retrieve b 8"

definition RetrieveInt32 :: "buffer \<Rightarrow> buffer outcome" where "RetrieveInt32 b = Retrieve b 4"

definition RetrieveInt16 :: "buffer \<Rightarrow> buffer outcome" where "RetrieveInt16 b = Retrieve b 2"

definition RetrieveInt8 :: "buffer \<Rightarrow> buffer outcome" where "RetrieveInt8 b = Retrieve b 1"

text \<open>\<^verbatim>\<open>std::string(Peek(), len)\<close> and \<^verbatim>\<open>memcpy\<close> read \<open>len\<close> bytes of the vector.\<close>

definition read_bytes :: "buffer \<Rightarrow> nat \<Rightarrow> char list outcome" where
  "read_bytes b len =
     (if Peek b + len \<le> length (buf_bytes b)
      then Inr (range_of (buf_bytes b) (Peek b) (Peek b + len))
      else Inl (UndefinedBehaviour ''read past the vector''))"

definition RetrieveAsString :: "buffer \<Rightarrow> nat \<Rightarrow> (char list \<times> buffer) outcome" where
  "RetrieveAsString b len =
     asserting (len \<le> ReadableBytes b) ''len <= ReadableBytes()''
     (and_then (read_bytes b len) (\<lambda>result.
      and_then (Retrieve b len) (\<lambda>b'. Inr (result, b'))))"

definition RetrieveAllAsString :: "buffer \<Rightarrow> (char list \<times> buffer) outcome" where
  "RetrieveAllAsString b = RetrieveAsString b (ReadableBytes b)"

definition ToStringPiece :: "buffer \<Rightarrow> string_piece" where
  "ToStringPiece b =
     StringPiece_range (buf_bytes b) (int (Peek b)) (int_of_size (ReadableBytes b))"

section \<open>Appending\<close>

definition MakeSpace :: "buffer \<Rightarrow> nat \<Rightarrow> buffer outcome" where
  "MakeSpace b len =
     (if size_add (WritableBytes b) (PrependableBytes b) < size_add len kCheapPrepend
      then and_then (vector_resize (size_add (writer_index b) len) (buf_bytes b))
             (\<lambda>v. Inr (b\<lparr>buf_bytes := v\<rparr>))
      else asserting (kCheapPrepend < reader_index b) ''kCheapPrepend < reader_index_''
        (let readable = ReadableBytes b;
             b' = b\<lparr>buf_bytes := overwrite kCheapPrepend
                      (range_of (buf_bytes b) (reader_index b) (writer_index b)) (buf_bytes b),
                    reader_index := kCheapPrepend,
                    writer_index := size_add kCheapPrepend readable\<rparr>
         in asserting (readable = ReadableBytes b') ''readable == ReadableBytes()'' (Inr b')))"

definition EnsureWritableBytes :: "buffer \<Rightarrow> nat \<Rightarrow> buffer outcome" where
  "EnsureWritableBytes b len =
     and_then (if WritableBytes b < len then MakeSpace b len else Inr b) (\<lambda>b'.
     asserting (len \<le> WritableBytes b') ''WritableBytes() >= len'' (Inr b'))"

definition HasWritten :: "buffer \<Rightarrow> nat \<Rightarrow> buffer outcome" where
  "HasWritten b len =
     asserting (len \<le> WritableBytes b) ''len <= WritableBytes()''
     (Inr (b\<lparr>writer_index := size_add (writer_index b) len\<rparr>))"

definition Unwrite :: "buffer \<Rightarrow> nat \<Rightarrow> buffer outcome" where
  "Unwrite b len =
     asserting (len \<le> ReadableBytes b) ''len <= ReadableBytes()''
     (Inr (b\<lparr>writer_index := size_sub (writer_index b) len\<rparr>))"

text \<open>\<^verbatim>\<open>std::copy(data, data + len, begin() + at)\<close>: both ranges must exist.\<close>

definition copy_in :: "buffer \<Rightarrow> nat \<Rightarrow> char list \<Rightarrow> nat \<Rightarrow> buffer outcome" where
  "copy_in b at data len =
     (if length data < len \<or> length (buf_bytes b) < at + len
      then Inl (UndefinedBehaviour ''copy out of range'')
      else Inr (b\<lparr>buf_bytes := overwrite at (take len data) (buf_bytes b)\<rparr>))"

definition Append :: "buffer \<Rightarrow> char list \<Rightarrow> nat \<Rightarrow> buffer outcome" where
  "Append b data len =
     and_then (EnsureWritableBytes b len) (\<lambda>b1.
     and_then (copy_in b1 (BeginWrite b1) data len) (\<lambda>b2.
     HasWritten b2 len))"

definition Append_piece :: "buffer \<Rightarrow> string_piece \<Rightarrow> buffer outcome" where
  "Append_piece b str = Append b (drop (nat (sp_ptr str)) (sp_obj str)) (size_of_int (sp_length str))"

definition Prepend :: "buffer \<Rightarrow> char list \<Rightarrow> nat \<Rightarrow> buffer outcome" where
  "Prepend b data len =
     asserting (len \<le> PrependableBytes b) ''len <= PrependableBytes()''
     (let b1 = b\<lparr>reader_index := size_sub (reader_index b) len\<rparr>
      in copy_in b1 (reader_index b1) data len)"

definition Shrink :: "buffer \<Rightarrow> nat \<Rightarrow> buffer outcome" where
  "Shrink b reserve =
     and_then (Buffer_new kInitialSize) (\<lambda>other.
     and_then (EnsureWritableBytes other (size_add (ReadableBytes b) reserve)) (\<lambda>other1.
     and_then (Append_piece other1 (ToStringPiece b)) (\<lambda>other2.
     Inr (fst (Buffer_swap b other2)))))"

section \<open>Integers in network byte order\<close>

definition AppendInt64 :: "bool \<Rightarrow> buffer \<Rightarrow> 64 word \<Rightarrow> buffer outcome" where
  "AppendInt64 le b x = (let be64 = HostToNetwork64 le x in Append b (mem_of_word le 8 be64) 8)"

definition AppendInt32 :: "bool \<Rightarrow> buffer \<Rightarrow> 32 word \<Rightarrow> buffer outcome" where
  "AppendInt32 le b x = (let be32 = HostToNetwork32 le x in Append b (mem_of_word le 4 be32) 4)"

definition AppendInt16 :: "bool \<Rightarrow> buffer \<Rightarrow> 16 word \<Rightarrow> buffer outcome" where
  "AppendInt16 le b x = (let be16 = HostToNetwork16 le x in Append b (mem_of_word le 2 be16) 2)"

definition AppendInt8 :: "bool \<Rightarrow> buffer \<Rightarrow> 8 word \<Rightarrow> buffer outcome" where
  "AppendInt8 le b x = Append b (mem_of_word le 1 x) 1"

definition PeekInt64 :: "bool \<Rightarrow> buffer \<Rightarrow> 64 word outcome" where
  "PeekInt64 le b =
     asserting (8 \<le> ReadableBytes b) ''ReadableBytes() >= sizeof(int64_t)''
     (and_then (read_bytes b 8) (\<lambda>m. Inr (NetworkToHost64 le (word_of_mem le m))))"

definition PeekInt32 :: "bool \<Rightarrow> buffer \<Rightarrow> 32 word outcome" where
  "PeekInt32 le b =
     asserting (4 \<le> ReadableBytes b) ''ReadableBytes() >= sizeof(int32_t)''
     (and_then (read_bytes b 4) (\<lambda>m. Inr (NetworkToHost32 le (word_of_mem le m))))"

definition PeekInt16 :: "bool \<Rightarrow> buffer \<Rightarrow> 16 word outcome" where
  "PeekInt16 le b =
     asserting (2 \<le> ReadableBytes b) ''ReadableBytes() >= sizeof(int16_t)''
     (and_then (read_bytes b 2) (\<lambda>m. Inr (NetworkToHost16 le (word_of_mem le m))))"

definition PeekInt8 :: "bool \<Rightarrow> buffer \<Rightarrow> 8 word outcome" where
  "PeekInt8 le b =
     asserting (1 \<le> ReadableBytes b) ''ReadableBytes() >= sizeof(int8_t)''
     (and_then (read_bytes b 1) (\<lambda>m. Inr (word_of_mem le m)))"

definition ReadInt64 :: "bool \<Rightarrow> buffer \<Rightarrow> (64 word \<times> buffer) outcome" where
  "ReadInt64 le b =
     and_then (PeekInt64 le b) (\<lambda>result. and_then (RetrieveInt64 b) (\<lambda>b'. Inr (result, b')))"

definition ReadInt32 :: "bool \<Rightarrow> buffer \<Rightarrow> (32 word \<times> buffer) outcome" where
  "ReadInt32 le b =
     and_then (PeekInt32 le b) (\<lambda>result. and_then (RetrieveInt32 b) (\<lambda>b'. Inr (result, b')))"

definition ReadInt16 :: "bool \<Rightarrow> buffer \<Rightarrow> (16 word \<times> buffer) outcome" where
  "ReadInt16 le b =
     and_then (PeekInt16 le b) (\<lambda>result. and_then (RetrieveInt16 b) (\<lambda>b'. Inr (result, b')))"

definition ReadInt8 :: "bool \<Rightarrow> buffer \<Rightarrow> (8 word \<times> buffer) outcome" where
  "ReadInt8 le b =
     and_then (PeekInt8 le b) (\<lambda>result. and_then (RetrieveInt8 b) (\<lambda>b'. Inr (result, b')))"

definition PrependInt64 :: "bool \<Rightarrow> buffer \<Rightarrow> 64 word \<Rightarrow> buffer outcome" where
  "PrependInt64 le b x = (let be64 = HostToNetwork64 le x in Prepend b (mem_of_word le 8 be64) 8)"

definition PrependInt32 :: "bool \<Rightarrow> buffer \<Rightarrow> 32 word \<Rightarrow> buffer outcome" where
  "PrependInt32 le b x = (let be32 = HostToNetwork32 le x in Prepend b (mem_of_word le 4 be32) 4)"

definition PrependInt16 :: "bool \<Rightarrow> buffer \<Rightarrow> 16 word \<Rightarrow> buffer outcome" where
  "PrependInt16 le b x = (let be16 = HostToNetwork16 le x in Prepend b (mem_of_word le 2 be16) 2)"

definition PrependInt8 :: "bool \<Rightarrow> buffer \<Rightarrow> 8 word \<Rightarrow> buffer outcome" where
  "PrependInt8 le b x = Prepend b (mem_of_word le 1 x) 1"

section \<open>Reading from a descriptor\<close>

text \<open>
  \<open>readv\<close> is the system call: given the lengths of the I/O vector it delivers an error number
  or the bytes read, which the kernel stores into the first block and then the second. The
  documented behaviour used is \<open>readv_fits\<close>: it never delivers more than was asked for.
\<close>

type_synonym readv_call = "nat list \<Rightarrow> int + char list"

definition readv_fits :: "readv_call \<Rightarrow> bool" where
  "readv_fits readv \<longleftrightarrow> (\<forall>iov data. readv iov = Inr data \<longrightarrow> length data \<le> sum_list iov)"

definition extrabuf_size :: nat where "extrabuf_size = 65536"

definition ReadFd :: "readv_call \<Rightarrow> buffer \<Rightarrow> (int \<times> int \<times> buffer) outcome" where
  "ReadFd readv b =
     (let writable = WritableBytes b;
          iov = (if writable < extrabuf_size then [writable, extrabuf_size] else [writable])
      in case readv iov of
           Inl err \<Rightarrow> Inr (-1, err, b)
         | Inr data \<Rightarrow>
             (let n = length data;
                  b1 = b\<lparr>buf_bytes := overwrite (writer_index b) (take writable data) (buf_bytes b)\<rparr>
              in if n \<le> writable
                 then Inr (int n, 0, b1\<lparr>writer_index := size_add (writer_index b1) n\<rparr>)
                 else and_then
                   (Append (b1\<lparr>writer_index := length (buf_bytes b1)\<rparr>) (drop writable data) (n - writable))
                   (\<lambda>b2. Inr (int n, 0, b2))))"

section \<open>Well-formedness and content\<close>

definition wf_buffer :: "buffer \<Rightarrow> bool" where
  "wf_buffer b \<longleftrightarrow> reader_index b \<le> writer_index b \<and> writer_index b \<le> length (buf_bytes b)
     \<and> kCheapPrepend \<le> length (buf_bytes b) \<and> length (buf_bytes b) \<le> vector_max_size"

definition content :: "buffer \<Rightarrow> char list" where
  "content b = range_of (buf_bytes b) (reader_index b) (writer_index b)"

text \<open>The vector can still take \<open>n\<close> more bytes after the writer index.\<close>

definition room :: "buffer \<Rightarrow> nat \<Rightarrow> bool" where
  "room b n \<longleftrightarrow> writer_index b + n \<le> vector_max_size"

lemmas buffer_const_defs = kCheapPrepend_def kInitialSize_def vector_max_size_def extrabuf_size_def

lemma wf_bounds:
  assumes "wf_buffer b"
  shows "reader_index b \<le> writer_index b" "writer_index b \<le> length (buf_bytes b)"
    "8 \<le> length (buf_bytes b)" "length (buf_bytes b) < 2 ^ 63" "length (buf_bytes b) \<le> vector_max_size"
  using assms by (auto simp: wf_buffer_def buffer_const_defs)

lemma length_content: "wf_buffer b \<Longrightarrow> length (content b) = writer_index b - reader_index b"
  by (simp add: content_def wf_buffer_def)

lemma ReadableBytes_content [simp]: "wf_buffer b \<Longrightarrow> ReadableBytes b = length (content b)"
  using wf_bounds [of b] by (simp add: ReadableBytes_def length_content machine_simps)

lemma WritableBytes_exact: "wf_buffer b \<Longrightarrow> WritableBytes b = length (buf_bytes b) - writer_index b"
  using wf_bounds [of b] by (simp add: WritableBytes_def machine_simps)

lemma Buffer_new_empty:
  assumes "initial_size \<le> vector_max_size - kCheapPrepend"
  shows "\<exists>b. Buffer_new initial_size = Inr b \<and> wf_buffer b \<and> content b = []
    \<and> WritableBytes b = initial_size \<and> writer_index b = kCheapPrepend"
proof -
  let ?b = "\<lparr>buf_bytes = replicate (8 + initial_size) (CHR 0x00), reader_index = 8, writer_index = 8\<rparr>"
  have n: "size_add kCheapPrepend initial_size = 8 + initial_size" "8 + initial_size \<le> vector_max_size"
    using assms by (simp_all add: size_add_def buffer_const_defs)
  then have wf: "wf_buffer ?b" "content ?b = []"
    by (simp_all add: wf_buffer_def content_def kCheapPrepend_def)
  from wf have "ReadableBytes ?b = 0" "WritableBytes ?b = initial_size"
    by (simp_all add: WritableBytes_exact)
  with n wf show ?thesis
    by (simp add: Buffer_new_def vector_resize_def Let_def kCheapPrepend_def PrependableBytes_def)
qed

section \<open>Retrieving drops from the front\<close>

lemma RetrieveAll_content: "wf_buffer b \<Longrightarrow> wf_buffer (RetrieveAll b) \<and> content (RetrieveAll b) = []"
  by (simp add: wf_buffer_def RetrieveAll_def content_def kCheapPrepend_def)

lemma Retrieve_content:
  assumes "wf_buffer b" "n \<le> length (content b)"
  shows "\<exists>b'. Retrieve b n = Inr b' \<and> wf_buffer b' \<and> content b' = drop n (content b)
    \<and> writer_index b' \<le> max kCheapPrepend (writer_index b)"
proof (cases "n < length (content b)")
  case True
  let ?b = "b\<lparr>reader_index := reader_index b + n\<rparr>"
  from True have "n < writer_index b - reader_index b" using assms by (simp add: length_content)
  then have "wf_buffer ?b" "size_add (reader_index b) n = reader_index b + n"
    using wf_bounds [OF assms(1)] by (auto simp: wf_buffer_def machine_simps kCheapPrepend_def)
  with True assms show ?thesis
    by (simp add: Retrieve_def content_def drop_range_of)
next
  case False
  with assms have "n = length (content b)" by simp
  with assms RetrieveAll_content [OF assms(1)] show ?thesis
    by (simp add: Retrieve_def RetrieveAll_def)
qed

lemma RetrieveUntil_content:
  assumes "wf_buffer b" "reader_index b \<le> p" "p \<le> writer_index b"
  shows "\<exists>b'. RetrieveUntil b p = Inr b' \<and> wf_buffer b'
    \<and> content b' = drop (p - reader_index b) (content b)"
proof -
  have "p - reader_index b \<le> length (content b)"
    using assms by (simp add: length_content diff_le_mono)
  from Retrieve_content [OF assms(1) this] show ?thesis
    using assms by (auto simp: RetrieveUntil_def Peek_def BeginWrite_def)
qed

lemma read_bytes_content:
  assumes "wf_buffer b" "n \<le> length (content b)"
  shows "read_bytes b n = Inr (take n (content b))"
  using assms wf_bounds [OF assms(1)]
  by (simp add: read_bytes_def Peek_def length_content content_def take_range_of)

lemma RetrieveAsString_content:
  assumes "wf_buffer b" "n \<le> length (content b)"
  shows "\<exists>b'. RetrieveAsString b n = Inr (take n (content b), b') \<and> wf_buffer b'
    \<and> content b' = drop n (content b)"
  using Retrieve_content [OF assms] assms
  by (auto simp: RetrieveAsString_def read_bytes_content)

lemma RetrieveAllAsString_content:
  assumes "wf_buffer b"
  shows "\<exists>b'. RetrieveAllAsString b = Inr (content b, b') \<and> wf_buffer b' \<and> content b' = []"
  using RetrieveAsString_content [OF assms, of "length (content b)"] assms
  by (simp add: RetrieveAllAsString_def)

section \<open>Appending adds at the end\<close>

lemma MakeSpace_grow:
  assumes "wf_buffer b" "room b len" "WritableBytes b < len"
    and "WritableBytes b + PrependableBytes b < len + kCheapPrepend"
  shows "\<exists>b'. MakeSpace b len = Inr b' \<and> wf_buffer b' \<and> content b' = content b
    \<and> len \<le> WritableBytes b' \<and> writer_index b' = writer_index b"
proof -
  let ?n = "writer_index b + len"
  let ?b = "b\<lparr>buf_bytes := take ?n (buf_bytes b) @ replicate (?n - length (buf_bytes b)) (CHR 0x00)\<rparr>"
  note bd = wf_bounds [OF assms(1)]
  have n: "?n \<le> vector_max_size" "length (buf_bytes b) \<le> ?n"
    using assms bd by (simp_all add: room_def WritableBytes_exact)
  then have len: "length (buf_bytes ?b) = ?n" by simp
  with n bd have wf: "wf_buffer ?b" by (simp add: wf_buffer_def kCheapPrepend_def)
  have "content ?b = content b" using bd by (simp add: content_def range_of_resize)
  moreover have "WritableBytes ?b = len" using WritableBytes_exact [OF wf] len by simp
  moreover have "MakeSpace b len = Inr ?b"
    using assms n bd
    by (simp add: MakeSpace_def vector_resize_def machine_simps PrependableBytes_def
        buffer_const_defs WritableBytes_exact)
  ultimately show ?thesis using wf by auto
qed

lemma MakeSpace_move:
  assumes "wf_buffer b" "WritableBytes b < len"
    and "len + kCheapPrepend \<le> WritableBytes b + PrependableBytes b"
  shows "\<exists>b'. MakeSpace b len = Inr b' \<and> wf_buffer b' \<and> content b' = content b
    \<and> len \<le> WritableBytes b' \<and> writer_index b' \<le> writer_index b"
proof -
  let ?b = "b\<lparr>buf_bytes := overwrite 8 (content b) (buf_bytes b), reader_index := 8,
              writer_index := 8 + length (content b)\<rparr>"
  note bd = wf_bounds [OF assms(1)]
  have r: "8 < reader_index b"
    using assms by (simp add: kCheapPrepend_def PrependableBytes_def)
  with bd have fits: "8 + length (content b) \<le> length (buf_bytes b)" "writer_index ?b \<le> writer_index b"
    by (simp_all add: length_content [OF assms(1)])
  with bd have wf: "wf_buffer ?b" by (simp add: wf_buffer_def kCheapPrepend_def)
  have c: "content ?b = content b"
    using bd range_of_overwrite_same [of 8 "buf_bytes b" "content b"] by (simp add: content_def)
  have "WritableBytes ?b = length (buf_bytes b) - (8 + length (content b))"
    using WritableBytes_exact [OF wf] fits by simp
  then have "len \<le> WritableBytes ?b"
    using assms(3) bd by (simp add: WritableBytes_exact [OF assms(1)] length_content [OF assms(1)]
        PrependableBytes_def kCheapPrepend_def)
  moreover have "MakeSpace b len = Inr ?b"
    using assms r bd fits ReadableBytes_content [OF wf] c
    by (simp add: MakeSpace_def machine_simps PrependableBytes_def buffer_const_defs Let_def
        content_def [symmetric] WritableBytes_exact)
  ultimately show ?thesis using wf c fits by auto
qed

lemma EnsureWritableBytes_content:
  assumes "wf_buffer b" "room b len"
  shows "\<exists>b'. EnsureWritableBytes b len = Inr b' \<and> wf_buffer b' \<and> content b' = content b
    \<and> len \<le> WritableBytes b' \<and> writer_index b' \<le> writer_index b"
proof (cases "WritableBytes b < len")
  case True
  then have "\<exists>b'. MakeSpace b len = Inr b' \<and> wf_buffer b' \<and> content b' = content b
    \<and> len \<le> WritableBytes b' \<and> writer_index b' \<le> writer_index b"
    using MakeSpace_grow [OF assms True] MakeSpace_move [OF assms(1) True] by fastforce
  with True show ?thesis by (auto simp: EnsureWritableBytes_def)
next
  case False
  with assms show ?thesis by (simp add: EnsureWritableBytes_def)
qed

lemma write_at_end:
  assumes "wf_buffer b" "length d \<le> WritableBytes b"
  shows "wf_buffer (b\<lparr>buf_bytes := overwrite (writer_index b) d (buf_bytes b),
            writer_index := writer_index b + length d\<rparr>)"
    and "content (b\<lparr>buf_bytes := overwrite (writer_index b) d (buf_bytes b),
            writer_index := writer_index b + length d\<rparr>) = content b @ d"
proof -
  note bd = wf_bounds [OF assms(1)]
  have fits: "writer_index b + length d \<le> length (buf_bytes b)"
    using assms bd by (simp add: WritableBytes_exact)
  with bd show "wf_buffer (b\<lparr>buf_bytes := overwrite (writer_index b) d (buf_bytes b),
            writer_index := writer_index b + length d\<rparr>)"
    by (simp add: wf_buffer_def kCheapPrepend_def)
  show "content (b\<lparr>buf_bytes := overwrite (writer_index b) d (buf_bytes b),
            writer_index := writer_index b + length d\<rparr>) = content b @ d"
    using bd fits
    by (simp add: content_def range_of_overwrite_before range_of_overwrite_same
        range_of_split [of "reader_index b" "writer_index b" "writer_index b + length d"])
qed

lemma Append_after_ensure:
  assumes b1: "EnsureWritableBytes b n = Inr b1" "wf_buffer b1" "content b1 = content b"
      "n \<le> WritableBytes b1" and "n \<le> length data"
  shows "\<exists>b'. Append b data n = Inr b' \<and> wf_buffer b' \<and> content b' = content b @ take n data
    \<and> writer_index b' = writer_index b1 + n"
proof -
  note bd = wf_bounds [OF b1(2)]
  let ?d = "take n data"
  let ?b2 = "b1\<lparr>buf_bytes := overwrite (writer_index b1) ?d (buf_bytes b1)\<rparr>"
  let ?b3 = "?b2\<lparr>writer_index := writer_index b1 + n\<rparr>"
  have d: "length ?d = n" using assms(5) by simp
  have fits: "writer_index b1 + n \<le> length (buf_bytes b1)"
    using b1(2,4) bd by (simp add: WritableBytes_exact)
  have "copy_in b1 (BeginWrite b1) data n = Inr ?b2"
    using fits assms(5) by (simp add: copy_in_def BeginWrite_def)
  moreover have "HasWritten ?b2 n = Inr ?b3"
    using fits bd d by (simp add: HasWritten_def WritableBytes_def machine_simps)
  ultimately have "Append b data n = Inr ?b3" using b1(1) by (simp add: Append_def)
  moreover have "wf_buffer ?b3" "content ?b3 = content b @ ?d"
    using write_at_end [OF b1(2), of ?d] b1(3,4) d by simp_all
  ultimately show ?thesis by (intro exI [of _ ?b3]) simp
qed

lemma Append_content:
  assumes "wf_buffer b" "room b (n + k)" "n \<le> length data"
  shows "\<exists>b'. Append b data n = Inr b' \<and> wf_buffer b' \<and> content b' = content b @ take n data
    \<and> room b' k"
proof -
  from assms(2) have "room b n" by (simp add: room_def)
  from EnsureWritableBytes_content [OF assms(1) this] obtain b1 where
    b1: "EnsureWritableBytes b n = Inr b1" "wf_buffer b1" "content b1 = content b"
      "n \<le> WritableBytes b1" "writer_index b1 \<le> writer_index b" by blast
  from Append_after_ensure [OF b1(1-4) assms(3)] b1(5) assms(2) show ?thesis
    by (auto simp: room_def)
qed

text \<open>Without a bound on what is appended the only failure is the vector's \<^verbatim>\<open>length_error\<close>.\<close>

lemma Append_outcome:
  assumes "wf_buffer b" "n \<le> length data" "n < 2 ^ 63"
  shows "Append b data n = Inl LengthError \<or>
    (\<exists>b'. Append b data n = Inr b' \<and> wf_buffer b' \<and> content b' = content b @ take n data)"
proof (cases "room b n")
  case True
  with Append_content [OF assms(1) _ assms(2), of 0] show ?thesis by auto
next
  case False
  note bd = wf_bounds [OF assms(1)]
  have w: "WritableBytes b < n"
    using False bd by (auto simp: room_def WritableBytes_exact [OF assms(1)] wf_buffer_def)
  show ?thesis
  proof (cases "WritableBytes b + PrependableBytes b < n + kCheapPrepend")
    case True
    have "MakeSpace b n = Inl LengthError"
      using True False bd assms(3)
      by (simp add: MakeSpace_def vector_resize_def machine_simps PrependableBytes_def room_def
          buffer_const_defs WritableBytes_exact [OF assms(1)])
    with w show ?thesis by (simp add: Append_def EnsureWritableBytes_def)
  next
    case False
    with MakeSpace_move [OF assms(1) w] obtain b1 where "MakeSpace b n = Inr b1" "wf_buffer b1"
      "content b1 = content b" "n \<le> WritableBytes b1" by auto
    moreover from this w have "EnsureWritableBytes b n = Inr b1" by (simp add: EnsureWritableBytes_def)
    ultimately show ?thesis using Append_after_ensure [OF _ _ _ _ assms(2)] by blast
  qed
qed

section \<open>The byte queue contract\<close>

text \<open>
  What \<^verbatim>\<open>TcpConnection\<close>, \<^verbatim>\<open>HttpResponse\<close> and the request parser rely on. \<open>queue_room q n\<close> is the
  condition under which \<open>n\<close> more bytes can be appended.
\<close>

locale byte_queue =
  fixes queue_wf :: "'q \<Rightarrow> bool"
    and queue_bytes :: "'q \<Rightarrow> char list"
    and queue_room :: "'q \<Rightarrow> nat \<Rightarrow> bool"
    and queue_size :: "'q \<Rightarrow> nat"
    and append :: "'q \<Rightarrow> char list \<Rightarrow> 'q outcome"
    and retrieve :: "'q \<Rightarrow> nat \<Rightarrow> 'q outcome"
  assumes size_bytes: "queue_wf q \<Longrightarrow> queue_size q = length (queue_bytes q)"
    and append_law: "queue_wf q \<Longrightarrow> queue_room q (length d + k) \<Longrightarrow>
      \<exists>q'. append q d = Inr q' \<and> queue_wf q' \<and> queue_bytes q' = queue_bytes q @ d \<and> queue_room q' k"
    and retrieve_law: "queue_wf q \<Longrightarrow> n \<le> length (queue_bytes q) \<Longrightarrow>
      \<exists>q'. retrieve q n = Inr q' \<and> queue_wf q' \<and> queue_bytes q' = drop n (queue_bytes q)"
begin

lemma append_one:
  assumes "queue_wf q" "queue_room q (length d)"
  shows "\<exists>q'. append q d = Inr q' \<and> queue_wf q' \<and> queue_bytes q' = queue_bytes q @ d"
  using append_law [OF assms(1), of d 0] assms(2) by auto

text \<open>A sequence of appends adds the concatenation of the pieces.\<close>

lemma append_all:
  assumes "queue_wf q" "queue_room q (length (concat ds) + k)"
  shows "\<exists>q'. for_each (\<lambda>d q. append q d) ds q = Inr q' \<and> queue_wf q'
    \<and> queue_bytes q' = queue_bytes q @ concat ds \<and> queue_room q' k"
  using assms
proof (induction ds arbitrary: q)
  case (Cons d ds)
  then have "queue_room q (length d + (length (concat ds) + k))" by (simp add: add.assoc)
  from append_law [OF Cons.prems(1) this] obtain q1 where
    "append q d = Inr q1" "queue_wf q1" "queue_bytes q1 = queue_bytes q @ d"
    "queue_room q1 (length (concat ds) + k)" by blast
  with Cons.IH [of q1] show ?case by auto
qed simp

text \<open>First in, first out: what was there before comes out before what was appended.\<close>

lemma fifo:
  assumes "queue_wf q" "queue_room q (length d)"
  shows "\<exists>q1 q2. append q d = Inr q1 \<and> retrieve q1 (length (queue_bytes q)) = Inr q2
    \<and> queue_wf q2 \<and> queue_bytes q2 = d"
proof -
  from append_one [OF assms] obtain q1 where
    q1: "append q d = Inr q1" "queue_wf q1" "queue_bytes q1 = queue_bytes q @ d" by blast
  with retrieve_law [of q1 "length (queue_bytes q)"] show ?thesis by auto
qed

end

interpretation buf: byte_queue wf_buffer content room ReadableBytes
  "\<lambda>b d. Append b d (length d)" Retrieve
proof
  fix q d k n
  show "wf_buffer q \<Longrightarrow> ReadableBytes q = length (content q)" by simp
  show "wf_buffer q \<Longrightarrow> room q (length d + k) \<Longrightarrow>
    \<exists>q'. Append q d (length d) = Inr q' \<and> wf_buffer q' \<and> content q' = content q @ d \<and> room q' k"
    using Append_content [of q "length d" k d] by simp
  show "wf_buffer q \<Longrightarrow> n \<le> length (content q) \<Longrightarrow>
    \<exists>q'. Retrieve q n = Inr q' \<and> wf_buffer q' \<and> content q' = drop n (content q)"
    using Retrieve_content [of q n] by auto
qed

section \<open>Properties\<close>

text \<open>
  C4. A run of appends and retrieves on a buffer behaves as a queue of bytes: every append of
  data that fits succeeds with no failed assertion and adds exactly that data at the end,
  whether the bytes fit, the readable bytes are moved to the front, or the vector grows.
\<close>

theorem Buffer_appends_refine_queue:
  assumes "wf_buffer b" and "room b (length (concat ds))"
  shows "\<exists>b'. for_each (\<lambda>d b. Append b d (length d)) ds b = Inr b' \<and> wf_buffer b'
    \<and> content b' = content b @ concat ds"
  using buf.append_all [of b ds 0] assms by auto

theorem Buffer_appends_refine_queue_witness:
  "\<exists>b b'. Buffer_new 4 = Inr b \<and> wf_buffer b \<and> room b (length (concat [''abc'', ''defgh'', ''ijkl'']))
   \<and> for_each (\<lambda>d b. Append b d (length d)) [''abc'', ''defgh'', ''ijkl''] b = Inr b'
   \<and> content b' = ''abcdefghijkl''"
proof -
  obtain b where b: "Buffer_new 4 = Inr b" "wf_buffer b" "content b = []" "writer_index b = kCheapPrepend"
    using Buffer_new_empty [of 4] by (auto simp: buffer_const_defs)
  then have r: "room b (length (concat [''abc'', ''defgh'', ''ijkl'']))"
    by (simp add: room_def buffer_const_defs)
  from Buffer_appends_refine_queue [OF b(2) r] b r show ?thesis by auto
qed

text \<open>
  \<^verbatim>\<open>Retrieve(len)\<close> with \<open>len\<close> at most the readable bytes drops exactly the first \<open>len\<close>
  bytes; with more it fails its assertion and nothing is retrieved.
\<close>

lemma Retrieve_drops_front:
  assumes "wf_buffer b"
  shows "if len \<le> length (content b)
    then \<exists>b'. Retrieve b len = Inr b' \<and> wf_buffer b' \<and> content b' = drop len (content b)
    else Retrieve b len = Inl (AssertFailed ''len <= ReadableBytes()'')"
  using Retrieve_content [OF assms, of len] assms by (auto simp: Retrieve_def)

subsection \<open>Line ends\<close>

lemma length_kCRLF [simp]: "length kCRLF = 2"
  by (simp add: kCRLF_def)

lemma kCRLF_not_Nil [simp]: "kCRLF \<noteq> []"
  by (simp add: kCRLF_def)

lemma content_occurrence_iff:
  assumes "wf_buffer b"
  shows "(\<exists>post. content b = pre @ pat @ post) \<and> pat \<noteq> [] \<longleftrightarrow>
    pat \<noteq> [] \<and> length pre + length pat \<le> length (content b) \<and> take (length pre) (content b) = pre
    \<and> take (length pat) (drop (reader_index b + length pre) (buf_bytes b)) = pat"
proof -
  have "take (length pat) (drop (length pre) (content b))
      = take (length pat) (drop (reader_index b + length pre) (buf_bytes b))"
    if "length pre + length pat \<le> length (content b)"
  proof -
    have "length pat \<le> writer_index b - (reader_index b + length pre)"
      using that length_content [OF assms] by simp
    then show ?thesis by (simp add: content_def drop_range_of take_range_of) (simp add: range_of_def)
  qed
  then show ?thesis unfolding occurs_iff by auto
qed

lemma search_before_occurrence:
  assumes "wf_buffer b" "content b = pre @ kCRLF @ post"
  shows "std_search (buf_bytes b) (reader_index b) (writer_index b) kCRLF \<le> reader_index b + length pre"
    and "reader_index b + length pre + 2 \<le> writer_index b"
proof -
  have "length pre + 2 \<le> writer_index b - reader_index b"
    "take (length kCRLF) (drop (reader_index b + length pre) (buf_bytes b)) = kCRLF"
    using content_occurrence_iff [OF assms(1), of pre kCRLF] assms length_content [OF assms(1)] by auto
  then have fit: "reader_index b + length pre + 2 \<le> writer_index b"
    and hit: "take (length kCRLF) (drop (reader_index b + length pre) (buf_bytes b)) = kCRLF"
    by arith+
  show "reader_index b + length pre + 2 \<le> writer_index b" by (rule fit)
  show "std_search (buf_bytes b) (reader_index b) (writer_index b) kCRLF \<le> reader_index b + length pre"
    using std_search_first [of "reader_index b" "reader_index b + length pre" "buf_bytes b"
        "writer_index b" kCRLF] hit fit by fastforce
qed

lemma FindCRLF_Some:
  assumes "wf_buffer b" "FindCRLF b = Some p"
  shows "\<exists>pre post. content b = pre @ kCRLF @ post \<and> p = reader_index b + length pre
    \<and> (\<forall>pre' post'. content b = pre' @ kCRLF @ post' \<longrightarrow> length pre \<le> length pre')"
proof -
  note bd = wf_bounds [OF assms(1)]
  let ?s = "std_search (buf_bytes b) (reader_index b) (writer_index b) kCRLF"
  let ?pre = "take (p - reader_index b) (content b)"
  have p: "p = ?s" "?s < writer_index b" "reader_index b \<le> p"
    using assms(2) bd std_search_bounds [of "reader_index b" "writer_index b" "buf_bytes b" kCRLF]
    by (auto simp: FindCRLF_def Peek_def BeginWrite_def Let_def split: if_splits)
  from std_search_hit [OF p(2)] have hit: "p + 2 \<le> writer_index b"
    "take 2 (drop p (buf_bytes b)) = kCRLF" using p(1) by simp_all
  have len: "length ?pre = p - reader_index b"
    using hit p length_content [OF assms(1)] by simp
  have "\<exists>post. content b = ?pre @ kCRLF @ post"
    using content_occurrence_iff [OF assms(1), of ?pre kCRLF] hit p(3) len length_content [OF assms(1)]
    by (simp add: le_diff_conv)
  moreover have "length ?pre \<le> length pre'" if "content b = pre' @ kCRLF @ post'" for pre' post'
    using search_before_occurrence [OF assms(1) that] p(1) len by simp
  ultimately show ?thesis using p(3) len by (metis le_add_diff_inverse)
qed

lemma FindCRLF_None:
  assumes "wf_buffer b" "FindCRLF b = None"
  shows "\<not> (\<exists>pre post. content b = pre @ kCRLF @ post)"
proof
  assume "\<exists>pre post. content b = pre @ kCRLF @ post"
  then obtain pre post where "content b = pre @ kCRLF @ post" by blast
  moreover have "std_search (buf_bytes b) (reader_index b) (writer_index b) kCRLF = writer_index b"
    using assms(2) by (simp add: FindCRLF_def Peek_def BeginWrite_def Let_def split: if_splits)
  ultimately show False using search_before_occurrence [OF assms(1)] by fastforce
qed

text \<open>
  \<^verbatim>\<open>FindCRLF()\<close> finds the first CRLF of the readable bytes and never looks outside them:
  it returns a pointer exactly when there is one, and the pointer is to the first.
\<close>

lemma FindCRLF_finds_first:
  assumes "wf_buffer b"
  shows "case FindCRLF b of
      None \<Rightarrow> \<not> (\<exists>pre post. content b = pre @ kCRLF @ post)
    | Some p \<Rightarrow> (\<exists>pre post. content b = pre @ kCRLF @ post \<and> p = reader_index b + length pre
        \<and> (\<forall>pre' post'. content b = pre' @ kCRLF @ post' \<longrightarrow> length pre \<le> length pre'))"
  using FindCRLF_Some [OF assms] FindCRLF_None [OF assms] by (simp split: option.split)

subsection \<open>Integers on the wire\<close>

context wire_int
begin

lemma append_wire:
  assumes "wf_buffer b" "room b (n + k)"
  shows "\<exists>b'. Append b (mem_of_word le n (h2n x)) n = Inr b' \<and> wf_buffer b'
    \<and> content b' = content b @ be_bytes n x \<and> room b' k"
  using Append_content [OF assms, of "mem_of_word le n (h2n x)"] by (simp add: h2n_wire)

lemma peek_wire:
  assumes "wf_buffer b" "content b = be_bytes n (x :: 'a word) @ rest"
  shows "n \<le> ReadableBytes b"
    and "and_then (read_bytes b n) (\<lambda>m. Inr (n2h (word_of_mem le m))) = Inr x"
  using assms read_bytes_content [OF assms(1), of n] by (simp_all add: n2h_wire)

lemma retrieve_wire:
  assumes "wf_buffer b" "content b = be_bytes n (x :: 'a word) @ rest"
  shows "\<exists>b'. Retrieve b n = Inr b' \<and> wf_buffer b' \<and> content b' = rest"
  using Retrieve_content [OF assms(1), of n] assms(2) by auto

lemma prepend_wire:
  assumes "wf_buffer b" "n \<le> reader_index b"
  shows "\<exists>b'. Prepend b (mem_of_word le n (h2n x)) n = Inr b' \<and> wf_buffer b'
    \<and> content b' = be_bytes n x @ content b"
proof -
  note bd = wf_bounds [OF assms(1)]
  let ?r = "reader_index b - n"
  let ?b = "b\<lparr>reader_index := ?r, buf_bytes := overwrite ?r (be_bytes n x) (buf_bytes b)\<rparr>"
  have r: "size_sub (reader_index b) n = ?r" "?r + n = reader_index b"
    using assms(2) bd by (simp_all add: machine_simps)
  then have "Prepend b (mem_of_word le n (h2n x)) n = Inr ?b"
    using assms bd by (simp add: Prepend_def PrependableBytes_def copy_in_def h2n_wire Let_def)
  moreover have "wf_buffer ?b" using assms bd by (simp add: wf_buffer_def kCheapPrepend_def)
  moreover have "content ?b = be_bytes n x @ content b"
    using bd r range_of_overwrite_same [of ?r "buf_bytes b" "be_bytes n x"]
    by (simp add: content_def range_of_split [of ?r "reader_index b" "writer_index b"]
        range_of_overwrite_after)
  ultimately show ?thesis by blast
qed

end

lemma AppendInt_content:
  assumes "wf_buffer b"
  shows "room b (8 + k) \<Longrightarrow> \<exists>b'. AppendInt64 le b x = Inr b' \<and> wf_buffer b'
      \<and> content b' = content b @ be_bytes 8 x \<and> room b' k"
    and "room b (4 + k) \<Longrightarrow> \<exists>b'. AppendInt32 le b y = Inr b' \<and> wf_buffer b'
      \<and> content b' = content b @ be_bytes 4 y \<and> room b' k"
    and "room b (2 + k) \<Longrightarrow> \<exists>b'. AppendInt16 le b z = Inr b' \<and> wf_buffer b'
      \<and> content b' = content b @ be_bytes 2 z \<and> room b' k"
    and "room b (1 + k) \<Longrightarrow> \<exists>b'. AppendInt8 le b w = Inr b' \<and> wf_buffer b'
      \<and> content b' = content b @ be_bytes 1 w \<and> room b' k"
  using net64.append_wire [OF assms] net32.append_wire [OF assms] net16.append_wire [OF assms]
    net8.append_wire [OF assms]
  by (simp_all add: AppendInt64_def AppendInt32_def AppendInt16_def AppendInt8_def)

lemma ReadInt_content:
  assumes "wf_buffer b"
  shows "content b = be_bytes 8 x @ rest \<Longrightarrow>
      \<exists>b'. ReadInt64 le b = Inr (x, b') \<and> wf_buffer b' \<and> content b' = rest"
    and "content b = be_bytes 4 y @ rest \<Longrightarrow>
      \<exists>b'. ReadInt32 le b = Inr (y, b') \<and> wf_buffer b' \<and> content b' = rest"
    and "content b = be_bytes 2 z @ rest \<Longrightarrow>
      \<exists>b'. ReadInt16 le b = Inr (z, b') \<and> wf_buffer b' \<and> content b' = rest"
    and "content b = be_bytes 1 w @ rest \<Longrightarrow>
      \<exists>b'. ReadInt8 le b = Inr (w, b') \<and> wf_buffer b' \<and> content b' = rest"
  using net64.peek_wire [OF assms] net64.retrieve_wire [OF assms, of x rest]
    net32.peek_wire [OF assms] net32.retrieve_wire [OF assms, of y rest]
    net16.peek_wire [OF assms] net16.retrieve_wire [OF assms, of z rest]
    net8.peek_wire [OF assms] net8.retrieve_wire [OF assms, of w rest]
  by (auto simp: ReadInt64_def PeekInt64_def RetrieveInt64_def ReadInt32_def PeekInt32_def
      RetrieveInt32_def ReadInt16_def PeekInt16_def RetrieveInt16_def ReadInt8_def PeekInt8_def
      RetrieveInt8_def)

text \<open>
  C29. Integers of the four widths appended on a host of either byte order are read back, in
  the order they were appended, on a host of either byte order, and nothing is left over.
\<close>

theorem Int_wire_roundtrip:
  assumes "wf_buffer b" and "content b = []" and "room b 15"
  shows "\<exists>b1 b2 b3 b4 c1 c2 c3 c4.
      AppendInt64 le b x = Inr b1 \<and> AppendInt32 le b1 y = Inr b2
    \<and> AppendInt16 le b2 z = Inr b3 \<and> AppendInt8 le b3 w = Inr b4
    \<and> content b4 = be_bytes 8 x @ be_bytes 4 y @ be_bytes 2 z @ be_bytes 1 w
    \<and> ReadInt64 le' b4 = Inr (x, c1) \<and> ReadInt32 le' c1 = Inr (y, c2)
    \<and> ReadInt16 le' c2 = Inr (z, c3) \<and> ReadInt8 le' c3 = Inr (w, c4) \<and> content c4 = []"
proof -
  have "room b (8 + 7)" using assms(3) by simp
  from AppendInt_content(1) [OF assms(1) this] obtain b1 where b1: "AppendInt64 le b x = Inr b1"
    "wf_buffer b1" "content b1 = be_bytes 8 x" "room b1 (4 + 3)" using assms(2) by auto
  from AppendInt_content(2) [OF b1(2,4)] obtain b2 where b2: "AppendInt32 le b1 y = Inr b2"
    "wf_buffer b2" "content b2 = be_bytes 8 x @ be_bytes 4 y" "room b2 (2 + 1)" using b1(3) by auto
  from AppendInt_content(3) [OF b2(2,4)] obtain b3 where b3: "AppendInt16 le b2 z = Inr b3"
    "wf_buffer b3" "content b3 = be_bytes 8 x @ be_bytes 4 y @ be_bytes 2 z" "room b3 (1 + 0)"
    using b2(3) by auto
  from AppendInt_content(4) [OF b3(2,4)] obtain b4 where b4: "AppendInt8 le b3 w = Inr b4"
    "wf_buffer b4" "content b4 = be_bytes 8 x @ be_bytes 4 y @ be_bytes 2 z @ be_bytes 1 w"
    using b3(3) by auto
  from ReadInt_content(1) [OF b4(2,3)] obtain c1 where c1: "ReadInt64 le' b4 = Inr (x, c1)"
    "wf_buffer c1" "content c1 = be_bytes 4 y @ be_bytes 2 z @ be_bytes 1 w" by blast
  from ReadInt_content(2) [OF c1(2,3)] obtain c2 where c2: "ReadInt32 le' c1 = Inr (y, c2)"
    "wf_buffer c2" "content c2 = be_bytes 2 z @ be_bytes 1 w" by blast
  from ReadInt_content(3) [OF c2(2,3)] obtain c3 where c3: "ReadInt16 le' c2 = Inr (z, c3)"
    "wf_buffer c3" "content c3 = be_bytes 1 w @ []" by auto
  from ReadInt_content(4) [OF c3(2,3)] show ?thesis
    using b1(1) b2(1) b3(1) b4(1,3) c1(1) c2(1) c3(1) by blast
qed

theorem Int_wire_roundtrip_witness:
  "\<exists>b b1 b2 c1 c2. Buffer_new kInitialSize = Inr b
   \<and> AppendInt64 True b 258 = Inr b1 \<and> AppendInt32 True b1 7 = Inr b2
   \<and> (\<exists>b3 b4. AppendInt16 True b2 5 = Inr b3 \<and> AppendInt8 True b3 3 = Inr b4
        \<and> ReadInt64 False b4 = Inr (258, c1) \<and> ReadInt32 False c1 = Inr (7, c2))"
proof -
  obtain b where b: "Buffer_new kInitialSize = Inr b" "wf_buffer b" "content b = []"
      "writer_index b = kCheapPrepend"
    using Buffer_new_empty [of kInitialSize] by (auto simp: buffer_const_defs)
  then have "room b 15" by (simp add: room_def buffer_const_defs)
  from Int_wire_roundtrip [OF b(2,3) this, of True 258 7 5 3 False] b(1) show ?thesis by blast
qed

subsection \<open>Prepending\<close>

text \<open>
  The eight cheap prepend bytes of a buffer whose reader index is at least eight take a
  64-bit length prefix in front of the content without moving it, and reading the integer back
  restores the content. With fewer than eight bytes the assertion of \<^verbatim>\<open>Prepend\<close> fails.
\<close>

lemma PrependInt64_in_front:
  assumes "wf_buffer b"
  shows "if 8 \<le> reader_index b
    then \<exists>b1 b2. PrependInt64 le b x = Inr b1 \<and> content b1 = be_bytes 8 x @ content b
      \<and> ReadInt64 le' b1 = Inr (x, b2) \<and> wf_buffer b2 \<and> content b2 = content b
    else PrependInt64 le b x = Inl (AssertFailed ''len <= PrependableBytes()'')"
proof (cases "8 \<le> reader_index b")
  case True
  from net64.prepend_wire [OF assms True] obtain b1 where
    b1: "PrependInt64 le b x = Inr b1" "wf_buffer b1" "content b1 = be_bytes 8 x @ content b"
    by (auto simp: PrependInt64_def)
  with ReadInt_content(1) [OF b1(2,3)] True show ?thesis by auto
next
  case False
  then show ?thesis by (simp add: PrependInt64_def Prepend_def PrependableBytes_def)
qed

subsection \<open>Reading from a descriptor\<close>

lemma ReadFd_extra:
  assumes "wf_buffer b" "length (buf_bytes b) + extrabuf_size \<le> vector_max_size"
    and "WritableBytes b < length data" "length data \<le> WritableBytes b + extrabuf_size"
  shows "\<exists>b'. Append (b\<lparr>buf_bytes := overwrite (writer_index b) (take (WritableBytes b) data) (buf_bytes b),
        writer_index := length (buf_bytes b)\<rparr>) (drop (WritableBytes b) data) (length data - WritableBytes b)
      = Inr b' \<and> wf_buffer b' \<and> content b' = content b @ data"
proof -
  note bd = wf_bounds [OF assms(1)]
  let ?d = "take (WritableBytes b) data"
  let ?b = "b\<lparr>buf_bytes := overwrite (writer_index b) ?d (buf_bytes b), writer_index := length (buf_bytes b)\<rparr>"
  have end_eq: "writer_index b + length ?d = length (buf_bytes b)"
    using assms(3) bd by (simp add: WritableBytes_exact [OF assms(1)] min_def)
  have d: "length ?d \<le> WritableBytes b" by simp
  have b: "wf_buffer ?b" "content ?b = content b @ ?d"
    using write_at_end [OF assms(1) d] unfolding end_eq by simp_all
  have "room ?b (length data - WritableBytes b)"
    using assms(2,4) by (simp add: room_def)
  with buf.append_one [OF b(1), of "drop (WritableBytes b) data"] b(2) show ?thesis by simp
qed

text \<open>Whatever \<^verbatim>\<open>readv\<close> delivers, reading fails only with the vector's \<^verbatim>\<open>length_error\<close>.\<close>

lemma ReadFd_outcome:
  assumes "wf_buffer b" "readv_fits readv"
  shows "ReadFd readv b = Inl LengthError \<or> (\<exists>err. ReadFd readv b = Inr (-1, err, b))
    \<or> (\<exists>data b'. ReadFd readv b = Inr (int (length data), 0, b') \<and> wf_buffer b' \<and> content b' = content b @ data)"
proof -
  define iov where "iov = (if WritableBytes b < extrabuf_size then [WritableBytes b, extrabuf_size] else [WritableBytes b])"
  show ?thesis
  proof (cases "readv iov")
    case (Inl err)
    then show ?thesis by (simp add: ReadFd_def Let_def iov_def)
  next
    case (Inr data)
    note bd = wf_bounds [OF assms(1)]
    have len: "length data \<le> sum_list iov" using assms(2) Inr by (simp add: readv_fits_def)
    show ?thesis
    proof (cases "length data \<le> WritableBytes b")
      case True
      have "writer_index b + length data \<le> length (buf_bytes b)"
        using True bd by (simp add: WritableBytes_exact [OF assms(1)])
      with True Inr write_at_end [OF assms(1) True] bd show ?thesis
        by (auto simp: ReadFd_def Let_def machine_simps iov_def)
    next
      case False
      let ?d = "take (WritableBytes b) data"
      let ?b = "b\<lparr>buf_bytes := overwrite (writer_index b) ?d (buf_bytes b), writer_index := length (buf_bytes b)\<rparr>"
      have e: "writer_index b + length ?d = length (buf_bytes b)"
        using False bd by (simp add: WritableBytes_exact [OF assms(1)])
      have b: "wf_buffer ?b" "content ?b = content b @ ?d"
        using write_at_end [OF assms(1), of ?d] unfolding e by simp_all
      have n: "length data - WritableBytes b < 2 ^ 63"
        using len by (simp add: iov_def extrabuf_size_def split: if_splits)
      have run: "ReadFd readv b = and_then (Append ?b (drop (WritableBytes b) data) (length data - WritableBytes b))
          (\<lambda>b2. Inr (int (length data), 0, b2))"
        using False Inr e by (simp add: ReadFd_def Let_def iov_def)
      from Append_outcome [OF b(1) _ n, of "drop (WritableBytes b) data"] run b(2) show ?thesis by auto
    qed
  qed
qed

lemma ReadFd_reads:
  assumes "wf_buffer b" and "readv_fits readv"
    and "length (buf_bytes b) + extrabuf_size \<le> vector_max_size"
  shows "case readv (if WritableBytes b < extrabuf_size then [WritableBytes b, extrabuf_size]
                     else [WritableBytes b]) of
      Inl err \<Rightarrow> ReadFd readv b = Inr (-1, err, b)
    | Inr data \<Rightarrow> (\<exists>b'. ReadFd readv b = Inr (int (length data), 0, b') \<and> wf_buffer b'
        \<and> content b' = content b @ data)"
proof -
  let ?iov = "if WritableBytes b < extrabuf_size then [WritableBytes b, extrabuf_size] else [WritableBytes b]"
  show ?thesis
  proof (cases "readv ?iov")
    case (Inl err)
    then show ?thesis by (simp add: ReadFd_def Let_def)
  next
    case (Inr data)
    show ?thesis
    proof (cases "length data \<le> WritableBytes b")
      case True
      note bd = wf_bounds [OF assms(1)]
      have "writer_index b + length data \<le> length (buf_bytes b)"
        using True bd by (simp add: WritableBytes_exact [OF assms(1)])
      with True Inr write_at_end [OF assms(1) True] bd show ?thesis
        by (simp add: ReadFd_def Let_def machine_simps)
    next
      case False
      have "length data \<le> sum_list ?iov" using assms(2) Inr by (auto simp: readv_fits_def)
      with False have "length data \<le> WritableBytes b + extrabuf_size" by (simp split: if_splits)
      then obtain b' where "Append (b\<lparr>buf_bytes := overwrite (writer_index b) (take (WritableBytes b) data)
            (buf_bytes b), writer_index := length (buf_bytes b)\<rparr>) (drop (WritableBytes b) data)
            (length data - WritableBytes b) = Inr b'" "wf_buffer b'" "content b' = content b @ data"
        using ReadFd_extra [OF assms(1,3), of data] False by auto
      moreover have "writer_index b + length (take (WritableBytes b) data) \<le> length (buf_bytes b)"
        using wf_bounds [OF assms(1)] by (auto simp: WritableBytes_exact [OF assms(1)])
      ultimately show ?thesis using False Inr by (simp add: ReadFd_def Let_def)
    qed
  qed
qed

text \<open>
  C9. \<^verbatim>\<open>ReadFd\<close> loses nothing and invents nothing: if \<^verbatim>\<open>readv\<close> fails the buffer is untouched and
  its error number is handed on; otherwise the bytes it delivered, whether they ended in the
  buffer or spilled into \<^verbatim>\<open>extrabuf\<close>, are appended in order and their number is returned.
\<close>

theorem ReadFd_appends_what_was_read:
  assumes "wf_buffer b" and "readv_fits readv"
    and "length (buf_bytes b) + extrabuf_size \<le> vector_max_size"
  shows "case readv (if WritableBytes b < extrabuf_size then [WritableBytes b, extrabuf_size]
                     else [WritableBytes b]) of
      Inl err \<Rightarrow> ReadFd readv b = Inr (-1, err, b)
    | Inr data \<Rightarrow> (\<exists>b'. ReadFd readv b = Inr (int (length data), 0, b') \<and> wf_buffer b'
        \<and> content b' = content b @ data)"
  by (rule ReadFd_reads [OF assms])

theorem ReadFd_appends_what_was_read_witness:
  "\<exists>b b'. Buffer_new 2 = Inr b \<and> readv_fits (\<lambda>iov. Inr (take (sum_list iov) ''hello''))
   \<and> ReadFd (\<lambda>iov. Inr (take (sum_list iov) ''hello'')) b = Inr (5, 0, b') \<and> content b' = ''hello''"
proof -
  obtain b where b: "Buffer_new 2 = Inr b" "wf_buffer b" "content b = []" "WritableBytes b = 2"
      "writer_index b = kCheapPrepend"
    using Buffer_new_empty [of 2] by (auto simp: buffer_const_defs)
  have fits: "readv_fits (\<lambda>iov. Inr (take (sum_list iov) ''hello''))" by (simp add: readv_fits_def)
  have "length (buf_bytes b) = 10"
    using b wf_bounds [OF b(2)] by (simp add: WritableBytes_exact [OF b(2)] kCheapPrepend_def)
  then have "length (buf_bytes b) + extrabuf_size \<le> vector_max_size" by (simp add: buffer_const_defs)
  from ReadFd_appends_what_was_read [OF b(2) fits this] b fits show ?thesis
    by (auto simp: extrabuf_size_def)
qed

subsection \<open>Shrinking\<close>

lemma Append_in_place:
  assumes "wf_buffer b" "n \<le> WritableBytes b" "n \<le> length data"
  shows "\<exists>b'. Append b data n = Inr b' \<and> wf_buffer b' \<and> content b' = content b @ take n data
    \<and> WritableBytes b' = WritableBytes b - n"
proof -
  note bd = wf_bounds [OF assms(1)]
  let ?b = "b\<lparr>buf_bytes := overwrite (writer_index b) (take n data) (buf_bytes b),
              writer_index := writer_index b + n\<rparr>"
  have fits: "writer_index b + n \<le> length (buf_bytes b)" "length (take n data) = n"
    using assms bd by (simp_all add: WritableBytes_exact)
  have b: "wf_buffer ?b" "content ?b = content b @ take n data"
    using write_at_end [OF assms(1), of "take n data"] assms(2) fits(2) by simp_all
  have "WritableBytes (b\<lparr>buf_bytes := overwrite (writer_index b) (take n data) (buf_bytes b)\<rparr>) = WritableBytes b"
    using fits by (simp add: WritableBytes_def)
  then have "Append b data n = Inr ?b"
    using assms fits bd
    by (simp add: Append_def EnsureWritableBytes_def copy_in_def BeginWrite_def HasWritten_def machine_simps)
  moreover have "WritableBytes ?b = WritableBytes b - n"
    using WritableBytes_exact [OF b(1)] WritableBytes_exact [OF assms(1)] fits by simp
  ultimately show ?thesis using b by blast
qed

lemma Shrink_prepared:
  assumes "wf_buffer b" "length (content b) + reserve + 2048 \<le> vector_max_size"
  shows "\<exists>other. wf_buffer other \<and> content other = []
    \<and> length (content b) + reserve \<le> WritableBytes other \<and> writer_index other \<le> kCheapPrepend
    \<and> Shrink b reserve = and_then (Append_piece other (ToStringPiece b)) (\<lambda>o2. Inr (fst (Buffer_swap b o2)))"
proof -
  obtain o1 where o1: "Buffer_new kInitialSize = Inr o1" "wf_buffer o1" "content o1 = []"
      "writer_index o1 = kCheapPrepend"
    using Buffer_new_empty [of kInitialSize] by (auto simp: buffer_const_defs)
  then have "room o1 (length (content b) + reserve)"
    using assms(2) by (simp add: room_def buffer_const_defs)
  moreover have "size_add (ReadableBytes b) reserve = length (content b) + reserve"
    using assms by (simp add: machine_simps vector_max_size_def)
  ultimately show ?thesis
    using EnsureWritableBytes_content [OF o1(2)] o1 by (fastforce simp: Shrink_def)
qed

lemma fst_Buffer_swap [simp]: "fst (Buffer_swap b other) = other"
  by (simp add: Buffer_swap_def)

lemma ToStringPiece_data:
  assumes "wf_buffer b"
  shows "Append_piece other (ToStringPiece b) = Append other (drop (reader_index b) (buf_bytes b))
      (size_of_int (int_of_size (length (content b))))"
  using assms by (simp add: Append_piece_def ToStringPiece_def StringPiece_range_def Peek_def)

text \<open>
  \<^verbatim>\<open>Shrink(reserve)\<close> of less than 2 GiB of content keeps the content and leaves room for
  \<open>reserve\<close> bytes. From 2 GiB on the \<^verbatim>\<open>int\<close> length of the intermediate \<^verbatim>\<open>StringPiece\<close> wraps:
  up to eight bytes below 4 GiB it is negative and \<^verbatim>\<open>Append\<close> asks the vector for almost \<open>2 ^ 64\<close> bytes, which
  raises \<^verbatim>\<open>length_error\<close>; at exactly 4 GiB it is zero and the content is lost.
\<close>

lemma Shrink_keeps_small_content:
  assumes "wf_buffer b" and "length (content b) + reserve + 2048 \<le> vector_max_size"
  shows "(length (content b) < 2 ^ 31 \<longrightarrow>
      (\<exists>b'. Shrink b reserve = Inr b' \<and> wf_buffer b' \<and> content b' = content b
        \<and> reserve \<le> WritableBytes b'))
    \<and> (2 ^ 31 \<le> length (content b) \<and> length (content b) < 2 ^ 32 - 8 \<longrightarrow> Shrink b reserve = Inl LengthError)
    \<and> (length (content b) = 2 ^ 32 \<longrightarrow> (\<exists>b'. Shrink b reserve = Inr b' \<and> content b' = []))"
proof -
  obtain oth where oth: "wf_buffer oth" "content oth = []" "writer_index oth \<le> 8"
      "length (content b) + reserve \<le> WritableBytes oth"
      "Shrink b reserve = and_then (Append_piece oth (ToStringPiece b)) (\<lambda>o2. Inr (fst (Buffer_swap b o2)))"
    using Shrink_prepared [OF assms] by (auto simp: kCheapPrepend_def)
  let ?d = "drop (reader_index b) (buf_bytes b)"
  let ?n = "length (content b)"
  have d: "take ?n ?d = content b" "?n \<le> length ?d"
    using wf_bounds [OF assms(1)] by (simp_all add: length_content [OF assms(1)] content_def range_of_def)
  have small: "\<exists>b'. Shrink b reserve = Inr b' \<and> wf_buffer b' \<and> content b' = content b
      \<and> reserve \<le> WritableBytes b'" if "?n < 2 ^ 31"
  proof -
    have "size_of_int (int_of_size ?n) = ?n"
      using that by (simp add: int_of_size_def size_of_int_def)
    then show ?thesis
      using oth d Append_in_place [OF oth(1), of ?n ?d]
      by (auto simp: ToStringPiece_data [OF assms(1)])
  qed
  have big: "Shrink b reserve = Inl LengthError" if "2 ^ 31 \<le> ?n" "?n < 2 ^ 32 - 8"
  proof -
    let ?len = "?n + 2 ^ 64 - 2 ^ 32"
    have len: "size_of_int (int_of_size ?n) = ?len"
      using that by (simp add: int_of_size_negative size_of_int_negative nat_diff_distrib' nat_add_distrib)
    have "MakeSpace oth ?len = Inl LengthError"
      using that oth wf_bounds [OF oth(1)]
      by (simp add: MakeSpace_def vector_resize_def size_add_def PrependableBytes_def
          WritableBytes_exact [OF oth(1)] buffer_const_defs)
    moreover have "WritableBytes oth < ?len"
      using wf_bounds [OF oth(1)] that by (simp add: WritableBytes_exact [OF oth(1)])
    ultimately show ?thesis
      using oth(5) len by (simp add: ToStringPiece_data [OF assms(1)] Append_def EnsureWritableBytes_def)
  qed
  have lost: "\<exists>b'. Shrink b reserve = Inr b' \<and> content b' = []" if "?n = 2 ^ 32"
  proof -
    have "size_of_int (int_of_size ?n) = 0"
      using that by (simp add: int_of_size_def size_of_int_def)
    then show ?thesis
      using oth Append_in_place [OF oth(1), of 0 ?d]
      by (auto simp: ToStringPiece_data [OF assms(1)])
  qed
  from small big lost show ?thesis by blast
qed

end
