(* ===== verification/Tcp_Connection.thy ===== *)
theory Tcp_Connection
  imports Buffer Channel Event_Loop
begin

text \<open>
  \<^verbatim>\<open>muduo-cpp11/net/tcp_connection.h\<close> and \<^verbatim>\<open>tcp_connection.cpp\<close>. A connection is its channel and the
  fields of \<^verbatim>\<open>TcpConnection\<close>; handlers are functions on the pair, so that \<^verbatim>\<open>Channel::HandleEvent\<close>
  dispatches to them as in the source. What the code hands to the loop (\<^verbatim>\<open>QueueInLoop\<close>, \<^verbatim>\<open>RunAfter\<close>)
  is appended to \<open>loop_functors\<close> and \<open>delayed_closes\<close>; calls of user callbacks are appended to
  \<open>callback_log\<close> and then do what \<open>user\<close> says: any sequence of calls on the connection. The
  effect of \<^verbatim>\<open>EnableWriting\<close> and its like on the poller is the subject of the poller theories; here
  it is the event mask of the channel. The handlers of events, \<^verbatim>\<open>ConnectEstablished\<close>, \<^verbatim>\<open>ConnectDestroyed\<close> and \<^verbatim>\<open>ForceCloseInLoop\<close> are
  private to the loop, which runs them in its own thread, so their \<^verbatim>\<open>AssertInLoopThread\<close> is left out; where a caller's thread matters it
  is an argument.

  Parameters: \<open>write\<close> and \<open>readv\<close> are the system calls. \<open>socket_out\<close> is what the kernel has accepted
  for sending, in order, \<open>write_shut\<close> says that \<^verbatim>\<open>shutdown(SHUT_WR)\<close> was called. The history
  variable \<open>accepted\<close> collects the messages the connection took for sending.

  Shown: the byte stream is never reordered, duplicated or lost; end of stream is only sent after
  all accepted bytes; the state machine and the assertions hold in every run.
\<close>

section \<open>Connections\<close>

datatype conn_state = kDisconnected | kConnecting | kConnected | kDisconnecting

datatype conn_functor =
    SendInLoop_functor "char list"
  | ShutdownInLoop_functor
  | ForceCloseInLoop_functor
  | WriteComplete_functor
  | HighWaterMark_functor nat

datatype conn_event = Connection_callback conn_state | Message_callback | Close_callback
  | WriteComplete_callback | HighWaterMark_callback nat

record tcp_connection =
  tc_state :: conn_state
  input_buffer :: buffer
  output_buffer :: buffer
  high_watermark :: nat
  has_write_complete_callback :: bool
  has_high_watermark_callback :: bool
  socket_out :: "char list"
  write_shut :: bool
  accepted :: "char list"
  loop_functors :: "conn_functor list"
  delayed_closes :: "double list"
  callback_log :: "conn_event list"

type_synonym conn = "channel \<times> tcp_connection"
type_synonym write_call = "conn \<Rightarrow> char list \<Rightarrow> int + nat"

definition EWOULDBLOCK :: int where "EWOULDBLOCK = 11"
definition EPIPE :: int where "EPIPE = 32"
definition ECONNRESET :: int where "ECONNRESET = 104"

definition TcpConnection_new :: "int \<Rightarrow> bool \<Rightarrow> bool \<Rightarrow> conn outcome" where
  "TcpConnection_new sockfd wc hw =
     and_then (Buffer_new kInitialSize) (\<lambda>ib. and_then (Buffer_new kInitialSize) (\<lambda>ob.
       Inr (Channel_new sockfd,
         \<lparr>tc_state = kConnecting, input_buffer = ib, output_buffer = ob, high_watermark = 64 * 1024 * 1024,
          has_write_complete_callback = wc, has_high_watermark_callback = hw, socket_out = [], write_shut = False,
          accepted = [], loop_functors = [], delayed_closes = [], callback_log = []\<rparr>)))"

definition TcpConnection_destroy :: "conn \<Rightarrow> unit outcome" where
  "TcpConnection_destroy s = asserting (tc_state (snd s) = kDisconnected) ''state_ == kDisconnected'' (Inr ())"

definition conn_connected :: "conn \<Rightarrow> bool" where
  "conn_connected s \<longleftrightarrow> tc_state (snd s) = kConnected"

definition conn_disconnected :: "conn \<Rightarrow> bool" where
  "conn_disconnected s \<longleftrightarrow> tc_state (snd s) = kDisconnected"

definition set_high_watermark_callback :: "nat \<Rightarrow> conn \<Rightarrow> conn" where
  "set_high_watermark_callback mark s =
     (fst s, snd s\<lparr>has_high_watermark_callback := True, high_watermark := mark\<rparr>)"

definition StateToString :: "conn_state \<Rightarrow> string" where
  "StateToString st = (case st of kDisconnected \<Rightarrow> ''kDisconnected'' | kConnecting \<Rightarrow> ''kConnecting''
     | kConnected \<Rightarrow> ''kConnected'' | kDisconnecting \<Rightarrow> ''kDisconnecting'')"

definition conn_QueueInLoop :: "conn_functor \<Rightarrow> tcp_connection \<Rightarrow> tcp_connection" where
  "conn_QueueInLoop f c = c\<lparr>loop_functors := loop_functors c @ [f]\<rparr>"

subsection \<open>Sending\<close>

definition try_write :: "write_call \<Rightarrow> char list \<Rightarrow> conn \<Rightarrow> nat \<times> nat \<times> bool \<times> tcp_connection" where
  "try_write write data s =
     (let c = snd s; len = length data in
      if \<not> IsWriting (fst s) \<and> ReadableBytes (output_buffer c) = 0
      then (case write s data of
              Inr n \<Rightarrow>
                let remaining = size_sub len n;
                    c1 = c\<lparr>socket_out := socket_out c @ take n data\<rparr>
                in (n, remaining, False,
                    if remaining = 0 \<and> has_write_complete_callback c1
                    then conn_QueueInLoop WriteComplete_functor c1 else c1)
            | Inl err \<Rightarrow> (0, len, err \<noteq> EWOULDBLOCK \<and> (err = EPIPE \<or> err = ECONNRESET), c))
      else (0, len, False, c))"

definition SendInLoop :: "bool \<Rightarrow> write_call \<Rightarrow> char list \<Rightarrow> conn \<Rightarrow> conn outcome" where
  "SendInLoop in_loop_thread write data s =
     AssertInLoopThread in_loop_thread
     (if tc_state (snd s) = kDisconnected then Inr s
      else
        let (nwrote, remaining, fault_error, c1) = try_write write data s;
            c2 = (if fault_error then c1 else c1\<lparr>accepted := accepted c1 @ data\<rparr>)
        in asserting (remaining \<le> length data) ''remaining <= len''
          (if \<not> fault_error \<and> remaining > 0 then
             let old_len = ReadableBytes (output_buffer c2);
                 c3 = (if high_watermark c2 \<le> size_add old_len remaining \<and> old_len < high_watermark c2
                          \<and> has_high_watermark_callback c2
                       then conn_QueueInLoop (HighWaterMark_functor (size_add old_len remaining)) c2 else c2)
             in and_then (Append (output_buffer c3) (drop nwrote data) remaining) (\<lambda>ob.
                  Inr (if IsWriting (fst s) then fst s else with_events (\<lambda>ev. ev OR kWriteEvent) (fst s),
                       c3\<lparr>output_buffer := ob\<rparr>))
           else Inr (fst s, c2)))"

definition Send :: "bool \<Rightarrow> write_call \<Rightarrow> char list \<Rightarrow> conn \<Rightarrow> conn outcome" where
  "Send in_loop_thread write message s =
     (if tc_state (snd s) = kConnected
      then if in_loop_thread then SendInLoop True write message s
           else Inr (fst s, conn_QueueInLoop (SendInLoop_functor message) (snd s))
      else Inr s)"

definition Send_buffer :: "bool \<Rightarrow> write_call \<Rightarrow> buffer \<Rightarrow> conn \<Rightarrow> (conn \<times> buffer) outcome" where
  "Send_buffer in_loop_thread write buf s =
     (if tc_state (snd s) = kConnected
      then if in_loop_thread
           then and_then (read_bytes buf (ReadableBytes buf)) (\<lambda>data.
                and_then (SendInLoop True write data s) (\<lambda>s'. Inr (s', RetrieveAll buf)))
           else and_then (RetrieveAllAsString buf) (\<lambda>(data, buf').
                Inr ((fst s, conn_QueueInLoop (SendInLoop_functor data) (snd s)), buf'))
      else Inr (s, buf))"

subsection \<open>Closing\<close>

definition ShutdownInLoop :: "bool \<Rightarrow> conn \<Rightarrow> conn outcome" where
  "ShutdownInLoop in_loop_thread s =
     AssertInLoopThread in_loop_thread
       (Inr (fst s, if \<not> IsWriting (fst s) then snd s\<lparr>write_shut := True\<rparr> else snd s))"

definition Shutdown :: "bool \<Rightarrow> conn \<Rightarrow> conn outcome" where
  "Shutdown in_loop_thread s =
     (if tc_state (snd s) = kConnected
      then let s1 = (fst s, snd s\<lparr>tc_state := kDisconnecting\<rparr>)
           in if in_loop_thread then ShutdownInLoop True s1
              else Inr (fst s1, conn_QueueInLoop ShutdownInLoop_functor (snd s1))
      else Inr s)"

definition ForceClose :: "conn \<Rightarrow> conn" where
  "ForceClose s =
     (if tc_state (snd s) = kConnected \<or> tc_state (snd s) = kDisconnecting
      then (fst s, conn_QueueInLoop ForceCloseInLoop_functor (snd s\<lparr>tc_state := kDisconnecting\<rparr>))
      else s)"

definition ForceCloseWithDelay :: "double \<Rightarrow> conn \<Rightarrow> conn" where
  "ForceCloseWithDelay seconds s =
     (if tc_state (snd s) = kConnected \<or> tc_state (snd s) = kDisconnecting
      then (fst s, snd s\<lparr>tc_state := kDisconnecting, delayed_closes := delayed_closes (snd s) @ [seconds]\<rparr>)
      else s)"

subsection \<open>User callbacks\<close>

datatype user_call =
    User_Send "char list"
  | User_Shutdown
  | User_ForceClose
  | User_ForceCloseWithDelay double
  | User_Retrieve nat

definition run_user_call :: "write_call \<Rightarrow> user_call \<Rightarrow> conn \<Rightarrow> conn outcome" where
  "run_user_call write u s = (case u of
       User_Send data \<Rightarrow> Send True write data s
     | User_Shutdown \<Rightarrow> Shutdown True s
     | User_ForceClose \<Rightarrow> Inr (ForceClose s)
     | User_ForceCloseWithDelay d \<Rightarrow> Inr (ForceCloseWithDelay d s)
     | User_Retrieve n \<Rightarrow> and_then (Retrieve (input_buffer (snd s)) (min n (ReadableBytes (input_buffer (snd s)))))
         (\<lambda>ib. Inr (fst s, snd s\<lparr>input_buffer := ib\<rparr>)))"

type_synonym user = "conn_event \<Rightarrow> conn \<Rightarrow> user_call list"

definition call_user :: "user \<Rightarrow> write_call \<Rightarrow> conn_event \<Rightarrow> conn \<Rightarrow> conn outcome" where
  "call_user user write ev s =
     for_each (run_user_call write) (user ev s) (fst s, snd s\<lparr>callback_log := callback_log (snd s) @ [ev]\<rparr>)"

text \<open>The callbacks a connection has until the user sets his own: one only logs, the other drops what was read.\<close>

definition DefaultConnectionCallback :: "conn \<Rightarrow> user_call list" where
  "DefaultConnectionCallback s = []"

definition DefaultMessageCallback :: "conn \<Rightarrow> user_call list" where
  "DefaultMessageCallback s = [User_Retrieve (ReadableBytes (input_buffer (snd s)))]"

definition default_user :: user where
  "default_user ev s = (case ev of
       Connection_callback _ \<Rightarrow> DefaultConnectionCallback s
     | Message_callback \<Rightarrow> DefaultMessageCallback s
     | _ \<Rightarrow> [])"

subsection \<open>Events\<close>

definition HandleClose :: "user \<Rightarrow> write_call \<Rightarrow> conn \<Rightarrow> conn outcome" where
  "HandleClose user write s =
     asserting (tc_state (snd s) = kConnected \<or> tc_state (snd s) = kDisconnecting)
       ''state_ == kConnected || state_ == kDisconnecting''
     (and_then (call_user user write (Connection_callback kDisconnected)
                 (with_events (\<lambda>_. kNoneEvent) (fst s), snd s\<lparr>tc_state := kDisconnected\<rparr>))
       (call_user user write Close_callback))"

definition HandleError :: "conn \<Rightarrow> conn outcome" where
  "HandleError s = Inr s"

definition HandleRead :: "user \<Rightarrow> write_call \<Rightarrow> readv_call \<Rightarrow> timestamp \<Rightarrow> conn \<Rightarrow> conn outcome" where
  "HandleRead user write readv receive_time s =
     and_then (ReadFd readv (input_buffer (snd s))) (\<lambda>(n, saved_errno, ib).
       let s1 = (fst s, snd s\<lparr>input_buffer := ib\<rparr>)
       in if n > 0 then call_user user write Message_callback s1
          else if n = 0 then HandleClose user write s1
          else HandleError s1)"

definition HandleWrite :: "write_call \<Rightarrow> conn \<Rightarrow> conn outcome" where
  "HandleWrite write s =
     (if IsWriting (fst s) then
        and_then (read_bytes (output_buffer (snd s)) (ReadableBytes (output_buffer (snd s)))) (\<lambda>data.
        (case write s data of
           Inl err \<Rightarrow> Inr s
         | Inr n \<Rightarrow>
             if n > 0 then
               and_then (Retrieve (output_buffer (snd s)) n) (\<lambda>ob.
                 let c1 = snd s\<lparr>output_buffer := ob, socket_out := socket_out (snd s) @ take n data\<rparr>
                 in if ReadableBytes ob = 0 then
                      let ch1 = with_events (\<lambda>ev. ev AND NOT kWriteEvent) (fst s);
                          c2 = (if has_write_complete_callback c1 then conn_QueueInLoop WriteComplete_functor c1 else c1)
                      in if tc_state c2 = kDisconnecting then ShutdownInLoop True (ch1, c2) else Inr (ch1, c2)
                    else Inr (fst s, c1))
             else Inr s))
      else Inr s)"

definition ForceCloseInLoop :: "user \<Rightarrow> write_call \<Rightarrow> conn \<Rightarrow> conn outcome" where
  "ForceCloseInLoop user write s =
     (if tc_state (snd s) = kConnected \<or> tc_state (snd s) = kDisconnecting
      then HandleClose user write s else Inr s)"

definition ConnectEstablished :: "user \<Rightarrow> write_call \<Rightarrow> conn \<Rightarrow> conn outcome" where
  "ConnectEstablished user write s =
     asserting (tc_state (snd s) = kConnecting) ''state_ == kConnecting''
     (call_user user write (Connection_callback kConnected)
       (with_events (\<lambda>ev. ev OR kReadEvent) (Channel_Tie (fst s)), snd s\<lparr>tc_state := kConnected\<rparr>))"

definition ConnectDestroyed :: "user \<Rightarrow> write_call \<Rightarrow> conn \<Rightarrow> conn outcome" where
  "ConnectDestroyed user write s =
     and_then
       (if tc_state (snd s) = kConnected
        then call_user user write (Connection_callback kDisconnected)
               (with_events (\<lambda>_. kNoneEvent) (fst s), snd s\<lparr>tc_state := kDisconnected\<rparr>)
        else Inr s)
       (\<lambda>s1. asserting (IsNoneEvent (fst s1)) ''IsNoneEvent()''
             (Inr (fst s1\<lparr>added_to_loop := False\<rparr>, snd s1)))"

definition run_conn_functor :: "user \<Rightarrow> write_call \<Rightarrow> conn_functor \<Rightarrow> conn \<Rightarrow> conn outcome" where
  "run_conn_functor user write f s = (case f of
       SendInLoop_functor data \<Rightarrow> SendInLoop True write data s
     | ShutdownInLoop_functor \<Rightarrow> ShutdownInLoop True s
     | ForceCloseInLoop_functor \<Rightarrow> ForceCloseInLoop user write s
     | WriteComplete_functor \<Rightarrow> call_user user write WriteComplete_callback s
     | HighWaterMark_functor n \<Rightarrow> call_user user write (HighWaterMark_callback n) s)"

text \<open>The callbacks the constructor binds to the channel.\<close>

definition conn_callbacks :: "user \<Rightarrow> write_call \<Rightarrow> readv_call \<Rightarrow> tcp_connection callbacks" where
  "conn_callbacks user write readv =
     \<lparr>read_callback = Some (HandleRead user write readv), write_callback = Some (HandleWrite write),
      close_callback = Some (HandleClose user write), error_callback = Some HandleError\<rparr>"

section \<open>The invariant\<close>

definition write_ok :: "write_call \<Rightarrow> bool" where
  "write_ok write \<longleftrightarrow>
     (\<forall>s data n. write s data = Inr n \<longrightarrow> n \<le> length data \<and> \<not> write_shut (snd s))
     \<and> (\<forall>s data err. write s data = Inl err \<and> write_shut (snd s) \<longrightarrow> err = EPIPE)"

definition functors_small :: "conn_functor list \<Rightarrow> bool" where
  "functors_small fs \<longleftrightarrow> (\<forall>data. SendInLoop_functor data \<in> set fs \<longrightarrow> length data < 2 ^ 63)"

definition conn_inv :: "conn \<Rightarrow> bool" where
  "conn_inv s \<longleftrightarrow> (case s of (ch, c) \<Rightarrow>
     wf_buffer (input_buffer c) \<and> wf_buffer (output_buffer c) \<and> functors_small (loop_functors c)
     \<and> socket_out c @ content (output_buffer c) = accepted c
     \<and> (tc_state c = kDisconnected \<or> tc_state c = kConnecting \<longrightarrow> IsNoneEvent ch)
     \<and> (tc_state c = kConnecting \<longrightarrow> content (output_buffer c) = [] \<and> loop_functors c = [])
     \<and> (tc_state c = kConnected \<longrightarrow> ShutdownInLoop_functor \<notin> set (loop_functors c))
     \<and> (tc_state c = kConnected \<or> tc_state c = kDisconnecting \<longrightarrow>
          any_of (ch_events ch) kReadEvent \<and> (IsWriting ch \<longleftrightarrow> content (output_buffer c) \<noteq> []))
     \<and> (write_shut c \<longrightarrow> tc_state c = kDisconnected \<or> tc_state c = kDisconnecting \<and> content (output_buffer c) = []))"

definition conn_live :: "conn \<Rightarrow> bool" where
  "conn_live s \<longleftrightarrow> conn_inv s \<and> tc_state (snd s) \<noteq> kConnecting"

definition user_ok :: "user \<Rightarrow> bool" where
  "user_ok user \<longleftrightarrow> (\<forall>ev s data. User_Send data \<in> set (user ev s) \<longrightarrow> length data < 2 ^ 63)"

lemma user_okD: "user_ok user \<Longrightarrow> User_Send data \<in> set (user ev s) \<Longrightarrow> length data < 2 ^ 63"
  unfolding user_ok_def by blast

text \<open>What a call on the connection from within a callback leaves alone.\<close>

definition conn_frame :: "conn \<Rightarrow> conn \<Rightarrow> bool" where
  "conn_frame s s' \<longleftrightarrow> conn_live s'
     \<and> (tc_state (snd s) = kDisconnected \<longleftrightarrow> tc_state (snd s') = kDisconnected)
     \<and> callback_log (snd s') = callback_log (snd s) \<and> ch_revents (fst s') = ch_revents (fst s)"

lemma IsNoneEvent_not_writing: "IsNoneEvent ch \<Longrightarrow> \<not> IsWriting ch"
  by (simp add: IsNoneEvent_def IsWriting_def any_of_def kNoneEvent_def)

lemma functors_small_simps [simp]:
  "functors_small []" "functors_small (fs @ gs) \<longleftrightarrow> functors_small fs \<and> functors_small gs"
  "functors_small (f # fs) \<longleftrightarrow> (\<forall>data. f = SendInLoop_functor data \<longrightarrow> length data < 2 ^ 63) \<and> functors_small fs"
  by (auto simp: functors_small_def)

lemma write_okD:
  assumes "write_ok write"
  shows "write s data = Inr n \<Longrightarrow> n \<le> length data \<and> \<not> write_shut (snd s)"
    "write s data = Inl err \<Longrightarrow> write_shut (snd s) \<Longrightarrow> err = EPIPE"
  using assms unfolding write_ok_def by blast+

lemma with_events_simps [simp]:
  "IsWriting (with_events (\<lambda>ev. ev OR kWriteEvent) ch)"
  "\<not> IsWriting (with_events (\<lambda>ev. ev AND NOT kWriteEvent) ch)"
  "any_of (ch_events (with_events (\<lambda>ev. ev OR kWriteEvent) ch)) kReadEvent \<longleftrightarrow> any_of (ch_events ch) kReadEvent"
  "any_of (ch_events (with_events (\<lambda>ev. ev AND NOT kWriteEvent) ch)) kReadEvent \<longleftrightarrow> any_of (ch_events ch) kReadEvent"
  "IsNoneEvent (with_events (\<lambda>_. kNoneEvent) ch)" "\<not> IsWriting (with_events (\<lambda>_. kNoneEvent) ch)"
  by (simp_all add: with_events_def IsWriting_def word_mask_simps IsNoneEvent_def any_of_def kNoneEvent_def
      flip: any_of_def) (simp add: any_of_def)

lemma with_events_revents [simp]: "ch_revents (with_events f ch) = ch_revents ch"
  by (simp add: with_events_def)

lemma conn_invD:
  assumes "conn_inv (ch, c)"
  shows "wf_buffer (input_buffer c)" "wf_buffer (output_buffer c)" "functors_small (loop_functors c)"
    "socket_out c @ content (output_buffer c) = accepted c"
    "tc_state c = kDisconnected \<or> tc_state c = kConnecting \<Longrightarrow> IsNoneEvent ch"
    "tc_state c = kConnected \<or> tc_state c = kDisconnecting \<Longrightarrow>
       any_of (ch_events ch) kReadEvent \<and> (IsWriting ch \<longleftrightarrow> content (output_buffer c) \<noteq> [])"
    "write_shut c \<Longrightarrow> tc_state c = kDisconnected \<or> tc_state c = kDisconnecting \<and> content (output_buffer c) = []"
    "tc_state c = kConnected \<Longrightarrow> ShutdownInLoop_functor \<notin> set (loop_functors c)"
  using assms unfolding conn_inv_def prod.case by blast+

lemma try_write_ok:
  assumes w: "write_ok write" and inv: "conn_inv (ch, c)" and len: "length data < 2 ^ 63"
    and st: "tc_state c = kConnected \<or> tc_state c = kDisconnecting"
  obtains n fault fs where
    "try_write write data (ch, c) = (n, length data - n, fault,
       c\<lparr>socket_out := socket_out c @ take n data, loop_functors := loop_functors c @ fs\<rparr>)"
    "n \<le> length data" "0 < n \<longrightarrow> content (output_buffer c) = []" "fault \<longrightarrow> n = 0" "write_shut c \<longrightarrow> fault"
    "fs = [] \<or> fs = [WriteComplete_functor]"
proof -
  note i = conn_invD [OF inv]
  have idle: "\<not> IsWriting ch \<and> ReadableBytes (output_buffer c) = 0 \<longleftrightarrow> content (output_buffer c) = []"
    using i(6) [OF st] i(2) by auto
  have shut: "content (output_buffer c) = []" if "write_shut c" using i(7) [OF that] st by auto
  show thesis
  proof (cases "content (output_buffer c) = []")
    case True
    then have go: "\<not> IsWriting ch" "ReadableBytes (output_buffer c) = 0" using idle by blast+
    show ?thesis
    proof (cases "write (ch, c) data")
      case (Inl err)
      show ?thesis
        by (rule that [of 0 "err \<noteq> EWOULDBLOCK \<and> (err = EPIPE \<or> err = ECONNRESET)" "[]"])
          (use Inl go write_okD(2) [OF w Inl] True in \<open>auto simp: try_write_def EPIPE_def EWOULDBLOCK_def\<close>)
    next
      case (Inr n)
      then have n: "n \<le> length data" "\<not> write_shut c" using w by (auto simp: write_ok_def)
      then have "size_sub (length data) n = length data - n" using len by (simp add: machine_simps)
      then show ?thesis using Inr go n True
        by (intro that [of n False "if length data - n = 0 \<and> has_write_complete_callback c then [WriteComplete_functor] else []"])
          (auto simp: try_write_def Let_def conn_QueueInLoop_def)
    qed
  next
    case False
    then show ?thesis using idle shut
      by (intro that [of 0 False "[]"]) (auto simp: try_write_def Let_def)
  qed
qed

lemma SendInLoop_ok:
  assumes w: "write_ok write" and live: "conn_live s" and len: "length data < 2 ^ 63"
  shows "barring {LengthError} (conn_frame s) (SendInLoop True write data s)"
proof -
  obtain ch c where s: "s = (ch, c)" by (cases s)
  have inv: "conn_inv (ch, c)" and nc: "tc_state c \<noteq> kConnecting" using live s by (simp_all add: conn_live_def)
  note i = conn_invD [OF inv]
  show ?thesis
  proof (cases "tc_state c = kDisconnected")
    case True
    then show ?thesis using live s by (simp add: SendInLoop_def AssertInLoopThread_def conn_frame_def)
  next
    case False
    then have st: "tc_state c = kConnected \<or> tc_state c = kDisconnecting" using nc by (cases "tc_state c") auto
    from try_write_ok [OF w inv len st] obtain n fault fs where
      tw: "try_write write data (ch, c) = (n, length data - n, fault,
         c\<lparr>socket_out := socket_out c @ take n data, loop_functors := loop_functors c @ fs\<rparr>)"
      "n \<le> length data" "0 < n \<longrightarrow> content (output_buffer c) = []" "fault \<longrightarrow> n = 0" "write_shut c \<longrightarrow> fault"
      "fs = [] \<or> fs = [WriteComplete_functor]" .
    have order: "socket_out c @ take n data @ content (output_buffer c) @ drop n data = accepted c @ data"
      using i(4) tw(3) by (cases "n = 0") auto
    have fsm: "functors_small (loop_functors c @ fs)" using i(3) tw(6) by auto
    show ?thesis
    proof (cases "fault \<or> n = length data")
      case True
      then show ?thesis using tw s st i fsm order False
        by (auto simp: SendInLoop_def AssertInLoopThread_def conn_frame_def conn_live_def conn_inv_def)
    next
      case False
      let ?d = "drop n data" and ?k = "length data - n"
      have k: "0 < ?k" "?k < 2 ^ 63" "?k \<le> length ?d" using False tw(2) len by auto
      let ?c2 = "c\<lparr>socket_out := socket_out c @ take n data, loop_functors := loop_functors c @ fs, accepted := accepted c @ data\<rparr>"
      define c3 where "c3 = (if high_watermark ?c2 \<le> size_add (ReadableBytes (output_buffer ?c2)) ?k
          \<and> ReadableBytes (output_buffer ?c2) < high_watermark ?c2 \<and> has_high_watermark_callback ?c2
        then conn_QueueInLoop (HighWaterMark_functor (size_add (ReadableBytes (output_buffer ?c2)) ?k)) ?c2 else ?c2)"
      define ch' where "ch' = (if IsWriting ch then ch else with_events (\<lambda>ev. ev OR kWriteEvent) ch)"
      have c3: "tc_state c3 = tc_state c" "input_buffer c3 = input_buffer c" "output_buffer c3 = output_buffer c"
        "socket_out c3 = socket_out c @ take n data" "accepted c3 = accepted c @ data" "write_shut c3 = write_shut c"
        "callback_log c3 = callback_log c" "functors_small (loop_functors c3)"
        "ShutdownInLoop_functor \<in> set (loop_functors c3) \<longleftrightarrow> ShutdownInLoop_functor \<in> set (loop_functors c)"
        using fsm tw(6) by (auto simp: c3_def conn_QueueInLoop_def)
      have run: "SendInLoop True write data s =
          and_then (Append (output_buffer c) ?d ?k) (\<lambda>ob. Inr (ch', c3\<lparr>output_buffer := ob\<rparr>))"
        using tw(1) False k(1) s \<open>tc_state c \<noteq> kDisconnected\<close>
        by (simp add: SendInLoop_def AssertInLoopThread_def Let_def c3_def ch'_def conn_QueueInLoop_def)
      have "any_of (ch_events ch') kReadEvent" "IsWriting ch'" "ch_revents ch' = ch_revents ch"
        using i(6) [OF st] by (simp_all add: ch'_def)
      then have "conn_frame s (ch', c3\<lparr>output_buffer := ob\<rparr>)"
        if "wf_buffer ob" "content ob = content (output_buffer c) @ ?d" for ob
        using that c3 i(1,8) order st False tw(5) s k(1)
        by (auto simp: conn_frame_def conn_live_def conn_inv_def)
      with Append_outcome [OF i(2) k(3,2)] run show ?thesis by auto
    qed
  qed
qed

lemma conn_frame_refl: "conn_live s \<Longrightarrow> conn_frame s s"
  by (simp add: conn_frame_def)

lemma conn_frame_trans: "conn_frame s t \<Longrightarrow> conn_frame t u \<Longrightarrow> conn_frame s u"
  by (auto simp: conn_frame_def)

lemma ShutdownInLoop_ok:
  assumes "conn_live s" "tc_state (snd s) \<noteq> kConnected"
  shows "\<exists>s'. ShutdownInLoop True s = Inr s' \<and> conn_frame s s'"
  using assms IsNoneEvent_not_writing
  by (cases s, cases "tc_state (snd s)")
    (auto simp: ShutdownInLoop_def AssertInLoopThread_def conn_frame_def conn_live_def conn_inv_def)

lemma state_to_disconnecting:
  assumes "conn_live (ch, c)" "tc_state c = kConnected \<or> tc_state c = kDisconnecting"
  shows "conn_frame (ch, c) (ch, c\<lparr>tc_state := kDisconnecting\<rparr>)"
  using assms by (auto simp: conn_frame_def conn_live_def conn_inv_def)

lemma queue_functor_ok:
  assumes "conn_live (ch, c)" "functors_small [f]" "f = ShutdownInLoop_functor \<longrightarrow> tc_state c \<noteq> kConnected"
  shows "conn_frame (ch, c) (ch, conn_QueueInLoop f c)"
  using assms by (auto simp: conn_frame_def conn_live_def conn_inv_def conn_QueueInLoop_def)

lemma Shutdown_ok:
  assumes "conn_live s"
  shows "\<exists>s'. Shutdown b s = Inr s' \<and> conn_frame s s'"
proof (cases "tc_state (snd s) = kConnected")
  case True
  obtain ch c where s: "s = (ch, c)" by (cases s)
  let ?s = "(ch, c\<lparr>tc_state := kDisconnecting\<rparr>)"
  have f: "conn_frame s ?s" using state_to_disconnecting [of ch c] assms True s by simp
  then have live: "conn_live ?s" by (simp add: conn_frame_def)
  from ShutdownInLoop_ok [OF live] queue_functor_ok [OF live, of ShutdownInLoop_functor] conn_frame_trans [OF f] True s
  show ?thesis by (auto simp: Shutdown_def Let_def)
qed (simp add: Shutdown_def conn_frame_refl assms)

lemma ForceClose_ok:
  assumes "conn_live s"
  shows "conn_frame s (ForceClose s)"
proof (cases "tc_state (snd s) = kConnected \<or> tc_state (snd s) = kDisconnecting")
  case True
  obtain ch c where s: "s = (ch, c)" by (cases s)
  have f: "conn_frame s (ch, c\<lparr>tc_state := kDisconnecting\<rparr>)" using state_to_disconnecting [of ch c] assms True s by simp
  then have "conn_live (ch, c\<lparr>tc_state := kDisconnecting\<rparr>)" by (simp add: conn_frame_def)
  from conn_frame_trans [OF f queue_functor_ok [OF this, of ForceCloseInLoop_functor]] True s
  show ?thesis by (auto simp: ForceClose_def)
qed (use assms in \<open>auto simp: ForceClose_def conn_frame_refl\<close>)

lemma ForceCloseWithDelay_ok: "conn_live s \<Longrightarrow> conn_frame s (ForceCloseWithDelay d s)"
  by (cases s) (auto simp: ForceCloseWithDelay_def conn_frame_def conn_live_def conn_inv_def)

lemma Send_ok:
  assumes "write_ok write" "conn_live s" "length data < 2 ^ 63"
  shows "barring {LengthError} (conn_frame s) (Send b write data s)"
  using SendInLoop_ok [OF assms] queue_functor_ok [of "fst s" "snd s" "SendInLoop_functor data"] assms
  by (auto simp: Send_def conn_frame_refl)

lemma run_user_call_ok:
  assumes "write_ok write" "conn_live s" "\<And>data. u = User_Send data \<Longrightarrow> length data < 2 ^ 63"
  shows "barring {LengthError} (conn_frame s) (run_user_call write u s)"
proof (cases u)
  case (User_Send data)
  with Send_ok [OF assms(1,2)] assms(3) show ?thesis by (simp add: run_user_call_def)
next
  case User_Shutdown
  with Shutdown_ok [OF assms(2), of True] show ?thesis by (auto simp: run_user_call_def)
next
  case User_ForceClose
  with ForceClose_ok [OF assms(2)] show ?thesis by (simp add: run_user_call_def)
next
  case (User_ForceCloseWithDelay d)
  with ForceCloseWithDelay_ok [OF assms(2)] show ?thesis by (simp add: run_user_call_def)
next
  case (User_Retrieve n)
  obtain ch c where s: "s = (ch, c)" by (cases s)
  have wf: "wf_buffer (input_buffer c)" using assms(2) s by (simp add: conn_live_def conn_inv_def)
  then have "min n (ReadableBytes (input_buffer c)) \<le> length (content (input_buffer c))" by simp
  from Retrieve_content [OF wf this] obtain ib where
    "Retrieve (input_buffer c) (min n (ReadableBytes (input_buffer c))) = Inr ib" "wf_buffer ib" by blast
  then show ?thesis using User_Retrieve s assms(2)
    by (auto simp: run_user_call_def conn_frame_def conn_live_def conn_inv_def)
qed

text \<open>A callback may call what it likes: the connection stays consistent, and a closed one stays closed.\<close>

lemma call_user_ok:
  assumes "write_ok write" "user_ok user" "conn_live s"
  shows "barring {LengthError} (\<lambda>s'. conn_live s' \<and> (tc_state (snd s) = kDisconnected \<longleftrightarrow> tc_state (snd s') = kDisconnected)
      \<and> callback_log (snd s') = callback_log (snd s) @ [ev] \<and> ch_revents (fst s') = ch_revents (fst s))
    (call_user user write ev s)"
proof -
  let ?s = "(fst s, snd s\<lparr>callback_log := callback_log (snd s) @ [ev]\<rparr>)"
  have live: "conn_live ?s" using assms(3) by (cases s) (simp add: conn_live_def conn_inv_def)
  have "barring {LengthError} (conn_frame ?s) (for_each (run_user_call write) (user ev s) ?s)"
  proof (rule barring_for_each)
    show "conn_frame ?s ?s" using live by (rule conn_frame_refl)
    fix u t
    assume u: "u \<in> set (user ev s)" and t: "conn_frame ?s t"
    have "barring {LengthError} (conn_frame t) (run_user_call write u t)"
      using u t user_okD [OF assms(2), of _ ev s] by (intro run_user_call_ok [OF assms(1)]) (auto simp: conn_frame_def)
    then show "barring {LengthError} (conn_frame ?s) (run_user_call write u t)"
      by (rule barring_mono) (rule conn_frame_trans [OF t])
  qed
  then show ?thesis unfolding call_user_def by (rule barring_mono) (auto simp: conn_frame_def)
qed

lemma disconnect_live:
  assumes "conn_live (ch, c)"
  shows "conn_live (with_events (\<lambda>_. kNoneEvent) ch, c\<lparr>tc_state := kDisconnected\<rparr>)"
  using assms by (auto simp: conn_live_def conn_inv_def)

lemma HandleClose_ok:
  assumes "write_ok write" "user_ok user" "conn_live s"
    and "tc_state (snd s) = kConnected \<or> tc_state (snd s) = kDisconnecting"
  shows "barring {LengthError} (\<lambda>s'. conn_live s' \<and> tc_state (snd s') = kDisconnected
      \<and> callback_log (snd s') = callback_log (snd s) @ [Connection_callback kDisconnected, Close_callback]
      \<and> ch_revents (fst s') = ch_revents (fst s))
    (HandleClose user write s)"
proof -
  obtain ch c where s: "s = (ch, c)" by (cases s)
  let ?s = "(with_events (\<lambda>_. kNoneEvent) ch, c\<lparr>tc_state := kDisconnected\<rparr>)"
  have live: "conn_live ?s" using disconnect_live assms(3) s by simp
  have "barring {LengthError} (\<lambda>s'. conn_live s' \<and> tc_state (snd s') = kDisconnected
      \<and> callback_log (snd s') = callback_log c @ [Connection_callback kDisconnected, Close_callback]
      \<and> ch_revents (fst s') = ch_revents ch)
    (and_then (call_user user write (Connection_callback kDisconnected) ?s) (call_user user write Close_callback))"
  proof (rule barring_and_then [OF call_user_ok [OF assms(1,2) live]])
    fix t
    assume t: "conn_live t \<and> (tc_state (snd ?s) = kDisconnected \<longleftrightarrow> tc_state (snd t) = kDisconnected)
      \<and> callback_log (snd t) = callback_log (snd ?s) @ [Connection_callback kDisconnected]
      \<and> ch_revents (fst t) = ch_revents (fst ?s)"
    then have "conn_live t" by blast
    from call_user_ok [OF assms(1,2) this, of Close_callback]
    show "barring {LengthError} (\<lambda>s'. conn_live s' \<and> tc_state (snd s') = kDisconnected
        \<and> callback_log (snd s') = callback_log c @ [Connection_callback kDisconnected, Close_callback]
      \<and> ch_revents (fst s') = ch_revents ch)
      (call_user user write Close_callback t)"
      by (rule barring_mono) (use t in auto)
  qed
  then show ?thesis using assms(4) s by (auto simp: HandleClose_def)
qed

lemma HandleWrite_effect:
  assumes w: "write_ok write" and live: "conn_live s"
  shows "\<exists>s'. HandleWrite write s = Inr s' \<and> conn_live s' \<and> tc_state (snd s') = tc_state (snd s)
    \<and> callback_log (snd s') = callback_log (snd s) \<and> ch_revents (fst s') = ch_revents (fst s)
    \<and> accepted (snd s') = accepted (snd s) \<and> input_buffer (snd s') = input_buffer (snd s)
    \<and> (s' \<noteq> s \<and> tc_state (snd s) = kDisconnecting \<and> content (output_buffer (snd s')) = [] \<longrightarrow> write_shut (snd s'))"
proof (cases "IsWriting (fst s)")
  case False
  then show ?thesis using live by (auto simp: HandleWrite_def)
next
  case True
  obtain ch c where s: "s = (ch, c)" by (cases s)
  have inv: "conn_inv (ch, c)" using live s by (simp add: conn_live_def)
  note i = conn_invD [OF inv]
  have st: "tc_state c = kConnected \<or> tc_state c = kDisconnecting"
    using i(5) True s IsNoneEvent_not_writing [of ch] by (cases "tc_state c") auto
  let ?d = "content (output_buffer c)"
  have rb: "read_bytes (output_buffer c) (ReadableBytes (output_buffer c)) = Inr ?d"
    using read_bytes_content [OF i(2), of "length ?d"] i(2) by simp
  have ne: "?d \<noteq> []" "\<not> write_shut c" using i(6) [OF st] i(7) True s st by auto
  show ?thesis
  proof (cases "write (ch, c) ?d")
    case (Inl err)
    then show ?thesis using live s True rb by (simp add: HandleWrite_def)
  next
    case (Inr n)
    then have n: "n \<le> length ?d" using w by (auto simp: write_ok_def)
    from Retrieve_content [OF i(2) n] obtain ob where
      ob: "Retrieve (output_buffer c) n = Inr ob" "wf_buffer ob" "content ob = drop n ?d" by blast
    have order: "socket_out c @ take n ?d @ drop n ?d = accepted c" using i(4) by simp
    consider "n = 0" | "0 < n" "n < length ?d" | "0 < n" "n = length ?d" using n by linarith
    then show ?thesis
    proof cases
      case 1
      then show ?thesis using live s True rb Inr by (simp add: HandleWrite_def)
    next
      case 2
      then show ?thesis using s True rb Inr ob order st i ne
        by (auto simp: HandleWrite_def conn_live_def conn_inv_def Let_def)
    next
      case 3
      then show ?thesis using s True rb Inr ob order st i ne
        by (auto simp: HandleWrite_def conn_live_def conn_inv_def Let_def ShutdownInLoop_def AssertInLoopThread_def
            conn_QueueInLoop_def)
    qed
  qed
qed

lemma HandleWrite_ok:
  assumes "write_ok write" "conn_live s"
  shows "\<exists>s'. HandleWrite write s = Inr s' \<and> conn_live s' \<and> tc_state (snd s') = tc_state (snd s)
    \<and> callback_log (snd s') = callback_log (snd s) \<and> ch_revents (fst s') = ch_revents (fst s)"
  using HandleWrite_effect [OF assms] by blast

text \<open>The close callback has run exactly when the connection is closed, and then once.\<close>

definition close_told :: "conn \<Rightarrow> bool" where
  "close_told s \<longleftrightarrow> count_list (callback_log (snd s)) Close_callback = (if tc_state (snd s) = kDisconnected then 1 else 0)"

definition conn_after :: "conn \<Rightarrow> conn \<Rightarrow> bool" where
  "conn_after s s' \<longleftrightarrow> conn_live s' \<and> (close_told s \<longrightarrow> close_told s')
     \<and> (tc_state (snd s) = kDisconnected \<longrightarrow> tc_state (snd s') = kDisconnected)"

lemma frame_after: "conn_frame s s' \<Longrightarrow> conn_after s s'"
  by (simp add: conn_frame_def conn_after_def close_told_def)

lemma call_user_after:
  assumes "write_ok write" "user_ok user" "conn_live s" "ev \<noteq> Close_callback"
  shows "barring {LengthError} (\<lambda>s'. conn_after s s' \<and> (tc_state (snd s) = kDisconnected \<longleftrightarrow> tc_state (snd s') = kDisconnected)
    \<and> ch_revents (fst s') = ch_revents (fst s)) (call_user user write ev s)"
  by (rule barring_mono [OF call_user_ok [OF assms(1-3)]]) (use assms(4) in \<open>auto simp: conn_after_def close_told_def\<close>)

lemma HandleClose_after:
  assumes "write_ok write" "user_ok user" "conn_live s"
    and "tc_state (snd s) = kConnected \<or> tc_state (snd s) = kDisconnecting"
  shows "barring {LengthError} (\<lambda>s'. conn_after s s' \<and> ch_revents (fst s') = ch_revents (fst s)) (HandleClose user write s)"
  by (rule barring_mono [OF HandleClose_ok [OF assms]]) (use assms(4) in \<open>auto simp: conn_after_def close_told_def\<close>)

lemma close_told_input [simp]: "close_told (ch, c\<lparr>input_buffer := ib\<rparr>) = close_told (ch, c)"
  by (simp add: close_told_def)

lemma conn_after_input [simp]: "conn_after (ch, c\<lparr>input_buffer := ib\<rparr>) = conn_after (ch, c)"
  by (simp add: conn_after_def fun_eq_iff)

lemma conn_HandleRead_ok:
  assumes w: "write_ok write" "user_ok user" "readv_fits readv" and live: "conn_live s"
    and st: "tc_state (snd s) = kConnected \<or> tc_state (snd s) = kDisconnecting"
  shows "barring {LengthError} (\<lambda>s'. conn_after s s' \<and> ch_revents (fst s') = ch_revents (fst s))
    (HandleRead user write readv t s)"
proof -
  obtain ch c where s: "s = (ch, c)" by (cases s)
  have wf: "wf_buffer (input_buffer c)" using live s by (simp add: conn_live_def conn_inv_def)
  have upd: "conn_live (ch, c\<lparr>input_buffer := ib\<rparr>)" if "wf_buffer ib" for ib
    using live s that by (simp add: conn_live_def conn_inv_def)
  from ReadFd_outcome [OF wf w(3)] consider "ReadFd readv (input_buffer c) = Inl LengthError"
    | err where "ReadFd readv (input_buffer c) = Inr (-1, err, input_buffer c)"
    | data :: "char list" and ib where "ReadFd readv (input_buffer c) = Inr (int (length data), 0, ib)" "wf_buffer ib" by blast
  then show ?thesis
  proof cases
    case 3
    show ?thesis
    proof (cases "data = []")
      case True
      have "barring {LengthError} (\<lambda>s'. conn_after s s' \<and> ch_revents (fst s') = ch_revents (fst s)) (HandleClose user write (ch, c\<lparr>input_buffer := ib\<rparr>))"
        by (rule barring_mono [OF HandleClose_after [OF w(1,2) upd [OF 3(2)]]]) (use st s in auto)
      then show ?thesis using 3 True s by (simp add: HandleRead_def)
    next
      case False
      have "barring {LengthError} (\<lambda>s'. conn_after s s' \<and> ch_revents (fst s') = ch_revents (fst s)) (call_user user write Message_callback (ch, c\<lparr>input_buffer := ib\<rparr>))"
        by (rule barring_mono [OF call_user_after [OF w(1,2) upd [OF 3(2)]]]) (use s in auto)
      then show ?thesis using 3 False s by (simp add: HandleRead_def)
    qed
  qed (use s live in \<open>simp_all add: HandleRead_def HandleError_def conn_after_def\<close>)
qed

lemma run_conn_functor_ok:
  assumes "write_ok write" "user_ok user" "conn_live s" "functors_small [f]"
    and "f = ShutdownInLoop_functor \<longrightarrow> tc_state (snd s) \<noteq> kConnected"
  shows "barring {LengthError} (conn_after s) (run_conn_functor user write f s)"
proof (cases f)
  case (SendInLoop_functor data)
  have "barring {LengthError} (conn_frame s) (SendInLoop True write data s)"
    using assms SendInLoop_functor by (intro SendInLoop_ok) auto
  then have "barring {LengthError} (conn_after s) (SendInLoop True write data s)" by (rule barring_mono) (rule frame_after)
  then show ?thesis by (simp add: run_conn_functor_def SendInLoop_functor)
next
  case ForceCloseInLoop_functor
  have "barring {LengthError} (conn_after s) (ForceCloseInLoop user write s)"
  proof (cases "tc_state (snd s) = kConnected \<or> tc_state (snd s) = kDisconnecting")
    case True
    with barring_mono [OF HandleClose_after [OF assms(1-3) True]] show ?thesis
      by (auto simp: ForceCloseInLoop_def)
  qed (use assms(3) in \<open>auto simp: ForceCloseInLoop_def conn_after_def\<close>)
  then show ?thesis by (simp add: run_conn_functor_def ForceCloseInLoop_functor)
next
  case ShutdownInLoop_functor
  with ShutdownInLoop_ok [OF assms(3)] assms(5) show ?thesis
    by (auto simp: run_conn_functor_def frame_after)
qed (use assms in \<open>auto simp: run_conn_functor_def intro: barring_mono [OF call_user_after]\<close>)

text \<open>With the default callbacks a connection keeps nothing of what it reads.\<close>

lemma default_user_drops_input:
  assumes "conn_inv s" "readv_fits readv" "ReadFd readv (input_buffer (snd s)) = Inr (n, err, ib)" "0 < n"
  shows "\<exists>ib'. HandleRead default_user write readv t s =
      Inr (fst s, snd s\<lparr>input_buffer := ib', callback_log := callback_log (snd s) @ [Message_callback]\<rparr>)
    \<and> wf_buffer ib' \<and> content ib' = []"
proof -
  have "wf_buffer (input_buffer (snd s))" using assms(1) by (cases s) (simp add: conn_inv_def)
  then have wf: "wf_buffer ib" using ReadFd_outcome [OF _ assms(2)] assms(3,4) by fastforce
  from Retrieve_content [OF this, of "length (content ib)"] obtain ib' where
    "Retrieve ib (length (content ib)) = Inr ib'" "wf_buffer ib'" "content ib' = []" by auto
  with wf assms(3,4) show ?thesis
    by (intro exI [of _ ib']) (simp add: HandleRead_def call_user_def default_user_def DefaultMessageCallback_def run_user_call_def)
qed

section \<open>Runs\<close>

text \<open>
  The kernel reports on a registered connection: no \<^verbatim>\<open>POLLRDHUP\<close>, which is never asked for, and no
  urgent data together with a hang-up without readable data.
\<close>

definition reported :: "events \<Rightarrow> bool" where
  "reported got \<longleftrightarrow> \<not> any_of got POLLRDHUP \<and> (any_of got POLLHUP \<and> \<not> any_of got POLLIN \<longrightarrow> \<not> any_of got POLLPRI)"

definition conn_HandleEvent :: "user \<Rightarrow> write_call \<Rightarrow> readv_call \<Rightarrow> timestamp \<Rightarrow> events \<Rightarrow> conn \<Rightarrow> conn outcome" where
  "conn_HandleEvent user write readv t got s =
     HandleEvent (conn_callbacks user write readv) t (fst s\<lparr>ch_revents := got\<rparr>, snd s)"

inductive conn_run :: "conn outcome \<Rightarrow> bool" where
  start: "conn_run (TcpConnection_new fd wc hw)"
| establish: "conn_run (Inr s) \<Longrightarrow> tc_state (snd s) = kConnecting \<Longrightarrow> write_ok write \<Longrightarrow> user_ok user \<Longrightarrow>
    conn_run (ConnectEstablished user write s)"
| send: "conn_run (Inr s) \<Longrightarrow> write_ok write \<Longrightarrow> length data < 2 ^ 63 \<Longrightarrow> conn_run (Send in_loop write data s)"
| shutdown: "conn_run (Inr s) \<Longrightarrow> conn_run (Shutdown in_loop s)"
| force_close: "conn_run (Inr s) \<Longrightarrow> conn_run (Inr (ForceClose s))"
| force_close_delay: "conn_run (Inr s) \<Longrightarrow> conn_run (Inr (ForceCloseWithDelay d s))"
| loop_functor: "conn_run (Inr s) \<Longrightarrow> loop_functors (snd s) = f # fs \<Longrightarrow> write_ok write \<Longrightarrow> user_ok user \<Longrightarrow>
    conn_run (run_conn_functor user write f (fst s, snd s\<lparr>loop_functors := fs\<rparr>))"
| event: "conn_run (Inr s) \<Longrightarrow> \<not> IsNoneEvent (fst s) \<Longrightarrow> reported got \<Longrightarrow> write_ok write \<Longrightarrow> user_ok user \<Longrightarrow>
    readv_fits readv \<Longrightarrow> conn_run (conn_HandleEvent user write readv t got s)"
| destroy: "conn_run (Inr s) \<Longrightarrow> tc_state (snd s) = kConnected \<or> tc_state (snd s) = kDisconnected \<Longrightarrow>
    write_ok write \<Longrightarrow> user_ok user \<Longrightarrow> conn_run (ConnectDestroyed user write s)"

lemma conn_live_flags:
  "conn_live (ch\<lparr>ch_revents := r\<rparr>, c) = conn_live (ch, c)"
  "conn_live (ch\<lparr>event_handling := b\<rparr>, c) = conn_live (ch, c)"
  "conn_live (ch\<lparr>added_to_loop := b\<rparr>, c) = conn_live (ch, c)"
  by (simp_all add: conn_live_def conn_inv_def IsNoneEvent_def IsWriting_def)

lemma live_not_none:
  assumes "conn_live s" "\<not> IsNoneEvent (fst s)"
  shows "tc_state (snd s) = kConnected \<or> tc_state (snd s) = kDisconnecting"
  using assms by (cases s, cases "tc_state (snd s)") (auto simp: conn_live_def conn_inv_def)

lemma any_of_or: "any_of got (a OR b) \<longleftrightarrow> any_of got a \<or> any_of got b"
  by (simp add: any_of_def bit.conj_disj_distrib or_eq_0_iff)

lemma invoke_skip: "\<not> b \<Longrightarrow> and_then (invoke b cb s) k = k s"
  by (simp add: invoke_def)

text \<open>
  The rule of \<^verbatim>\<open>HandleEvent\<close> for any callbacks: a reported event runs the close or the read callback, not both,
  on a channel that satisfies \<open>I\<close>, and then the write callback on one that satisfies \<open>J\<close>.
\<close>

lemma HandleEvent_rule:
  assumes "reported got" and start: "I (ch\<lparr>ch_revents := got, event_handling := True\<rparr>, w)" "K (ch\<lparr>ch_revents := got\<rparr>, w)"
    and J: "\<And>s. I s \<Longrightarrow> J s" "\<And>s. J s \<Longrightarrow> ch_revents (fst s) = got"
    and close: "\<And>s. I s \<Longrightarrow> barring E J (close s)" and error: "\<And>s. error s = Inr s"
    and read: "\<And>s. I s \<Longrightarrow> barring E J (read t s)" and wr: "\<And>s. J s \<Longrightarrow> barring E J (wr s)"
    and last: "\<And>s. J s \<Longrightarrow> K (fst s\<lparr>event_handling := False\<rparr>, snd s)"
  shows "barring E K (HandleEvent \<lparr>read_callback = Some read, write_callback = Some wr, close_callback = Some close,
    error_callback = Some error\<rparr> t (ch\<lparr>ch_revents := got\<rparr>, w))"
proof -
  let ?s0 = "(ch\<lparr>ch_revents := got, event_handling := True\<rparr>, w)"
  let ?hup = "any_of got POLLHUP \<and> \<not> any_of got POLLIN" and ?in = "any_of got (POLLIN OR POLLPRI OR POLLRDHUP)"
  define f where "f s3 = and_then (invoke (any_of (ch_revents (fst s3)) POLLOUT) (Some wr) s3)
      (\<lambda>s4. Inr (fst s4\<lparr>event_handling := False\<rparr>, snd s4))" for s3
  define g where "g s1 = and_then (invoke (any_of (ch_revents (fst s1)) (POLLERR OR POLLNVAL)) (Some error) s1)
      (\<lambda>s2. and_then (invoke (any_of (ch_revents (fst s2)) (POLLIN OR POLLPRI OR POLLRDHUP)) (Some (read t)) s2) f)" for s1
  have f: "barring E K (f s3)" if "J s3" for s3
    unfolding f_def by (rule barring_and_then [where P = J]) (use that wr last in \<open>auto simp: invoke_def\<close>)
  have g: "g s1 = and_then (invoke ?in (Some (read t)) s1) f" if "J s1" for s1
    using J(2) [OF that] by (simp add: g_def invoke_def error)
  have none: "\<not> ?in" if ?hup using that assms(1) by (auto simp: reported_def any_of_or)
  have "barring E K (and_then (invoke ?hup (Some close) ?s0) g)"
  proof (cases ?hup)
    case True
    then show ?thesis using close [OF start(1)] none f
      by (auto simp: invoke_def g intro!: barring_and_then [where P = J])
  next
    case False
    then show ?thesis using read [OF start(1)] f J(1) [OF start(1)]
      by (auto simp: invoke_def g intro!: barring_and_then [where P = J])
  qed
  then show ?thesis using start(2)
    by (simp add: HandleEvent_def HandleEventWithGuard_def Let_def f_def [abs_def] g_def [abs_def])
qed

lemma conn_event_ok:
  assumes w: "write_ok write" "user_ok user" "readv_fits readv" and live: "conn_live s"
    and none: "\<not> IsNoneEvent (fst s)" and got: "reported got"
  shows "barring {LengthError} (conn_after s) (conn_HandleEvent user write readv t got s)"
proof -
  obtain ch c where s: "s = (ch, c)" by (cases s)
  define ok where "ok s' \<longleftrightarrow> conn_after s s' \<and> ch_revents (fst s') = got" for s' :: conn
  define st where "st s' \<longleftrightarrow> tc_state (snd s') = kConnected \<or> tc_state (snd s') = kDisconnecting" for s' :: conn
  have step: "ok s2" if "ok s1" "conn_after s1 s2" "ch_revents (fst s2) = ch_revents (fst s1)" for s1 s2
    using that by (auto simp: ok_def conn_after_def)
  have okD: "conn_live s1" if "ok s1" for s1 using that by (simp add: ok_def conn_after_def)
  show ?thesis unfolding conn_HandleEvent_def conn_callbacks_def s fst_conv snd_conv
  proof (rule HandleEvent_rule [where I = "\<lambda>s1. ok s1 \<and> st s1" and J = ok, OF got])
    show "ok (ch\<lparr>ch_revents := got, event_handling := True\<rparr>, c) \<and> st (ch\<lparr>ch_revents := got, event_handling := True\<rparr>, c)"
      using live live_not_none [OF live none] s by (simp add: ok_def st_def conn_live_flags conn_after_def close_told_def)
  next
    fix s1
    assume s1: "ok s1 \<and> st s1"
    then have l: "conn_live s1" and st1: "tc_state (snd s1) = kConnected \<or> tc_state (snd s1) = kDisconnecting"
      by (auto simp: okD st_def)
    show "barring {LengthError} ok (HandleClose user write s1)"
      by (rule barring_mono [OF HandleClose_after [OF w(1,2) l st1]]) (use s1 step [of s1] in blast)
    show "barring {LengthError} ok (HandleRead user write readv t s1)"
      by (rule barring_mono [OF conn_HandleRead_ok [OF w l st1]]) (use s1 step [of s1] in blast)
  next
    fix s1
    assume s1: "ok s1"
    show "barring {LengthError} ok (HandleWrite write s1)"
      using HandleWrite_ok [OF w(1) okD [OF s1]] step [OF s1] s1 by (auto simp: conn_after_def close_told_def)
    show "conn_after (ch, c) (fst s1\<lparr>event_handling := False\<rparr>, snd s1)"
      using s1 s by (auto simp: ok_def conn_after_def close_told_def conn_live_flags)
  qed (use live s in \<open>auto simp: ok_def HandleError_def conn_live_flags conn_after_def close_told_def\<close>)
qed

lemma TcpConnection_new_ok: "\<exists>s. TcpConnection_new fd wc hw = Inr s \<and> conn_inv s
    \<and> tc_state (snd s) = kConnecting \<and> callback_log (snd s) = [] \<and> accepted (snd s) = []"
proof -
  from Buffer_new_empty [of kInitialSize] obtain b where
    "Buffer_new kInitialSize = Inr b" "wf_buffer b" "content b = []" by (auto simp: buffer_const_defs)
  then show ?thesis
    by (simp add: TcpConnection_new_def conn_inv_def IsNoneEvent_def Channel_new_def kNoneEvent_def)
qed

lemma ConnectEstablished_ok:
  assumes "write_ok write" "user_ok user" "conn_inv s" "tc_state (snd s) = kConnecting"
  shows "barring {LengthError} (\<lambda>s'. conn_after s s' \<and> tc_state (snd s') \<noteq> kDisconnected) (ConnectEstablished user write s)"
proof -
  obtain ch c where s: "s = (ch, c)" by (cases s)
  let ?s = "(with_events (\<lambda>ev. ev OR kReadEvent) (Channel_Tie ch), c\<lparr>tc_state := kConnected\<rparr>)"
  have "ch_events ch = 0" using assms(3,4) s by (simp add: conn_inv_def IsNoneEvent_def kNoneEvent_def)
  then have "any_of (ch_events (fst ?s)) kReadEvent" "\<not> IsWriting (fst ?s)"
    by (simp_all add: with_events_def Channel_Tie_def IsWriting_def any_of_def poll_consts)
  then have "conn_live ?s" using assms(3,4) s by (auto simp: conn_live_def conn_inv_def)
  have "barring {LengthError} (\<lambda>s'. conn_after s s' \<and> tc_state (snd s') \<noteq> kDisconnected) (call_user user write (Connection_callback kConnected) ?s)"
    by (rule barring_mono [OF call_user_after [OF assms(1,2) \<open>conn_live ?s\<close>]])
      (use assms(4) s in \<open>auto simp: conn_after_def close_told_def\<close>)
  with assms(4) s show ?thesis by (simp add: ConnectEstablished_def)
qed

lemma ConnectDestroyed_ok:
  assumes "write_ok write" "user_ok user" "conn_live s"
    and "tc_state (snd s) = kConnected \<or> tc_state (snd s) = kDisconnected"
  shows "barring {LengthError} (\<lambda>s'. conn_live s' \<and> tc_state (snd s') = kDisconnected \<and> \<not> added_to_loop (fst s'))
    (ConnectDestroyed user write s)"
proof -
  obtain ch c where s: "s = (ch, c)" by (cases s)
  let ?s = "(with_events (\<lambda>_. kNoneEvent) ch, c\<lparr>tc_state := kDisconnected\<rparr>)"
  have live: "conn_live ?s" using disconnect_live assms(3) s by simp
  have "barring {LengthError} (\<lambda>s'. conn_live s' \<and> tc_state (snd s') = kDisconnected)
      (if tc_state c = kConnected then call_user user write (Connection_callback kDisconnected) ?s else Inr s)"
    using barring_mono [where Q = "\<lambda>s'. conn_live s' \<and> tc_state (snd s') = kDisconnected",
        OF call_user_ok [OF assms(1,2) live, of "Connection_callback kDisconnected"]] assms(3,4) s
    by auto
  then show ?thesis unfolding ConnectDestroyed_def s fst_conv snd_conv
  proof (rule barring_and_then)
    fix s1
    assume s1: "conn_live s1 \<and> tc_state (snd s1) = kDisconnected"
    then have "IsNoneEvent (fst s1)" by (cases s1) (simp add: conn_live_def conn_inv_def)
    then show "barring {LengthError} (\<lambda>s'. conn_live s' \<and> tc_state (snd s') = kDisconnected \<and> \<not> added_to_loop (fst s'))
        (asserting (IsNoneEvent (fst s1)) ''IsNoneEvent()'' (Inr (fst s1\<lparr>added_to_loop := False\<rparr>, snd s1)))"
      using s1 by (simp add: conn_live_flags)
  qed
qed

lemma idle_while_connecting:
  assumes "tc_state (snd s) = kConnecting"
  shows "Send b write data s = Inr s" "Shutdown b s = Inr s" "ForceClose s = s" "ForceCloseWithDelay d s = s"
  using assms by (simp_all add: Send_def Shutdown_def ForceClose_def ForceCloseWithDelay_def)

lemma live_inv: "barring E conn_live m \<Longrightarrow> barring E conn_inv m"
  by (erule barring_mono) (simp add: conn_live_def)

lemma after_inv: "barring E (conn_after s) m \<Longrightarrow> barring E conn_inv m"
  by (erule barring_mono) (simp add: conn_after_def conn_live_def)

lemma frame_inv: "barring E (conn_frame s) m \<Longrightarrow> barring E conn_inv m"
  by (erule barring_mono) (simp add: conn_frame_def conn_live_def)

lemma conn_run_inv: "conn_run m \<Longrightarrow> barring {LengthError} conn_inv m"
proof (induction rule: conn_run.induct)
  case (start fd wc hw)
  then show ?case using TcpConnection_new_ok [of fd wc hw] by auto
next
  case (establish s w user)
  then have "barring {LengthError} (conn_after s) (ConnectEstablished user w s)"
    by (intro barring_mono [OF ConnectEstablished_ok]) auto
  then show ?case by (rule after_inv)
next
  case (send s w data in_loop)
  then have "conn_inv s" by simp
  then show ?case using send idle_while_connecting(1) [of s] frame_inv [OF Send_ok]
    by (cases "tc_state (snd s) = kConnecting") (simp_all add: conn_live_def)
next
  case (shutdown s in_loop)
  then have "conn_inv s" by simp
  then show ?case using idle_while_connecting(2) [of s] Shutdown_ok [of s in_loop]
    by (cases "tc_state (snd s) = kConnecting") (auto simp: conn_live_def conn_frame_def)
next
  case (force_close s)
  then have "conn_inv s" by simp
  then show ?case using idle_while_connecting(3) [of s] ForceClose_ok [of s]
    by (cases "tc_state (snd s) = kConnecting") (auto simp: conn_live_def conn_frame_def)
next
  case (force_close_delay s d)
  then have "conn_inv s" by simp
  then show ?case using idle_while_connecting(4) [of s] ForceCloseWithDelay_ok [of s d]
    by (cases "tc_state (snd s) = kConnecting") (auto simp: conn_live_def conn_frame_def)
next
  case (loop_functor s f fs w user)
  obtain ch c where s: "s = (ch, c)" by (cases s)
  have inv: "conn_inv (ch, c)" using loop_functor s by simp
  have "conn_live (ch, c\<lparr>loop_functors := fs\<rparr>)" "functors_small [f]"
    "f = ShutdownInLoop_functor \<longrightarrow> tc_state c \<noteq> kConnected"
    using inv loop_functor(2) s by (auto simp: conn_live_def conn_inv_def)
  then show ?case using loop_functor s by (intro after_inv [OF run_conn_functor_ok]) simp_all
next
  case (event s got w user readv t)
  then have "conn_inv s" by simp
  moreover from this event(2) have "tc_state (snd s) \<noteq> kConnecting" by (cases s) (auto simp: conn_inv_def)
  ultimately show ?case using event by (intro after_inv [OF conn_event_ok]) (simp_all add: conn_live_def)
next
  case (destroy s w user)
  then have "conn_live s" by (auto simp: conn_live_def)
  then have "barring {LengthError} conn_live (ConnectDestroyed user w s)"
    by (rule barring_mono [OF ConnectDestroyed_ok [OF destroy(3,4) _ destroy(2)]]) simp
  then show ?case by (rule live_inv)
qed

section \<open>Answering from a callback\<close>

text \<open>A socket whose writes may be short or refused for now, but do not fail before it is shut down.\<close>

definition write_healthy :: "write_call \<Rightarrow> bool" where
  "write_healthy write \<longleftrightarrow> (\<forall>s data. \<not> write_shut (snd s) \<longrightarrow>
     (case write s data of Inl err \<Rightarrow> err = EWOULDBLOCK | Inr n \<Rightarrow> n \<le> length data))"

lemma write_healthyD:
  "write_healthy write \<Longrightarrow> \<not> write_shut (snd s) \<Longrightarrow> write s data = Inl err \<Longrightarrow> err = EWOULDBLOCK"
  unfolding write_healthy_def by (metis sum.case(1))

lemma try_write_healthy:
  assumes "write_healthy write" "\<not> write_shut (snd s)" "try_write write data s = (nwrote, remaining, fault, c)"
  shows "\<not> fault \<and> accepted c = accepted (snd s) \<and> input_buffer c = input_buffer (snd s) \<and> tc_state c = tc_state (snd s)"
  using assms(3) write_healthyD [OF assms(1,2)]
  by (auto simp: try_write_def Let_def conn_QueueInLoop_def split: if_splits sum.splits)

lemma SendInLoop_accepts:
  assumes "write_healthy write" "\<not> write_shut (snd s)" "tc_state (snd s) \<noteq> kDisconnected" "SendInLoop True write data s = Inr s'"
  shows "accepted (snd s') = accepted (snd s) @ data \<and> input_buffer (snd s') = input_buffer (snd s)
    \<and> tc_state (snd s') = tc_state (snd s)"
proof -
  obtain nwrote remaining fault c where w: "try_write write data s = (nwrote, remaining, fault, c)"
    by (cases "try_write write data s")
  from try_write_healthy [OF assms(1,2) w] assms(3,4) w show ?thesis
    by (auto simp: SendInLoop_def AssertInLoopThread_def asserting_def Let_def and_then_Inr_iff conn_QueueInLoop_def split: if_splits)
qed

lemma Send_accepts:
  assumes "write_ok write" "write_healthy write" "conn_inv s" "tc_state (snd s) = kConnected" "length data < 2 ^ 63"
  shows "barring {LengthError} (\<lambda>s'. conn_inv s' \<and> accepted (snd s') = accepted (snd s) @ data
      \<and> input_buffer (snd s') = input_buffer (snd s) \<and> tc_state (snd s') = kConnected) (Send True write data s)"
proof (cases "SendInLoop True write data s")
  case (Inl e)
  with SendInLoop_ok [OF assms(1) _ assms(5), of s] assms(3,4) show ?thesis by (simp add: Send_def conn_live_def)
next
  case (Inr s')
  have "\<not> write_shut (snd s)" using assms(3,4) by (cases s) (auto simp: conn_inv_def)
  from SendInLoop_accepts [OF assms(2) this _ Inr] SendInLoop_ok [OF assms(1) _ assms(5), of s] Inr assms(3,4) show ?thesis
    by (simp add: Send_def conn_live_def conn_frame_def)
qed

text \<open>A callback that takes \<open>n\<close> bytes off the input buffer and sends an answer.\<close>

lemma retrieve_and_send:
  assumes "write_ok write" "write_healthy write" "conn_inv s" "tc_state (snd s) = kConnected" "length data < 2 ^ 63"
    and "n \<le> length (content (input_buffer (snd s)))"
  shows "barring {LengthError} (\<lambda>s'. conn_inv s' \<and> accepted (snd s') = accepted (snd s) @ data
      \<and> content (input_buffer (snd s')) = drop n (content (input_buffer (snd s))) \<and> tc_state (snd s') = kConnected)
    (for_each (run_user_call write) [User_Retrieve n, User_Send data] s)"
proof -
  obtain ch c where s: "s = (ch, c)" by (cases s)
  note inv = conn_invD [OF assms(3) [unfolded s]]
  from Retrieve_content [OF inv(1)] assms(6) s obtain ib where
    ib: "Retrieve (input_buffer c) n = Inr ib" "wf_buffer ib" "content ib = drop n (content (input_buffer c))" by auto
  let ?s = "(ch, c\<lparr>input_buffer := ib\<rparr>)"
  have run: "for_each (run_user_call write) [User_Retrieve n, User_Send data] s = Send True write data ?s"
    using ib(1) assms(6) inv(1) s
    by (cases "Send True write data ?s") (simp_all add: run_user_call_def min_absorb1)
  have "conn_inv ?s" using assms(3) ib(2) s by (simp add: conn_inv_def)
  from Send_accepts [OF assms(1,2) this _ assms(5)] assms(4) ib(3) s show ?thesis
    unfolding run by (auto elim: barring_mono)
qed

section \<open>Properties\<close>



text \<open>
  C15. Graceful shutdown: as long as the connection is not closed, the write side of the socket is
  shut down only when every accepted byte has been handed to the kernel, so the peer sees all of
  them before the end of the stream; and a connection that is still \<^verbatim>\<open>kConnected\<close> is never shut down.
\<close>

theorem Shutdown_after_all_data:
  assumes "conn_run (Inr (ch, c))" "write_shut c" "tc_state c \<noteq> kDisconnected"
  shows "tc_state c = kDisconnecting \<and> socket_out c = accepted c"
  using conn_run_inv [OF assms(1)] assms(2,3) by (auto simp: conn_inv_def)

lemma stub_write_ok: "write_ok (\<lambda>s d. if write_shut (snd s) then Inl EPIPE else Inr (length d))"
  by (simp add: write_ok_def)

lemma silent_user_ok: "user_ok (\<lambda>_ _. [])"
  by (simp add: user_ok_def)

theorem Shutdown_after_all_data_witness:
  "\<exists>ch c. conn_run (Inr (ch, c)) \<and> write_shut c \<and> tc_state c = kDisconnecting \<and> socket_out c = accepted c"
proof -
  let ?w = "\<lambda>(s :: conn) d. if write_shut (snd s) then Inl EPIPE else Inr (length d)"
  obtain s where s: "TcpConnection_new 5 True False = Inr s" "conn_inv s" "tc_state (snd s) = kConnecting"
    using TcpConnection_new_ok [of 5 True False] by auto
  obtain ch c where sc: "s = (ch, c)" by (cases s)
  have r: "conn_run (Inr s)" using conn_run.start [of 5 True False] s(1) by simp
  let ?s1 = "(with_events (\<lambda>ev. ev OR kReadEvent) (Channel_Tie ch),
      c\<lparr>tc_state := kConnected, callback_log := callback_log c @ [Connection_callback kConnected]\<rparr>)"
  have "ConnectEstablished (\<lambda>_ _. []) ?w s = Inr ?s1"
    using s(3) sc by (simp add: ConnectEstablished_def call_user_def)
  then have r1: "conn_run (Inr ?s1)"
    using conn_run.establish [OF r s(3) stub_write_ok silent_user_ok] by simp
  have nw: "\<not> IsWriting (fst ?s1)"
    using s(2,3) sc by (simp add: conn_inv_def IsNoneEvent_def kNoneEvent_def with_events_def Channel_Tie_def
        IsWriting_def any_of_def poll_consts)
  let ?c2 = "snd ?s1\<lparr>tc_state := kDisconnecting, write_shut := True\<rparr>"
  have "Shutdown True ?s1 = Inr (fst ?s1, ?c2)"
    using nw by (simp add: Shutdown_def ShutdownInLoop_def AssertInLoopThread_def)
  then have r2: "conn_run (Inr (fst ?s1, ?c2))" using conn_run.shutdown [OF r1, of True] by simp
  have "write_shut ?c2" "tc_state ?c2 \<noteq> kDisconnected" by simp_all
  from Shutdown_after_all_data [OF r2 this] r2 show ?thesis by (intro exI [of _ "fst ?s1"] exI [of _ ?c2]) simp
qed

text \<open>
  \<^verbatim>\<open>ConnectDestroyed\<close> forgets the state \<^verbatim>\<open>kDisconnecting\<close>: it disables the channel's events only
  for \<^verbatim>\<open>kConnected\<close>, so a server that is destroyed while one of its connections is shutting down
  removes a channel that still has events, and the assertion in \<^verbatim>\<open>Channel::Remove\<close> fails.
\<close>

lemma ConnectDestroyed_fails_while_disconnecting:
  assumes "conn_run (Inr s)" "tc_state (snd s) = kDisconnecting"
  shows "ConnectDestroyed user write s = Inl (AssertFailed ''IsNoneEvent()'')"
proof -
  obtain ch c where s: "s = (ch, c)" by (cases s)
  have "any_of (ch_events ch) kReadEvent" using conn_run_inv [OF assms(1)] assms(2) s by (simp add: conn_inv_def)
  then have "\<not> IsNoneEvent ch" by (auto simp: IsNoneEvent_def any_of_def kNoneEvent_def)
  then show ?thesis using assms(2) s by (simp add: ConnectDestroyed_def)
qed

text \<open>
  The high-water mark: when a message is queued behind unsent bytes, the callback is
  scheduled exactly when the output buffer crosses the mark from below, with the new size.
\<close>

lemma SendInLoop_high_watermark:
  assumes "conn_inv (ch, c)" "tc_state c = kConnected" "content (output_buffer c) \<noteq> []"
    and "data \<noteq> []" "length data < 2 ^ 63" "SendInLoop True write data (ch, c) = Inr s'"
  shows "loop_functors (snd s') = loop_functors c @
    (if has_high_watermark_callback c \<and> length (content (output_buffer c)) < high_watermark c
        \<and> high_watermark c \<le> length (content (output_buffer c)) + length data
     then [HighWaterMark_functor (length (content (output_buffer c)) + length data)] else [])
    \<and> content (output_buffer (snd s')) = content (output_buffer c) @ data"
proof -
  note i = conn_invD [OF assms(1)]
  have wr: "IsWriting ch" using i(6) assms(2,3) by simp
  have len: "length (content (output_buffer c)) < 2 ^ 63"
    using length_content [OF i(2)] wf_bounds [OF i(2)] by simp
  then have add: "size_add (length (content (output_buffer c))) (length data) = length (content (output_buffer c)) + length data"
    using assms(5) by (simp add: machine_simps)
  from Append_outcome [OF i(2), of "length data" data] assms(5,6) wr assms(2,4) i(2) add show ?thesis
    by (auto simp: SendInLoop_def AssertInLoopThread_def try_write_def Let_def conn_QueueInLoop_def split: if_splits)
qed

section \<open>A connection that has just been established\<close>

lemma established_sample:
  "\<exists>ch c. conn_run (Inr (ch, c)) \<and> tc_state c = kConnected \<and> content (input_buffer c) = []
    \<and> WritableBytes (input_buffer c) = 1024 \<and> length (buf_bytes (input_buffer c)) = 1032 \<and> accepted c = []"
proof -
  let ?w = "\<lambda>(s :: conn) d. if write_shut (snd s) then Inl EPIPE else Inr (length d)"
  obtain b where b: "Buffer_new kInitialSize = Inr b" "content b = []" "WritableBytes b = 1024"
    and wf: "wf_buffer b" "writer_index b = 8"
    using Buffer_new_empty [of kInitialSize] by (auto simp: buffer_const_defs)
  have len: "length (buf_bytes b) = 1032"
    using b(3) wf(2) wf_bounds [OF wf(1)] by (simp add: WritableBytes_def machine_simps)
  from b obtain c where c: "TcpConnection_new 5 False False = Inr (Channel_new 5, c)" "tc_state c = kConnecting"
    "input_buffer c = b" "accepted c = []" by (simp add: TcpConnection_new_def)
  have r: "conn_run (Inr (Channel_new 5, c))" using conn_run.start [of 5 False False] c(1) by simp
  let ?c = "c\<lparr>tc_state := kConnected, callback_log := callback_log c @ [Connection_callback kConnected]\<rparr>"
  let ?ch = "with_events (\<lambda>ev. ev OR kReadEvent) (Channel_Tie (Channel_new 5))"
  have "conn_run (Inr (?ch, ?c))"
    using conn_run.establish [OF r _ stub_write_ok silent_user_ok] c(2) by (simp add: ConnectEstablished_def call_user_def)
  then show ?thesis using b c len by (intro exI [of _ ?ch] exI [of _ ?c]) simp
qed

end
