(* ===== verification/Http_Request.thy ===== *)
theory Http_Request
  imports Buffer Timestamps Std_Containers
begin

text \<open>
  \<^verbatim>\<open>muduo-cpp11/net/http/http_request.h\<close>, \<^verbatim>\<open>http_context.h\<close> and the parser of \<^verbatim>\<open>http_server.cpp\<close>
  (\<^verbatim>\<open>ProcessRequestLine\<close>, \<^verbatim>\<open>ParseRequest\<close>). Pointers into the buffer are offsets into its vector, as
  in the theory of buffers; the parser's loop, which spins for ever in a state it does not
  handle, is a partial function whose value \<open>None\<close> means that it does not return.

  The specification is \<open>parse_text\<close>, a function on texts that takes one line at a time. Shown: the
  parser returns and implements \<open>parse_text\<close>; how the text is cut into segments makes no difference;
  a well-formed request is read back field by field.
\<close>

section \<open>HttpRequest\<close>

datatype http_method = Method_kInvalid | Method_kGet | Method_kPost | Method_kHead | Method_kPut | Method_kDelete

datatype http_version = Version_kUnknown | Version_kHttp10 | Version_kHttp11

record http_request =
  rq_method :: http_method
  rq_version :: http_version
  rq_path :: string
  rq_query :: string
  rq_remote_addr :: string
  rq_receivetime :: timestamp
  rq_headers :: "(string \<times> string) list"

definition HttpRequest_new :: http_request where
  "HttpRequest_new = \<lparr>rq_method = Method_kInvalid, rq_version = Version_kUnknown, rq_path = [], rq_query = [],
     rq_remote_addr = [], rq_receivetime = Timestamp_Invalid, rq_headers = []\<rparr>"

definition set_method :: "string \<Rightarrow> http_request \<Rightarrow> (bool \<times> http_request) outcome" where
  "set_method m rq =
     asserting (rq_method rq = Method_kInvalid) ''method_ == kInvalid''
     (let method = (if m = ''GET'' then Method_kGet else if m = ''POST'' then Method_kPost
                    else if m = ''HEAD'' then Method_kHead else if m = ''PUT'' then Method_kPut
                    else if m = ''DELETE'' then Method_kDelete else Method_kInvalid)
      in Inr (method \<noteq> Method_kInvalid, rq\<lparr>rq_method := method\<rparr>))"

definition method_string :: "http_request \<Rightarrow> string" where
  "method_string rq = (case rq_method rq of Method_kGet \<Rightarrow> ''GET'' | Method_kPost \<Rightarrow> ''POST'' | Method_kHead \<Rightarrow> ''HEAD''
     | Method_kPut \<Rightarrow> ''PUT'' | Method_kDelete \<Rightarrow> ''DELETE'' | Method_kInvalid \<Rightarrow> ''UNKNOWN'')"

text \<open>\<^verbatim>\<open>isspace\<close> in the C locale.\<close>

definition isspace :: "char \<Rightarrow> bool" where
  "isspace c \<longleftrightarrow> c \<in> set [CHR 0x20, CHR 0x09, CHR 0x0A, CHR 0x0B, CHR 0x0C, CHR 0x0D]"

function skip_space :: "char list \<Rightarrow> nat \<Rightarrow> nat \<Rightarrow> nat" where
  "skip_space v p end_ptr = (if p < end_ptr \<and> isspace (v ! p) then skip_space v (Suc p) end_ptr else p)"
  by auto
termination by (relation "measure (\<lambda>(v, p, e). e - p)") auto

function trim_right :: "string \<Rightarrow> string" where
  "trim_right value = (if value \<noteq> [] \<and> isspace (last value) then trim_right (butlast value) else value)"
  by auto
termination by (relation "measure length") auto

declare skip_space.simps [simp del] trim_right.simps [simp del]

definition AddHeader :: "char list \<Rightarrow> nat \<Rightarrow> nat \<Rightarrow> nat \<Rightarrow> http_request \<Rightarrow> http_request" where
  "AddHeader v start colon end_ptr rq =
     (let field = range_of v start colon;
          value = range_of v (skip_space v (colon + 1) end_ptr) end_ptr
      in rq\<lparr>rq_headers := map_put field (trim_right value) (rq_headers rq)\<rparr>)"

definition GetHeader :: "string \<Rightarrow> http_request \<Rightarrow> string" where
  "GetHeader field rq = (case map_of (rq_headers rq) field of None \<Rightarrow> [] | Some value \<Rightarrow> value)"

text \<open>\<^verbatim>\<open>swap\<close> exchanges every field but the version.\<close>

definition HttpRequest_swap :: "http_request \<Rightarrow> http_request \<Rightarrow> http_request \<times> http_request" where
  "HttpRequest_swap this that =
     (this\<lparr>rq_method := rq_method that, rq_path := rq_path that, rq_query := rq_query that,
           rq_remote_addr := rq_remote_addr that, rq_receivetime := rq_receivetime that, rq_headers := rq_headers that\<rparr>,
      that\<lparr>rq_method := rq_method this, rq_path := rq_path this, rq_query := rq_query this,
           rq_remote_addr := rq_remote_addr this, rq_receivetime := rq_receivetime this, rq_headers := rq_headers this\<rparr>)"

section \<open>HttpContext\<close>

datatype parse_state = kExpectRequestLine | kExpectHeaders | kExpectBody | kGotAll

record http_context =
  ctx_state :: parse_state
  ctx_request :: http_request

definition HttpContext_new :: "string \<Rightarrow> http_context" where
  "HttpContext_new remote_addr =
     \<lparr>ctx_state = kExpectRequestLine, ctx_request = HttpRequest_new\<lparr>rq_remote_addr := remote_addr\<rparr>\<rparr>"

definition ReceiveRequestLine :: "http_context \<Rightarrow> http_context" where
  "ReceiveRequestLine ctx = ctx\<lparr>ctx_state := kExpectHeaders\<rparr>"

definition ReceiveHeaders :: "http_context \<Rightarrow> http_context" where
  "ReceiveHeaders ctx = ctx\<lparr>ctx_state := kGotAll\<rparr>"

definition GotAll :: "http_context \<Rightarrow> bool" where
  "GotAll ctx \<longleftrightarrow> ctx_state ctx = kGotAll"

definition HttpContext_Reset :: "http_context \<Rightarrow> http_context" where
  "HttpContext_Reset ctx =
     ctx\<lparr>ctx_state := kExpectRequestLine, ctx_request := fst (HttpRequest_swap (ctx_request ctx) HttpRequest_new)\<rparr>"

section \<open>The parser\<close>

definition ProcessRequestLine ::
  "char list \<Rightarrow> nat \<Rightarrow> nat \<Rightarrow> http_context \<Rightarrow> (bool \<times> http_context) outcome" where
  "ProcessRequestLine v start end_ptr ctx =
     (let space = std_find v start end_ptr (CHR '' '') in
      if space = end_ptr then Inr (False, ctx)
      else and_then (set_method (range_of v start space) (ctx_request ctx)) (\<lambda>(known, rq).
        if \<not> known then Inr (False, ctx\<lparr>ctx_request := rq\<rparr>)
        else
          let start1 = space + 1; space1 = std_find v start1 end_ptr (CHR '' '') in
          if space1 = end_ptr then Inr (False, ctx\<lparr>ctx_request := rq\<rparr>)
          else
            let question = std_find v start1 space1 (CHR ''?'');
                rq1 = (if question \<noteq> space1
                       then rq\<lparr>rq_path := range_of v start1 question, rq_query := range_of v question space1\<rparr>
                       else rq\<lparr>rq_path := range_of v start1 space1\<rparr>);
                start2 = space1 + 1
            in if end_ptr - start2 = 8 \<and> range_of v start2 (end_ptr - 1) = ''HTTP/1.''
               then if v ! (end_ptr - 1) = CHR ''1''
                    then Inr (True, ctx\<lparr>ctx_request := rq1\<lparr>rq_version := Version_kHttp11\<rparr>\<rparr>)
                    else if v ! (end_ptr - 1) = CHR ''0''
                    then Inr (True, ctx\<lparr>ctx_request := rq1\<lparr>rq_version := Version_kHttp10\<rparr>\<rparr>)
                    else Inr (False, ctx\<lparr>ctx_request := rq1\<rparr>)
               else Inr (False, ctx\<lparr>ctx_request := rq1\<rparr>)))"

text \<open>One pass through the loop: the new values of \<^verbatim>\<open>ok\<close>, \<^verbatim>\<open>has_more\<close>, the buffer and the context.\<close>

definition ParseRequest_body ::
  "timestamp \<Rightarrow> bool \<Rightarrow> buffer \<Rightarrow> http_context \<Rightarrow> (bool \<times> bool \<times> buffer \<times> http_context) outcome" where
  "ParseRequest_body receivetime ok b ctx =
     (if ctx_state ctx = kExpectRequestLine then
        (case FindCRLF b of
           None \<Rightarrow> Inr (ok, False, b, ctx)
         | Some crlf \<Rightarrow>
             and_then (ProcessRequestLine (buf_bytes b) (Peek b) crlf ctx) (\<lambda>(ok', ctx').
               if ok' then
                 and_then (RetrieveUntil b (crlf + 2)) (\<lambda>b'.
                   Inr (True, True, b',
                     ReceiveRequestLine (ctx'\<lparr>ctx_request := (ctx_request ctx')\<lparr>rq_receivetime := receivetime\<rparr>\<rparr>)))
               else Inr (False, False, b, ctx')))
      else if ctx_state ctx = kExpectHeaders then
        (case FindCRLF b of
           None \<Rightarrow> Inr (ok, False, b, ctx)
         | Some crlf \<Rightarrow>
             let colon = std_find (buf_bytes b) (Peek b) crlf (CHR '':'');
                 (has_more, ctx') =
                   (if colon \<noteq> crlf
                    then (True, ctx\<lparr>ctx_request := AddHeader (buf_bytes b) (Peek b) colon crlf (ctx_request ctx)\<rparr>)
                    else (\<not> GotAll (ReceiveHeaders ctx), ReceiveHeaders ctx))
             in and_then (RetrieveUntil b (crlf + 2)) (\<lambda>b'. Inr (ok, has_more, b', ctx')))
      else Inr (ok, True, b, ctx))"

partial_function (option) ParseRequest_loop ::
  "timestamp \<Rightarrow> bool \<Rightarrow> bool \<Rightarrow> buffer \<Rightarrow> http_context \<Rightarrow> ((bool \<times> buffer \<times> http_context) outcome) option" where
  "ParseRequest_loop receivetime ok has_more b ctx =
     (if \<not> has_more then Some (Inr (ok, b, ctx))
      else (case ParseRequest_body receivetime ok b ctx of
              Inl e \<Rightarrow> Some (Inl e)
            | Inr (ok', has_more', b', ctx') \<Rightarrow> ParseRequest_loop receivetime ok' has_more' b' ctx'))"

definition ParseRequest ::
  "buffer \<Rightarrow> http_context \<Rightarrow> timestamp \<Rightarrow> ((bool \<times> buffer \<times> http_context) outcome) option" where
  "ParseRequest b ctx receivetime = ParseRequest_loop receivetime True True b ctx"


section \<open>Specification on texts\<close>

text \<open>The first line of a text and what follows its CRLF.\<close>

fun split_line :: "string \<Rightarrow> (string \<times> string) option" where
  "split_line (a # b # s) =
     (if a = CHR 0x0D \<and> b = CHR 0x0A then Some ([], s)
      else case split_line (b # s) of None \<Rightarrow> None | Some (l, r) \<Rightarrow> Some (a # l, r))"
| "split_line _ = None"

definition first_word :: "char \<Rightarrow> string \<Rightarrow> (string \<times> string) option" where
  "first_word c s = (if c \<in> set s then Some (takeWhile (\<lambda>x. x \<noteq> c) s, tl (dropWhile (\<lambda>x. x \<noteq> c) s)) else None)"

definition method_of :: "string \<Rightarrow> http_method" where
  "method_of m = (if m = ''GET'' then Method_kGet else if m = ''POST'' then Method_kPost
                  else if m = ''HEAD'' then Method_kHead else if m = ''PUT'' then Method_kPut
                  else if m = ''DELETE'' then Method_kDelete else Method_kInvalid)"

definition request_line :: "string \<Rightarrow> http_request \<Rightarrow> bool \<times> http_request" where
  "request_line line rq = (case first_word (CHR '' '') line of
      None \<Rightarrow> (False, rq)
    | Some (m, line1) \<Rightarrow>
        let rq0 = rq\<lparr>rq_method := method_of m\<rparr> in
        if method_of m = Method_kInvalid then (False, rq0)
        else (case first_word (CHR '' '') line1 of
            None \<Rightarrow> (False, rq0)
          | Some (target, version) \<Rightarrow>
              let rq1 = (case first_word (CHR ''?'') target of
                    None \<Rightarrow> rq0\<lparr>rq_path := target\<rparr>
                  | Some (path, args) \<Rightarrow> rq0\<lparr>rq_path := path, rq_query := CHR ''?'' # args\<rparr>)
              in if version = ''HTTP/1.1'' then (True, rq1\<lparr>rq_version := Version_kHttp11\<rparr>)
                 else if version = ''HTTP/1.0'' then (True, rq1\<lparr>rq_version := Version_kHttp10\<rparr>)
                 else (False, rq1)))"

definition strip :: "string \<Rightarrow> string" where
  "strip s = List.rev (dropWhile isspace (List.rev (dropWhile isspace s)))"

definition header_line :: "string \<times> string \<Rightarrow> http_request \<Rightarrow> http_request" where
  "header_line h rq = rq\<lparr>rq_headers := map_put (fst h) (strip (snd h)) (rq_headers rq)\<rparr>"

lemma split_line_length: "split_line s = Some (l, r) \<Longrightarrow> length r < length s"
  by (induction s arbitrary: l rule: split_line.induct) (force split: if_splits option.splits)+

function parse_text :: "timestamp \<Rightarrow> string \<Rightarrow> http_context \<Rightarrow> bool \<times> string \<times> http_context" where
  "parse_text t s ctx = (case split_line s of
      None \<Rightarrow> (True, s, ctx)
    | Some (line, rest) \<Rightarrow>
        if ctx_state ctx = kExpectRequestLine then
          (case request_line line (ctx_request ctx) of (ok, rq) \<Rightarrow>
             if ok then parse_text t rest \<lparr>ctx_state = kExpectHeaders, ctx_request = rq\<lparr>rq_receivetime := t\<rparr>\<rparr>
             else (False, s, ctx\<lparr>ctx_request := rq\<rparr>))
        else (case first_word (CHR '':'') line of
            Some h \<Rightarrow> parse_text t rest (ctx\<lparr>ctx_request := header_line h (ctx_request ctx)\<rparr>)
          | None \<Rightarrow> (True, rest, ctx\<lparr>ctx_state := kGotAll\<rparr>)))"
  by auto
termination by (relation "measure (\<lambda>(t, s, ctx). length s)") (auto dest: split_line_length)

declare parse_text.simps [simp del]

lemma parse_text_request:
  "split_line s = Some (l, r) \<Longrightarrow> ctx_state ctx = kExpectRequestLine \<Longrightarrow> request_line l (ctx_request ctx) = (True, rq) \<Longrightarrow>
   parse_text t s ctx = parse_text t r \<lparr>ctx_state = kExpectHeaders, ctx_request = rq\<lparr>rq_receivetime := t\<rparr>\<rparr>"
  by (simp add: parse_text.simps [of t s])

lemma parse_text_field:
  "split_line s = Some (l, r) \<Longrightarrow> ctx_state ctx = kExpectHeaders \<Longrightarrow> first_word (CHR '':'') l = Some h \<Longrightarrow>
   parse_text t s ctx = parse_text t r (ctx\<lparr>ctx_request := header_line h (ctx_request ctx)\<rparr>)"
  by (simp add: parse_text.simps [of t s])

lemma parse_text_last:
  "split_line s = Some (l, r) \<Longrightarrow> ctx_state ctx = kExpectHeaders \<Longrightarrow> first_word (CHR '':'') l = None \<Longrightarrow>
   parse_text t s ctx = (True, r, ctx\<lparr>ctx_state := kGotAll\<rparr>)"
  by (simp add: parse_text.simps [of t s])

section \<open>Searching a range is searching its text\<close>

lemma range_of_Cons: "lo < hi \<Longrightarrow> hi \<le> length v \<Longrightarrow> range_of v lo hi = v ! lo # range_of v (Suc lo) hi"
  using range_of_split [of lo "Suc lo" hi v] by (simp add: range_of_def take_Suc_conv_app_nth hd_drop_conv_nth take_Suc)

lemma std_find_text:
  "lo \<le> hi \<Longrightarrow> hi \<le> length v \<Longrightarrow>
   std_find v lo hi x = lo + length (takeWhile (\<lambda>y. y \<noteq> x) (range_of v lo hi))"
proof (induction v lo hi x rule: std_find.induct)
  case (1 v lo hi x)
  consider "hi = lo" | "lo < hi" "v ! lo = x" | "lo < hi" "v ! lo \<noteq> x" using 1 by linarith
  then show ?case using 1 by cases (simp_all add: std_find_unfold range_of_Cons)
qed

lemma length_takeWhile_all: "length (takeWhile (\<lambda>y. y \<noteq> x) xs) = length xs \<longleftrightarrow> x \<notin> set xs"
  by (induction xs) auto

lemma std_find_pieces:
  fixes v :: "char list" and x :: char
  assumes "lo \<le> hi" "hi \<le> length v"
  defines "p \<equiv> std_find v lo hi x"
  shows "p = hi \<longleftrightarrow> x \<notin> set (range_of v lo hi)"
    and "range_of v lo p = takeWhile (\<lambda>y. y \<noteq> x) (range_of v lo hi)"
    and "range_of v p hi = dropWhile (\<lambda>y. y \<noteq> x) (range_of v lo hi)"
    and "range_of v (Suc p) hi = tl (dropWhile (\<lambda>y. y \<noteq> x) (range_of v lo hi))"
    and "lo \<le> p" "p \<le> hi"
proof -
  let ?r = "range_of v lo hi" and ?n = "length (takeWhile (\<lambda>y. y \<noteq> x) (range_of v lo hi))"
  have p: "p = lo + ?n" unfolding p_def by (rule std_find_text [OF assms(1,2)])
  have len: "length ?r = hi - lo" "?n \<le> length ?r" using assms length_takeWhile_le [of _ "range_of v lo hi"] by auto
  show b: "lo \<le> p" "p \<le> hi" using p len assms(1) by linarith+
  have "p = hi \<longleftrightarrow> ?n = length ?r" using p len assms(1) by linarith
  also have "\<dots> \<longleftrightarrow> x \<notin> set ?r" by (rule length_takeWhile_all)
  finally show "p = hi \<longleftrightarrow> x \<notin> set ?r" .
  show "range_of v lo p = takeWhile (\<lambda>y. y \<noteq> x) ?r"
    using take_range_of [of ?n hi lo v] len p takeWhile_eq_take [of "\<lambda>y. y \<noteq> x" ?r] by simp
  show d: "range_of v p hi = dropWhile (\<lambda>y. y \<noteq> x) ?r"
    using drop_range_of [of ?n v lo hi] p by (simp add: dropWhile_eq_drop)
  show "range_of v (Suc p) hi = tl (dropWhile (\<lambda>y. y \<noteq> x) ?r)"
    using drop_range_of [of 1 v p hi] d by (simp add: drop_Suc)
qed

lemma first_word_dropWhile: "c \<in> set s \<Longrightarrow> dropWhile (\<lambda>x. x \<noteq> c) s = c # tl (dropWhile (\<lambda>x. x \<noteq> c) s)"
  by (induction s) auto

lemma first_word_append:
  "c \<notin> set xs \<Longrightarrow> first_word c (xs @ c # ys) = Some (xs, ys)"
  by (induction xs) (auto simp: first_word_def)

lemma first_word_None: "first_word c s = None \<longleftrightarrow> c \<notin> set s"
  by (simp add: first_word_def)

lemma set_method_spec:
  "rq_method rq = Method_kInvalid \<Longrightarrow>
   set_method m rq = Inr (method_of m \<noteq> Method_kInvalid, rq\<lparr>rq_method := method_of m\<rparr>)"
  by (simp add: set_method_def method_of_def Let_def)

lemma skip_space_text:
  "p \<le> e \<Longrightarrow> e \<le> length v \<Longrightarrow> range_of v (skip_space v p e) e = dropWhile isspace (range_of v p e)"
proof (induction v p e rule: skip_space.induct)
  case (1 v p e)
  show ?case
  proof (cases "p < e")
    case True
    with 1 show ?thesis by (simp add: skip_space.simps [of v p e] range_of_Cons)
  qed (use 1 in \<open>simp add: skip_space.simps [of v e e]\<close>)
qed

lemma trim_right_spec: "trim_right s = List.rev (dropWhile isspace (List.rev s))"
proof (induction s rule: trim_right.induct)
  case (1 s)
  show ?case
  proof (cases "s = []")
    case False
    then obtain xs x where "s = xs @ [x]" by (metis rev_exhaust)
    with 1 show ?thesis by (simp add: trim_right.simps [of "xs @ [x]"])
  qed (simp add: trim_right.simps [of "[]"])
qed

text \<open>The two line handlers are functions of the line's text.\<close>

lemma AddHeader_text:
  assumes "lo \<le> hi" "hi \<le> length v" "std_find v lo hi (CHR '':'') \<noteq> hi"
  shows "\<exists>h. first_word (CHR '':'') (range_of v lo hi) = Some h
    \<and> AddHeader v lo (std_find v lo hi (CHR '':'')) hi rq = header_line h rq"
proof -
  note f = std_find_pieces [OF assms(1,2), of "CHR '':''"]
  let ?p = "std_find v lo hi (CHR '':'')"
  have "CHR '':'' \<in> set (range_of v lo hi)" "Suc ?p \<le> hi" using f(1,6) assms(3) by linarith+
  then show ?thesis using skip_space_text [of "Suc ?p" hi v] assms(2) f(2,4)
    by (simp add: AddHeader_def header_line_def first_word_def trim_right_spec strip_def Let_def)
qed

lemma version_text:
  assumes "lo \<le> hi" "hi \<le> length v"
  shows "hi - lo = 8 \<and> range_of v lo (hi - 1) = ''HTTP/1.'' \<and> v ! (hi - 1) = c \<longleftrightarrow> range_of v lo hi = ''HTTP/1.'' @ [c]"
proof (cases "hi - lo = 8")
  case True
  then have "range_of v lo hi = range_of v lo (hi - 1) @ [v ! (hi - 1)]"
    using range_of_split [of lo "hi - 1" hi v] range_of_Cons [of "hi - 1" hi v] assms by simp
  with True show ?thesis by simp
next
  case False
  with assms length_range_of [OF assms(2), of lo] have "length (range_of v lo hi) \<noteq> 8" by simp
  moreover have "length (''HTTP/1.'' @ [c]) = 8" by simp
  ultimately show ?thesis using False by metis
qed

lemma ProcessRequestLine_text:
  assumes "lo \<le> hi" "hi \<le> length v" "rq_method (ctx_request ctx) = Method_kInvalid"
  shows "ProcessRequestLine v lo hi ctx =
    (case request_line (range_of v lo hi) (ctx_request ctx) of (ok, rq) \<Rightarrow> Inr (ok, ctx\<lparr>ctx_request := rq\<rparr>))"
proof -
  let ?sp = "CHR '' ''" and ?line = "range_of v lo hi"
  let ?p = "std_find v lo hi ?sp"
  let ?q = "std_find v (Suc ?p) hi ?sp"
  note f = std_find_pieces [OF assms(1,2), of ?sp]
  show ?thesis
  proof (cases "?sp \<in> set ?line")
    case False
    with f(1) show ?thesis by (simp add: ProcessRequestLine_def request_line_def first_word_def)
  next
    case True
    with f(1,6) have p: "?p \<noteq> hi" "Suc ?p \<le> hi" by auto
    note g = std_find_pieces [OF p(2) assms(2), of ?sp]
    let ?line1 = "range_of v (Suc ?p) hi"
    have w1: "first_word ?sp ?line = Some (range_of v lo ?p, ?line1)"
      using True f(2,4) by (simp add: first_word_def)
    show ?thesis
    proof (cases "method_of (range_of v lo ?p) = Method_kInvalid \<or> ?sp \<notin> set ?line1")
      case True
      with g(1) w1 p set_method_spec [OF assms(3)] show ?thesis
        by (auto simp: ProcessRequestLine_def request_line_def first_word_None Let_def first_word_def)
    next
      case False
      with g(1,6) have q: "?q \<noteq> hi" "Suc ?q \<le> hi" by auto
      note u = std_find_pieces [OF g(5) order_trans [OF g(6) assms(2)], of "CHR ''?''"]
      have w2: "first_word ?sp ?line1 = Some (range_of v (Suc ?p) ?q, range_of v (Suc ?q) hi)"
        using False g(2,4) by (simp add: first_word_def)
      have target: "(if std_find v (Suc ?p) ?q (CHR ''?'') \<noteq> ?q
            then rq\<lparr>rq_path := range_of v (Suc ?p) (std_find v (Suc ?p) ?q (CHR ''?'')),
                    rq_query := range_of v (std_find v (Suc ?p) ?q (CHR ''?'')) ?q\<rparr>
            else rq\<lparr>rq_path := range_of v (Suc ?p) ?q\<rparr>) =
          (case first_word (CHR ''?'') (range_of v (Suc ?p) ?q) of
             None \<Rightarrow> rq\<lparr>rq_path := range_of v (Suc ?p) ?q\<rparr>
           | Some (path, args) \<Rightarrow> rq\<lparr>rq_path := path, rq_query := CHR ''?'' # args\<rparr>)" for rq :: http_request
        using u(1,2,3) by (simp add: first_word_def flip: first_word_dropWhile)
      have version: "range_of v (Suc ?q) hi = ''HTTP/1.1'' \<longleftrightarrow>
            hi - Suc ?q = 8 \<and> range_of v (Suc ?q) (hi - 1) = ''HTTP/1.'' \<and> v ! (hi - 1) = CHR ''1''"
          "range_of v (Suc ?q) hi = ''HTTP/1.0'' \<longleftrightarrow>
            hi - Suc ?q = 8 \<and> range_of v (Suc ?q) (hi - 1) = ''HTTP/1.'' \<and> v ! (hi - 1) = CHR ''0''"
        using version_text [OF q(2) assms(2)] by simp_all
      show ?thesis
        using False p(1) q(1)
        by (simp add: ProcessRequestLine_def request_line_def Let_def w1 w2 set_method_spec [OF assms(3)] target version)
    qed
  qed
qed

section \<open>The parser implements the specification\<close>

lemma split_line_Some:
  "split_line s = Some (l, r) \<Longrightarrow>
   s = l @ kCRLF @ r \<and> (\<forall>pre post. s = pre @ kCRLF @ post \<longrightarrow> length l \<le> length pre)"
proof (induction s arbitrary: l r rule: split_line.induct)
  case (1 a b s)
  show ?case
  proof (cases "a = CHR 0x0D \<and> b = CHR 0x0A")
    case True
    with 1 show ?thesis by (auto simp: kCRLF_def)
  next
    case False
    with 1(2) obtain l' where l: "split_line (b # s) = Some (l', r)" "l = a # l'"
      by (auto split: option.splits)
    note IH = 1(1) [OF False l(1)]
    have "length l \<le> length pre" if "a # b # s = pre @ kCRLF @ post" for pre post
    proof (cases pre)
      case Nil
      with that False show ?thesis by (simp add: kCRLF_def)
    next
      case (Cons p pre')
      with that IH l show ?thesis by auto
    qed
    with IH l show ?thesis by simp
  qed
qed simp_all

lemma split_line_None: "split_line s = None \<Longrightarrow> s \<noteq> pre @ kCRLF @ post"
proof (induction s arbitrary: pre rule: split_line.induct)
  case (1 a b s)
  then have "\<not> (a = CHR 0x0D \<and> b = CHR 0x0A)" "split_line (b # s) = None"
    by (auto split: if_splits option.splits)
  with 1 show ?case by (cases pre) (auto simp: kCRLF_def)
qed (auto simp: kCRLF_def append_eq_Cons_conv Cons_eq_append_conv)

lemma split_line_append: "split_line s = Some (l, r) \<Longrightarrow> split_line (s @ ys) = Some (l, r @ ys)"
  by (induction s arbitrary: l rule: split_line.induct) (auto split: if_splits option.splits)

lemma split_line_line:
  "CHR 0x0D \<notin> set l \<Longrightarrow> split_line (l @ kCRLF @ r) = Some (l, r)"
proof (induction l)
  case Nil
  then show ?case by (simp add: kCRLF_def)
next
  case (Cons a l)
  then have "split_line (l @ kCRLF @ r) = Some (l, r)" "a \<noteq> CHR 0x0D" by auto
  moreover obtain b s where "l @ kCRLF @ r = b # s" by (cases "l @ kCRLF @ r") (auto simp: kCRLF_def)
  ultimately show ?case by simp
qed

lemma FindCRLF_split:
  assumes "wf_buffer b"
  shows "FindCRLF b = (case split_line (content b) of None \<Rightarrow> None | Some (l, r) \<Rightarrow> Some (reader_index b + length l))"
proof (cases "split_line (content b)")
  case None
  have "FindCRLF b = None"
    using split_line_None [OF None] FindCRLF_Some [OF assms] by (cases "FindCRLF b") auto
  with None show ?thesis by simp
next
  case (Some a)
  obtain l r where lr: "a = (l, r)" by (cases a)
  note s = split_line_Some [OF Some [unfolded lr]]
  have "FindCRLF b \<noteq> None" using FindCRLF_None [OF assms] s by blast
  then obtain p where p: "FindCRLF b = Some p" by blast
  from FindCRLF_Some [OF assms p] s have "p = reader_index b + length l" by (metis le_antisym)
  with p Some lr show ?thesis by simp
qed

lemma content_line:
  assumes "wf_buffer b" "split_line (content b) = Some (l, r)"
  shows "range_of (buf_bytes b) (reader_index b) (reader_index b + length l) = l"
    and "\<exists>b'. RetrieveUntil b (reader_index b + length l + 2) = Inr b' \<and> wf_buffer b' \<and> content b' = r"
    and "reader_index b + length l \<le> length (buf_bytes b)"
proof -
  note c = split_line_Some [OF assms(2), THEN conjunct1] and w = wf_bounds [OF assms(1)]
  from c have len: "length l + 2 \<le> writer_index b - reader_index b"
    using length_content [OF assms(1)] by simp
  then show "reader_index b + length l \<le> length (buf_bytes b)" using w by linarith
  have "take (length l) (content b) = l" using c by simp
  with len show "range_of (buf_bytes b) (reader_index b) (reader_index b + length l) = l"
    by (simp add: content_def take_range_of)
  have "reader_index b + length l + 2 \<le> writer_index b" using len w(1) by linarith
  from RetrieveUntil_content [OF assms(1) _ this] c
  show "\<exists>b'. RetrieveUntil b (reader_index b + length l + 2) = Inr b' \<and> wf_buffer b' \<and> content b' = r"
    by (auto simp: kCRLF_def)
qed

definition ctx_ready :: "http_context \<Rightarrow> bool" where
  "ctx_ready ctx \<longleftrightarrow> ctx_state ctx = kExpectRequestLine \<and> rq_method (ctx_request ctx) = Method_kInvalid
     \<or> ctx_state ctx = kExpectHeaders"

lemma ParseRequest_body_idle:
  "wf_buffer b \<Longrightarrow> ctx_ready ctx \<Longrightarrow> split_line (content b) = None \<Longrightarrow>
   ParseRequest_body t ok b ctx = Inr (ok, False, b, ctx)"
  by (auto simp: ParseRequest_body_def FindCRLF_split ctx_ready_def)

lemma ParseRequest_body_request:
  assumes "wf_buffer b" "split_line (content b) = Some (l, r)"
    and "ctx_state ctx = kExpectRequestLine" "rq_method (ctx_request ctx) = Method_kInvalid"
    and "request_line l (ctx_request ctx) = (known, rq)"
  shows "if known then \<exists>b'. ParseRequest_body t ok b ctx =
            Inr (True, True, b', \<lparr>ctx_state = kExpectHeaders, ctx_request = rq\<lparr>rq_receivetime := t\<rparr>\<rparr>)
            \<and> wf_buffer b' \<and> content b' = r
         else ParseRequest_body t ok b ctx = Inr (False, False, b, ctx\<lparr>ctx_request := rq\<rparr>)"
proof -
  note c = content_line [OF assms(1,2)]
  obtain b' where b': "RetrieveUntil b (reader_index b + length l + 2) = Inr b'" "wf_buffer b'" "content b' = r"
    using c(2) by blast
  have "ProcessRequestLine (buf_bytes b) (reader_index b) (reader_index b + length l) ctx = Inr (known, ctx\<lparr>ctx_request := rq\<rparr>)"
    using ProcessRequestLine_text [OF _ c(3) assms(4)] c(1) assms(5) by simp
  then show ?thesis using b' assms(3)
    by (simp add: ParseRequest_body_def FindCRLF_split [OF assms(1)] assms(2) Peek_def ReceiveRequestLine_def)
qed

lemma ParseRequest_body_header:
  assumes "wf_buffer b" "split_line (content b) = Some (l, r)" "ctx_state ctx = kExpectHeaders"
  shows "\<exists>b'. ParseRequest_body t ok b ctx =
      (case first_word (CHR '':'') l of
         Some h \<Rightarrow> Inr (ok, True, b', ctx\<lparr>ctx_request := header_line h (ctx_request ctx)\<rparr>)
       | None \<Rightarrow> Inr (ok, False, b', ctx\<lparr>ctx_state := kGotAll\<rparr>))
    \<and> wf_buffer b' \<and> content b' = r"
proof -
  note c = content_line [OF assms(1,2)]
  let ?p = "reader_index b" and ?e = "reader_index b + length l"
  obtain b' where b': "RetrieveUntil b (?e + 2) = Inr b'" "wf_buffer b'" "content b' = r" using c(2) by blast
  note f = std_find_pieces [OF _ c(3), of ?p "CHR '':''", simplified, unfolded c(1)]
  show ?thesis
  proof (cases "CHR '':'' \<in> set l")
    case True
    then obtain h where h: "first_word (CHR '':'') l = Some h"
      "AddHeader (buf_bytes b) ?p (std_find (buf_bytes b) ?p ?e (CHR '':'')) ?e (ctx_request ctx) = header_line h (ctx_request ctx)"
      using AddHeader_text [OF _ c(3), of ?p "ctx_request ctx"] f(1) c(1) by auto
    with b' True assms(3) f(1) show ?thesis
      by (simp add: ParseRequest_body_def FindCRLF_split [OF assms(1)] assms(2) Peek_def Let_def)
  next
    case False
    with b' assms(3) f(1) show ?thesis
      by (simp add: ParseRequest_body_def FindCRLF_split [OF assms(1)] assms(2) Peek_def Let_def first_word_def
          GotAll_def ReceiveHeaders_def)
  qed
qed

lemma ParseRequest_loop_refines:
  "wf_buffer b \<Longrightarrow> ctx_ready ctx \<Longrightarrow> parse_text t (content b) ctx = (ok, rest, ctx') \<Longrightarrow>
   \<exists>b'. ParseRequest_loop t True True b ctx = Some (Inr (ok, b', ctx')) \<and> wf_buffer b' \<and> content b' = rest"
proof (induction "length (content b)" arbitrary: b ctx rule: less_induct)
  case less
  show ?case
  proof (cases "split_line (content b)")
    case None
    with less.prems ParseRequest_body_idle [OF less.prems(1,2)] show ?thesis
      by (auto simp: ParseRequest_loop.simps [of t True True b] ParseRequest_loop.simps [of t True False] parse_text.simps [of t "content b"])
  next
    case (Some a)
    obtain l r where lr: "split_line (content b) = Some (l, r)" using Some by (cases a) simp
    note shorter = split_line_length [OF lr]
    show ?thesis
    proof (cases "ctx_state ctx = kExpectRequestLine")
      case True
      obtain known rq where rl: "request_line l (ctx_request ctx) = (known, rq)" by (cases "request_line l (ctx_request ctx)")
      let ?ctx = "\<lparr>ctx_state = kExpectHeaders, ctx_request = rq\<lparr>rq_receivetime := t\<rparr>\<rparr>"
      have "rq_method (ctx_request ctx) = Method_kInvalid" using True less.prems(2) by (simp add: ctx_ready_def)
      note body = ParseRequest_body_request [OF less.prems(1) lr True this rl, of t True]
      show ?thesis
      proof (cases known)
        case False
        with body less.prems(1,3) lr True rl show ?thesis
          by (auto simp: ParseRequest_loop.simps [of t True True b] ParseRequest_loop.simps [of t False False] parse_text.simps [of t "content b"])
      next
        case k: True
        with body obtain b1 where b1: "ParseRequest_body t True b ctx = Inr (True, True, b1, ?ctx)" "wf_buffer b1" "content b1 = r"
          by auto
        have "parse_text t (content b1) ?ctx = (ok, rest, ctx')"
          using less.prems(3) lr True rl k b1(3) by (simp add: parse_text.simps [of t "content b"])
        from less.hyps [OF _ b1(2) _ this] shorter b1 show ?thesis
          by (simp add: ctx_ready_def ParseRequest_loop.simps [of t True True b])
      qed
    next
      case False
      with less.prems(2) have st: "ctx_state ctx = kExpectHeaders" by (simp add: ctx_ready_def)
      from ParseRequest_body_header [OF less.prems(1) lr st, of t True] obtain b1 where
        b1: "ParseRequest_body t True b ctx = (case first_word (CHR '':'') l of
             Some h \<Rightarrow> Inr (True, True, b1, ctx\<lparr>ctx_request := header_line h (ctx_request ctx)\<rparr>)
           | None \<Rightarrow> Inr (True, False, b1, ctx\<lparr>ctx_state := kGotAll\<rparr>))" "wf_buffer b1" "content b1 = r" by blast
      show ?thesis
      proof (cases "first_word (CHR '':'') l")
        case None
        with b1 less.prems(3) lr False show ?thesis
          by (auto simp: ParseRequest_loop.simps [of t True True b] ParseRequest_loop.simps [of t True False] parse_text.simps [of t "content b"])
      next
        case (Some h)
        let ?ctx = "ctx\<lparr>ctx_request := header_line h (ctx_request ctx)\<rparr>"
        have "parse_text t (content b1) ?ctx = (ok, rest, ctx')"
          using less.prems(3) lr False Some b1(3) by (simp add: parse_text.simps [of t "content b"])
        from less.hyps [OF _ b1(2) _ this] shorter b1 Some st show ?thesis
          by (simp add: ctx_ready_def ParseRequest_loop.simps [of t True True b])
      qed
    qed
  qed
qed

text \<open>What the specification promises about its results.\<close>

lemma parse_text_post:
  "ctx_ready ctx \<Longrightarrow> parse_text t s ctx = (ok, rest, ctx') \<Longrightarrow>
   (\<exists>used. s = used @ rest)
   \<and> (if ok then ctx_state ctx' = kGotAll \<or> ctx_ready ctx' \<and> split_line rest = None
      else ctx_state ctx' = kExpectRequestLine)"
proof (induction t s ctx rule: parse_text.induct)
  case (1 t s ctx)
  show ?case
  proof (cases "split_line s")
    case None
    with 1 show ?thesis by (simp add: parse_text.simps [of t s])
  next
    case (Some a)
    obtain l r where lr: "split_line s = Some (l, r)" using Some by (cases a) simp
    note s = split_line_Some [OF lr, THEN conjunct1]
    obtain known rq where rl: "request_line l (ctx_request ctx) = (known, rq)" by (cases "request_line l (ctx_request ctx)")
    consider (bad) "ctx_state ctx = kExpectRequestLine" "\<not> known" | (good) "ctx_state ctx = kExpectRequestLine" "known"
      | (field) h where "ctx_state ctx = kExpectHeaders" "first_word (CHR '':'') l = Some h"
      | (last_line) "ctx_state ctx = kExpectHeaders" "first_word (CHR '':'') l = None"
      using 1(3) by (cases "first_word (CHR '':'') l") (auto simp: ctx_ready_def)
    then show ?thesis
    proof cases
      case bad
      with 1(4) lr rl show ?thesis by (auto simp: parse_text.simps [of t s])
    next
      case good
      let ?ctx = "\<lparr>ctx_state = kExpectHeaders, ctx_request = rq\<lparr>rq_receivetime := t\<rparr>\<rparr>"
      have "parse_text t r ?ctx = (ok, rest, ctx')" "ctx_ready ?ctx"
        using 1(4) good lr rl by (simp_all add: parse_text.simps [of t s] ctx_ready_def)
      from 1(1) [OF lr refl good(1) rl [symmetric] good(2) this(2,1)] s show ?thesis by (metis append.assoc)
    next
      case (field h)
      let ?ctx = "ctx\<lparr>ctx_request := header_line h (ctx_request ctx)\<rparr>"
      have "parse_text t r ?ctx = (ok, rest, ctx')" "ctx_ready ?ctx"
        using 1(4) field lr by (simp_all add: parse_text.simps [of t s] ctx_ready_def)
      with 1(2) [OF lr refl _ field(2)] field(1) s show ?thesis by (metis append.assoc parse_state.distinct(1))
    next
      case last_line
      with 1(4) parse_text_last [OF lr] have "ok" "rest = r" "ctx_state ctx' = kGotAll" by auto
      with s show ?thesis by (metis append.assoc)
    qed
  qed
qed

text \<open>Text that arrives later is parsed as if it had been there from the start.\<close>

lemma parse_text_append:
  "ctx_ready ctx \<Longrightarrow> parse_text t s ctx = (True, rest, ctx') \<Longrightarrow> ctx_state ctx' \<noteq> kGotAll \<Longrightarrow>
   parse_text t (s @ ys) ctx = parse_text t (rest @ ys) ctx'"
proof (induction t s ctx rule: parse_text.induct)
  case (1 t s ctx)
  show ?case
  proof (cases "split_line s")
    case None
    with 1 show ?thesis by (simp add: parse_text.simps [of t s])
  next
    case (Some a)
    obtain l r where lr: "split_line s = Some (l, r)" using Some by (cases a) simp
    note lr' = split_line_append [OF lr, of ys]
    obtain known rq where rl: "request_line l (ctx_request ctx) = (known, rq)" by (cases "request_line l (ctx_request ctx)")
    show ?thesis
    proof (cases "ctx_state ctx = kExpectRequestLine")
      case True
      with 1(4) lr rl have known: "known" by (auto simp: parse_text.simps [of t s] split: if_splits)
      let ?ctx = "\<lparr>ctx_state = kExpectHeaders, ctx_request = rq\<lparr>rq_receivetime := t\<rparr>\<rparr>"
      have "parse_text t r ?ctx = (True, rest, ctx')" "ctx_ready ?ctx"
        using 1(4) True known lr rl by (simp_all add: parse_text.simps [of t s] ctx_ready_def)
      from 1(1) [OF lr refl True rl [symmetric] known this(2,1) 1(5)] show ?thesis
        using lr' True rl known by (simp add: parse_text.simps [of t "s @ ys"])
    next
      case False
      with 1(3) have st: "ctx_state ctx = kExpectHeaders" by (simp add: ctx_ready_def)
      with 1(4,5) lr obtain h where h: "first_word (CHR '':'') l = Some h"
        by (cases "first_word (CHR '':'') l") (auto simp: parse_text.simps [of t s])
      let ?ctx = "ctx\<lparr>ctx_request := header_line h (ctx_request ctx)\<rparr>"
      have "parse_text t r ?ctx = (True, rest, ctx')" "ctx_ready ?ctx"
        using 1(4) st h lr by (simp_all add: parse_text.simps [of t s] ctx_ready_def)
      from 1(2) [OF lr refl False h this(2,1) 1(5)] show ?thesis
        using lr' False h by (simp add: parse_text.simps [of t "s @ ys"])
    qed
  qed
qed

section \<open>Printing requests\<close>

definition version_string :: "http_version \<Rightarrow> string" where
  "version_string v = (case v of Version_kUnknown \<Rightarrow> ''HTTP/?'' | Version_kHttp10 \<Rightarrow> ''HTTP/1.0'' | Version_kHttp11 \<Rightarrow> ''HTTP/1.1'')"

definition header_text :: "string \<times> string \<Rightarrow> string" where
  "header_text h = fst h @ '': '' @ snd h"

definition request_text :: "http_request \<Rightarrow> string" where
  "request_text rq =
     (method_string rq @ '' '' @ rq_path rq @ rq_query rq @ '' '' @ version_string (rq_version rq)) @ kCRLF
     @ concat (map (\<lambda>h. header_text h @ kCRLF) (rq_headers rq)) @ kCRLF"

definition printable :: "http_request \<Rightarrow> bool" where
  "printable rq \<longleftrightarrow> rq_method rq \<noteq> Method_kInvalid \<and> rq_version rq \<noteq> Version_kUnknown
     \<and> list_all (\<lambda>c. c \<notin> set (rq_path rq)) [CHR '' '', CHR ''?'', CHR 0x0D]
     \<and> list_all (\<lambda>c. c \<notin> set (rq_query rq)) [CHR '' '', CHR 0x0D]
     \<and> (rq_query rq = [] \<or> hd (rq_query rq) = CHR ''?'')
     \<and> std_map (rq_headers rq)
     \<and> list_all (\<lambda>(k, v). CHR '':'' \<notin> set k \<and> CHR 0x0D \<notin> set k \<and> CHR 0x0D \<notin> set v \<and> strip v = v) (rq_headers rq)"

lemma method_string_facts:
  assumes "rq_method rq \<noteq> Method_kInvalid"
  shows "method_of (method_string rq) = rq_method rq" "CHR '' '' \<notin> set (method_string rq)" "CHR 0x0D \<notin> set (method_string rq)"
  using assms by (cases "rq_method rq"; simp add: method_of_def method_string_def)+

text \<open>A request object before its first line is parsed: what the constructor and \<^verbatim>\<open>Reset\<close> leave. \<^verbatim>\<open>swap\<close> keeps the version.\<close>

definition blank :: "http_request \<Rightarrow> bool" where
  "blank rq \<longleftrightarrow> rq_method rq = Method_kInvalid \<and> rq_path rq = [] \<and> rq_query rq = [] \<and> rq_headers rq = []"

lemma request_line_text:
  assumes "printable rq" "blank r0"
  shows "request_line (method_string rq @ '' '' @ rq_path rq @ rq_query rq @ '' '' @ version_string (rq_version rq)) r0 =
    (True, r0\<lparr>rq_method := rq_method rq, rq_path := rq_path rq, rq_query := rq_query rq, rq_version := rq_version rq\<rparr>)"
proof -
  have m: "rq_method rq \<noteq> Method_kInvalid" using assms(1) by (simp add: printable_def)
  note mf = method_string_facts [OF m]
  let ?target = "rq_path rq @ rq_query rq"
  have w1: "first_word (CHR '' '') (method_string rq @ CHR '' '' # rest) = Some (method_string rq, rest)" for rest
    by (rule first_word_append [OF mf(2)])
  have w2: "first_word (CHR '' '') (?target @ CHR '' '' # rest) = Some (?target, rest)" for rest
    using assms(1) by (intro first_word_append) (simp add: printable_def)
  have w3: "first_word (CHR ''?'') ?target = (case rq_query rq of [] \<Rightarrow> None | _ # args \<Rightarrow> Some (rq_path rq, args))"
    using assms(1) first_word_append [of "CHR ''?''" "rq_path rq"]
    by (auto simp: printable_def first_word_None split: list.split)
  have "rq_query rq = [] \<or> rq_query rq = CHR ''?'' # tl (rq_query rq)"
    using assms(1) by (cases "rq_query rq") (auto simp: printable_def)
  moreover have "rq_version rq = Version_kHttp10 \<or> rq_version rq = Version_kHttp11"
    using assms(1) by (cases "rq_version rq") (auto simp: printable_def)
  ultimately show ?thesis using w1 w2 [simplified] w3 mf(1) m assms(2)
    by (auto simp: request_line_def Let_def version_string_def blank_def split: list.splits)
qed

lemma strip_space: "strip (CHR '' '' # v) = strip v"
  by (simp add: strip_def isspace_def)

lemma map_put_last: "\<forall>e \<in> set es. fst e < k \<Longrightarrow> map_put k v es = es @ [(k, v)]"
  by (induction es) auto

lemma parse_headers:
  assumes "ctx_state ctx = kExpectHeaders" "std_map (rq_headers (ctx_request ctx) @ hs)"
    and "list_all (\<lambda>(k, v). CHR '':'' \<notin> set k \<and> CHR 0x0D \<notin> set k \<and> CHR 0x0D \<notin> set v \<and> strip v = v) hs"
  shows "parse_text t (concat (map (\<lambda>h. header_text h @ kCRLF) hs) @ kCRLF @ rest) ctx =
    (True, rest, \<lparr>ctx_state = kGotAll,
       ctx_request = (ctx_request ctx)\<lparr>rq_headers := rq_headers (ctx_request ctx) @ hs\<rparr>\<rparr>)"
  using assms
proof (induction hs arbitrary: ctx)
  case Nil
  then show ?case using split_line_line [of "[]" rest]
    by (simp add: parse_text.simps [of t "kCRLF @ rest"] first_word_def)
next
  case (Cons h hs)
  obtain k v where h: "h = (k, v)" by (cases h)
  let ?rest = "concat (map (\<lambda>h. header_text h @ kCRLF) hs) @ kCRLF @ rest"
  let ?ctx = "ctx\<lparr>ctx_request := header_line (k, '' '' @ v) (ctx_request ctx)\<rparr>"
  have ok: "CHR '':'' \<notin> set k" "CHR 0x0D \<notin> set k" "CHR 0x0D \<notin> set v" "strip v = v" using Cons.prems(3) h by auto
  have "split_line (header_text h @ kCRLF @ ?rest) = Some (header_text h, ?rest)"
    using ok h by (intro split_line_line) (simp add: header_text_def)
  moreover have "first_word (CHR '':'') (header_text h) = Some (k, '' '' @ v)"
    using first_word_append [OF ok(1), of "'' '' @ v"] h by (simp add: header_text_def)
  ultimately have step: "parse_text t (header_text h @ kCRLF @ ?rest) ctx = parse_text t ?rest ?ctx"
    using Cons.prems(1) by (intro parse_text_field)
  have "\<forall>e \<in> set (rq_headers (ctx_request ctx)). fst e < k"
    using Cons.prems(2) h by (auto simp: std_map_def sorted_wrt_append)
  then have hdr: "rq_headers (ctx_request ?ctx) = rq_headers (ctx_request ctx) @ [(k, v)]"
    using ok(4) by (simp add: header_line_def map_put_last strip_space)
  have "parse_text t ?rest ?ctx = (True, rest, \<lparr>ctx_state = kGotAll,
       ctx_request = (ctx_request ?ctx)\<lparr>rq_headers := rq_headers (ctx_request ?ctx) @ hs\<rparr>\<rparr>)"
    using Cons.prems hdr h by (intro Cons.IH) simp_all
  with step hdr h show ?case by (simp add: header_line_def)
qed

lemma parse_request_blank:
  assumes "printable rq" "blank r0"
  shows "parse_text t (request_text rq @ rest) \<lparr>ctx_state = kExpectRequestLine, ctx_request = r0\<rparr> =
    (True, rest, \<lparr>ctx_state = kGotAll, ctx_request = rq\<lparr>rq_remote_addr := rq_remote_addr r0, rq_receivetime := t\<rparr>\<rparr>)"
proof -
  let ?line = "method_string rq @ '' '' @ rq_path rq @ rq_query rq @ '' '' @ version_string (rq_version rq)"
  let ?rest = "concat (map (\<lambda>h. header_text h @ kCRLF) (rq_headers rq)) @ kCRLF @ rest"
  let ?rq = "rq\<lparr>rq_remote_addr := rq_remote_addr r0, rq_receivetime := t\<rparr>"
  let ?ctx = "\<lparr>ctx_state = kExpectHeaders, ctx_request = ?rq\<lparr>rq_headers := []\<rparr>\<rparr>"
  have m: "rq_method rq \<noteq> Method_kInvalid" using assms(1) by (simp add: printable_def)
  have "CHR 0x0D \<notin> set (version_string (rq_version rq))" by (cases "rq_version rq") (simp_all add: version_string_def)
  then have line: "split_line (?line @ kCRLF @ ?rest) = Some (?line, ?rest)"
    using assms(1) method_string_facts(3) [OF m] by (intro split_line_line) (simp add: printable_def)
  have rq: "r0\<lparr>rq_method := rq_method rq, rq_path := rq_path rq, rq_query := rq_query rq, rq_version := rq_version rq,
      rq_receivetime := t\<rparr> = ?rq\<lparr>rq_headers := []\<rparr>"
    using assms(2) by (simp add: blank_def)
  from parse_text_request [OF line, of "\<lparr>ctx_state = kExpectRequestLine, ctx_request = r0\<rparr>" _ t] request_line_text [OF assms]
  have "parse_text t (?line @ kCRLF @ ?rest) \<lparr>ctx_state = kExpectRequestLine, ctx_request = r0\<rparr> = parse_text t ?rest ?ctx"
    using rq by simp
  moreover have "parse_text t ?rest ?ctx = (True, rest, \<lparr>ctx_state = kGotAll,
       ctx_request = (ctx_request ?ctx)\<lparr>rq_headers := rq_headers (ctx_request ?ctx) @ rq_headers rq\<rparr>\<rparr>)"
    using assms(1) by (intro parse_headers) (simp_all add: printable_def)
  ultimately show ?thesis by (simp add: request_text_def)
qed

lemma blank_new [simp]: "blank (HttpRequest_new\<lparr>rq_remote_addr := addr\<rparr>)"
  by (simp add: blank_def HttpRequest_new_def)

lemma parse_request_text:
  assumes "printable rq" "rq_remote_addr rq = addr" "rq_receivetime rq = t"
  shows "parse_text t (request_text rq @ rest) (HttpContext_new addr) = (True, rest, \<lparr>ctx_state = kGotAll, ctx_request = rq\<rparr>)"
  using parse_request_blank [OF assms(1) blank_new, of t rest addr] assms(2,3)
  by (auto simp: HttpContext_new_def HttpRequest_new_def)

text \<open>Once a text has been refused or a request is complete, further text changes nothing.\<close>

lemma parse_text_decided:
  "parse_text t s ctx = (ok, rest, ctx') \<Longrightarrow> \<not> ok \<or> ctx_state ctx' = kGotAll \<and> ctx_state ctx \<noteq> kGotAll \<Longrightarrow>
   parse_text t (s @ ys) ctx = (ok, rest @ ys, ctx')"
proof (induction t s ctx rule: parse_text.induct)
  case (1 t s ctx)
  show ?case
  proof (cases "split_line s")
    case None
    with 1(3,4) show ?thesis by (auto simp: parse_text.simps [of t s])
  next
    case (Some a)
    obtain l r where lr: "split_line s = Some (l, r)" using Some by (cases a) simp
    note lr' = split_line_append [OF lr, of ys]
    note here = 1(3,4) lr lr'
    obtain known rq where rl: "request_line l (ctx_request ctx) = (known, rq)" by (cases "request_line l (ctx_request ctx)")
    show ?thesis
    proof (cases "ctx_state ctx = kExpectRequestLine")
      case True
      with here rl 1(1) [OF lr refl True rl [symmetric]] show ?thesis
        by (auto simp: parse_text.simps [of t s] parse_text.simps [of t "s @ ys"] split: if_splits)
    next
      case False
      show ?thesis
      proof (cases "first_word (CHR '':'') l")
        case None
        with here False show ?thesis by (auto simp: parse_text.simps [of t s] parse_text.simps [of t "s @ ys"])
      next
        case (Some h)
        with here False 1(2) [OF lr refl False Some] show ?thesis
          by (auto simp: parse_text.simps [of t s] parse_text.simps [of t "s @ ys"])
      qed
    qed
  qed
qed

text \<open>The time of receipt is recorded and otherwise ignored.\<close>

definition ctx_time :: "timestamp \<Rightarrow> http_context \<Rightarrow> http_context" where
  "ctx_time t ctx = ctx\<lparr>ctx_request := (ctx_request ctx)\<lparr>rq_receivetime := t\<rparr>\<rparr>"

lemma ctx_time_simps [simp]:
  "ctx_state (ctx_time t ctx) = ctx_state ctx" "ctx_request (ctx_time t ctx) = (ctx_request ctx)\<lparr>rq_receivetime := t\<rparr>"
  by (simp_all add: ctx_time_def)

lemma request_line_time:
  "request_line l (rq\<lparr>rq_receivetime := t\<rparr>) = (case request_line l rq of (ok, rq') \<Rightarrow> (ok, rq'\<lparr>rq_receivetime := t\<rparr>))"
  by (simp add: request_line_def Let_def split: option.splits prod.splits)

lemma parse_text_time:
  "parse_text t s ctx = (ok, rest, ctx') \<Longrightarrow> \<exists>u'. parse_text t2 s (ctx_time u ctx) = (ok, rest, ctx_time u' ctx')"
proof (induction t s ctx arbitrary: u rule: parse_text.induct)
  case (1 t s ctx)
  show ?case
  proof (cases "split_line s")
    case None
    with 1(3) have same: "ok" "rest = s" "ctx' = ctx" by (auto simp: parse_text.simps [of t s])
    from None have "parse_text t2 s (ctx_time u ctx) = (ok, rest, ctx_time u ctx')"
      unfolding same(2,3) using same(1) by (simp add: parse_text.simps [of t2 s])
    then show ?thesis ..
  next
    case (Some a)
    obtain l r where lr: "split_line s = Some (l, r)" using Some by (cases a) simp
    obtain known rq where rl: "request_line l (ctx_request ctx) = (known, rq)" by (cases "request_line l (ctx_request ctx)")
    show ?thesis
    proof (cases "ctx_state ctx = kExpectRequestLine")
      case True
      let ?ctx = "\<lambda>t. \<lparr>ctx_state = kExpectHeaders, ctx_request = rq\<lparr>rq_receivetime := t\<rparr>\<rparr>"
      have step: "parse_text t2 s (ctx_time u ctx) =
          (if known then parse_text t2 r (ctx_time t2 (?ctx t)) else (False, s, ctx_time u (ctx\<lparr>ctx_request := rq\<rparr>)))"
        using True lr rl by (simp add: parse_text.simps [of t2 s] request_line_time ctx_time_def)
      show ?thesis
      proof (cases known)
        case True
        with 1(1) [OF lr refl \<open>ctx_state ctx = kExpectRequestLine\<close> rl [symmetric], of t2] 1(3) lr rl \<open>ctx_state ctx = kExpectRequestLine\<close>
        show ?thesis unfolding step by (simp add: parse_text.simps [of t s])
      next
        case False
        with 1(3) lr rl True have "\<not> ok" "rest = s" "ctx' = ctx\<lparr>ctx_request := rq\<rparr>" by (auto simp: parse_text.simps [of t s])
        with False show ?thesis unfolding step by auto
      qed
    next
      case False
      then show ?thesis
      proof (cases "first_word (CHR '':'') l")
        case None
        with 1(3) False lr show ?thesis by (auto simp: parse_text.simps [of t s] parse_text.simps [of t2 s] ctx_time_def intro!: exI [of _ u])
      next
        case (Some h)
        have "ctx_time u (ctx\<lparr>ctx_request := header_line h (ctx_request ctx)\<rparr>) =
            (ctx_time u ctx)\<lparr>ctx_request := header_line h (ctx_request (ctx_time u ctx))\<rparr>"
          by (simp add: ctx_time_def header_line_def)
        with 1(2) [OF lr refl False Some, of u] 1(3) False lr Some show ?thesis
          by (auto simp: parse_text.simps [of t s] parse_text.simps [of t2 s])
      qed
    qed
  qed
qed

section \<open>Properties\<close>

lemma ctx_ready_new [simp]: "ctx_ready (HttpContext_new addr)"
  by (simp add: ctx_ready_def HttpContext_new_def HttpRequest_new_def)

lemma ParseRequest_refines:
  assumes "wf_buffer b" "ctx_ready ctx" "parse_text t (content b) ctx = (ok, rest, ctx')"
  shows "\<exists>b'. ParseRequest b ctx t = Some (Inr (ok, b', ctx')) \<and> wf_buffer b' \<and> content b' = rest"
  using ParseRequest_loop_refines [OF assms] by (simp add: ParseRequest_def)

text \<open>A buffer that holds a given text.\<close>

definition buffer_of :: "string \<Rightarrow> buffer" where
  "buffer_of s = \<lparr>buf_bytes = replicate 8 (CHR 0x00) @ s, reader_index = 8, writer_index = 8 + length s\<rparr>"

lemma wf_buffer_of: "length s < 1000 \<Longrightarrow> wf_buffer (buffer_of s)"
  by (simp add: wf_buffer_def buffer_of_def buffer_const_defs)

lemma content_buffer_of [simp]: "content (buffer_of s) = s"
  by (simp add: content_def buffer_of_def range_of_def)

text \<open>
  C10. The request parser always returns, fails no assertion and reads nothing outside the buffer: on a
  context that expects a request line or headers its result is the one the line-by-line
  specification gives for the readable text; what it leaves is a suffix of that text, and
  unless it has a whole request it has consumed every complete line, or rejected the request.
\<close>

theorem ParseRequest_implements_spec:
  assumes "wf_buffer b" "ctx_ready ctx"
  shows "\<exists>ok b' ctx'. ParseRequest b ctx t = Some (Inr (ok, b', ctx')) \<and> wf_buffer b'
    \<and> parse_text t (content b) ctx = (ok, content b', ctx') \<and> (\<exists>used. content b = used @ content b')
    \<and> (if ok then GotAll ctx' \<or> ctx_ready ctx' \<and> FindCRLF b' = None else ctx_state ctx' = kExpectRequestLine)"
proof -
  obtain ok rest ctx' where p: "parse_text t (content b) ctx = (ok, rest, ctx')" by (cases "parse_text t (content b) ctx")
  from ParseRequest_refines [OF assms p] obtain b' where
    b': "ParseRequest b ctx t = Some (Inr (ok, b', ctx'))" "wf_buffer b'" "content b' = rest" by blast
  have "FindCRLF b' = None" if "split_line rest = None" using FindCRLF_split [OF b'(2)] b'(3) that by simp
  with p b' parse_text_post [OF assms(2) p] show ?thesis by (auto simp: GotAll_def split: if_splits)
qed

theorem ParseRequest_implements_spec_witness:
  "\<exists>b' ctx'. ParseRequest (buffer_of (''GET / HTTP/1.1'' @ kCRLF @ ''Ho'')) (HttpContext_new []) Timestamp_Invalid = Some (Inr (True, b', ctx'))
    \<and> content b' = ''Ho''"
proof -
  let ?s = "''GET / HTTP/1.1'' @ kCRLF @ ''Ho''" and ?ctx = "HttpContext_new []"
  have line: "split_line ?s = Some (''GET / HTTP/1.1'', ''Ho'')" by (rule split_line_line) simp
  have st: "ctx_state ?ctx = kExpectRequestLine" by (simp add: HttpContext_new_def)
  obtain rq where "request_line ''GET / HTTP/1.1'' (ctx_request ?ctx) = (True, rq)"
    by (simp add: request_line_def first_word_def method_of_def Let_def)
  from parse_text_request [OF line st this, of Timestamp_Invalid] obtain ctx' where "parse_text Timestamp_Invalid ?s ?ctx = (True, ''Ho'', ctx')"
    by (simp add: parse_text.simps [of Timestamp_Invalid "''Ho''"])
  moreover have "wf_buffer (buffer_of ?s)" by (rule wf_buffer_of) simp
  ultimately show ?thesis using ParseRequest_implements_spec [of "buffer_of ?s" ?ctx Timestamp_Invalid] by auto
qed

lemma ParseRequest_loop_spins:
  "ParseRequest_loop t ok has_more b ctx = Some r \<Longrightarrow> has_more \<longrightarrow> ctx_state ctx \<in> {kExpectRequestLine, kExpectHeaders}"
proof (erule ParseRequest_loop.raw_induct
    [where P = "\<lambda>t ok has_more b ctx r. has_more \<longrightarrow> ctx_state ctx \<in> {kExpectRequestLine, kExpectHeaders}", rotated])
  fix f :: "timestamp \<Rightarrow> bool \<Rightarrow> bool \<Rightarrow> buffer \<Rightarrow> http_context \<Rightarrow> ((bool \<times> buffer \<times> http_context) outcome) option"
  fix t ok has_more b ctx r
  assume IH: "\<And>t ok has_more b ctx r. f t ok has_more b ctx = Some r \<Longrightarrow>
      has_more \<longrightarrow> ctx_state ctx \<in> {kExpectRequestLine, kExpectHeaders}"
    and body: "(if \<not> has_more then Some (Inr (ok, b, ctx))
      else (case ParseRequest_body t ok b ctx of Inl e \<Rightarrow> Some (Inl e)
            | Inr (ok', has_more', b', ctx') \<Rightarrow> f t ok' has_more' b' ctx')) = Some r"
  have "f t ok True b ctx = Some r" if "has_more" "ctx_state ctx \<notin> {kExpectRequestLine, kExpectHeaders}"
    using body that by (auto simp: ParseRequest_body_def)
  with IH show "has_more \<longrightarrow> ctx_state ctx \<in> {kExpectRequestLine, kExpectHeaders}" by blast
qed

lemma ProcessRequestLine_stale:
  "rq_method (ctx_request ctx) \<noteq> Method_kInvalid \<Longrightarrow>
   ProcessRequestLine v lo hi ctx = Inr (False, ctx) \<or> ProcessRequestLine v lo hi ctx = Inl (AssertFailed ''method_ == kInvalid'')"
  by (simp add: ProcessRequestLine_def set_method_def Let_def)

text \<open>
  C26. Exactly when the parser's loop ends: on a buffer of any content it returns if and only if it is
  entered in one of the two states it handles. In \<^verbatim>\<open>kExpectBody\<close> and \<^verbatim>\<open>kGotAll\<close> it would spin for
  ever, so the caller's reset after each request is what keeps the server alive.
\<close>

theorem ParseRequest_terminates_iff:
  assumes "wf_buffer b"
  shows "(\<exists>r. ParseRequest b ctx t = Some r) \<longleftrightarrow> ctx_state ctx = kExpectRequestLine \<or> ctx_state ctx = kExpectHeaders"
proof
  assume "\<exists>r. ParseRequest b ctx t = Some r"
  then show "ctx_state ctx = kExpectRequestLine \<or> ctx_state ctx = kExpectHeaders"
    using ParseRequest_loop_spins [of t True True b ctx] by (auto simp: ParseRequest_def)
next
  assume st: "ctx_state ctx = kExpectRequestLine \<or> ctx_state ctx = kExpectHeaders"
  show "\<exists>r. ParseRequest b ctx t = Some r"
  proof (cases "ctx_ready ctx")
    case True
    then show ?thesis using ParseRequest_refines [OF assms True] by (cases "parse_text t (content b) ctx") blast
  next
    case False
    with st have s: "ctx_state ctx = kExpectRequestLine" "rq_method (ctx_request ctx) \<noteq> Method_kInvalid"
      by (auto simp: ctx_ready_def)
    have "(\<exists>ok. ParseRequest_body t True b ctx = Inr (ok, False, b, ctx)) \<or> (\<exists>e. ParseRequest_body t True b ctx = Inl e)"
      using ProcessRequestLine_stale [OF s(2), of "buf_bytes b" "Peek b" "the (FindCRLF b)"] s(1)
      by (cases "FindCRLF b") (auto simp: ParseRequest_body_def)
    then show ?thesis
      by (auto simp: ParseRequest_def ParseRequest_loop.simps [of t True True b] ParseRequest_loop.simps [of t _ False])
  qed
qed

theorem ParseRequest_terminates_iff_witness:
  "(\<exists>r. ParseRequest (buffer_of ''GET'') (HttpContext_new []) Timestamp_Invalid = Some r)
   \<and> ParseRequest (buffer_of ''GET'') ((HttpContext_new [])\<lparr>ctx_state := kGotAll\<rparr>) Timestamp_Invalid = None"
proof -
  have w: "wf_buffer (buffer_of ''GET'')" by (rule wf_buffer_of) simp
  from ParseRequest_terminates_iff [OF w, of "HttpContext_new []" Timestamp_Invalid]
    ParseRequest_terminates_iff [OF w, of "(HttpContext_new [])\<lparr>ctx_state := kGotAll\<rparr>" Timestamp_Invalid]
  show ?thesis
    by (cases "ParseRequest (buffer_of ''GET'') ((HttpContext_new [])\<lparr>ctx_state := kGotAll\<rparr>) Timestamp_Invalid")
      (auto simp: HttpContext_new_def)
qed

text \<open>
  C16. Segmentation makes no difference: if the parser ran on what had arrived and asked for more, then
  running it again when more text has arrived gives what one run on the whole text gives.
\<close>

theorem ParseRequest_segmentation:
  assumes "wf_buffer b" "ctx_ready ctx" "ParseRequest b ctx t = Some (Inr (True, b1, ctx1))" "\<not> GotAll ctx1"
    and "Append b1 later (length later) = Inr b2" "length later < 2 ^ 63"
    and "wf_buffer whole" "content whole = content b @ later"
  shows "\<exists>ok b2' whole' ctx'. ParseRequest b2 ctx1 t = Some (Inr (ok, b2', ctx'))
    \<and> ParseRequest whole ctx t = Some (Inr (ok, whole', ctx')) \<and> content b2' = content whole'"
proof -
  obtain ok0 rest0 ctx0 where p0: "parse_text t (content b) ctx = (ok0, rest0, ctx0)"
    by (cases "parse_text t (content b) ctx")
  from ParseRequest_refines [OF assms(1,2) p0] assms(3) have p: "parse_text t (content b) ctx = (True, content b1, ctx1)"
    "wf_buffer b1" using p0 by auto
  have ready1: "ctx_ready ctx1" using parse_text_post [OF assms(2) p(1)] assms(4) by (simp add: GotAll_def)
  have b2: "wf_buffer b2" "content b2 = content b1 @ later"
    using Append_outcome [OF p(2) order_refl assms(6)] assms(5) by auto
  obtain ok rest ctx' where q: "parse_text t (content b2) ctx1 = (ok, rest, ctx')"
    by (cases "parse_text t (content b2) ctx1")
  moreover have "parse_text t (content whole) ctx = (ok, rest, ctx')"
    using parse_text_append [OF assms(2) p(1), of later] assms(4,8) b2(2) q by (simp add: GotAll_def)
  ultimately show ?thesis
    using ParseRequest_refines [OF b2(1) ready1 q] ParseRequest_refines [OF assms(7,2)] by metis
qed

theorem ParseRequest_segmentation_witness:
  "\<exists>b1 b2 ok b2' whole' ctx'. ParseRequest (buffer_of ''GE'') (HttpContext_new []) Timestamp_Invalid = Some (Inr (True, b1, HttpContext_new []))
    \<and> Append b1 ''T'' 1 = Inr b2
    \<and> ParseRequest b2 (HttpContext_new []) Timestamp_Invalid = Some (Inr (ok, b2', ctx'))
    \<and> ParseRequest (buffer_of ''GET'') (HttpContext_new []) Timestamp_Invalid = Some (Inr (ok, whole', ctx')) \<and> content b2' = content whole'"
proof -
  let ?ctx = "HttpContext_new []"
  have w: "wf_buffer (buffer_of ''GE'')" "wf_buffer (buffer_of ''GET'')" by (rule wf_buffer_of, simp)+
  have "ParseRequest (buffer_of ''GE'') ?ctx Timestamp_Invalid = Some (Inr (True, buffer_of ''GE'', ?ctx))"
    using ParseRequest_body_idle [OF w(1), of ?ctx Timestamp_Invalid True]
    by (simp add: ParseRequest_def ParseRequest_loop.simps [of Timestamp_Invalid True True "buffer_of ''GE''"] ParseRequest_loop.simps [of Timestamp_Invalid True False])
  moreover obtain b2 where "Append (buffer_of ''GE'') ''T'' (length ''T'') = Inr b2"
    using Append_content [OF w(1), of 1 0 "''T''"] by (auto simp: room_def buffer_of_def buffer_const_defs)
  moreover have got: "\<not> GotAll ?ctx" by (simp add: GotAll_def HttpContext_new_def)
  ultimately show ?thesis using ParseRequest_segmentation [OF w(1) _ _ _ _ _ w(2), of ?ctx Timestamp_Invalid "buffer_of ''GE''" ?ctx "''T''" b2]
      got by auto
qed

text \<open>
  C13. Round trip: a request printed as request line, headers and empty line is parsed back to the
  same request, field by field, and what follows it stays in the buffer untouched.
\<close>

theorem ParseRequest_roundtrip:
  assumes "wf_buffer b" "printable rq" "content b = request_text rq @ rest"
  shows "\<exists>b' ctx'. ParseRequest b (HttpContext_new (rq_remote_addr rq)) (rq_receivetime rq) = Some (Inr (True, b', ctx'))
    \<and> GotAll ctx' \<and> ctx_request ctx' = rq \<and> wf_buffer b' \<and> content b' = rest"
  using ParseRequest_refines [OF assms(1) _ parse_request_text [OF assms(2) refl refl, of rest, folded assms(3)]]
  by (auto simp: GotAll_def)

definition sample_request :: http_request where
  "sample_request = \<lparr>rq_method = Method_kGet, rq_version = Version_kHttp11, rq_path = ''/a'', rq_query = ''?b'',
     rq_remote_addr = ''::1'', rq_receivetime = Timestamp_Invalid, rq_headers = [(''Host'', ''x'')]\<rparr>"

lemma printable_sample: "printable sample_request"
  by (simp add: printable_def sample_request_def std_map_def strip_def isspace_def)

theorem ParseRequest_roundtrip_witness:
  "\<exists>b' ctx'. ParseRequest (buffer_of (request_text sample_request @ ''GET'')) (HttpContext_new ''::1'') Timestamp_Invalid = Some (Inr (True, b', ctx'))
    \<and> ctx_request ctx' = sample_request \<and> content b' = ''GET''"
proof -
  have "length (request_text sample_request @ ''GET'') < 1000"
    by (simp add: request_text_def sample_request_def method_string_def version_string_def header_text_def)
  from ParseRequest_roundtrip [OF wf_buffer_of [OF this] printable_sample content_buffer_of] show ?thesis
    by (auto simp: sample_request_def)
qed

end
