(* ===== verification/Http_Server.thy ===== *)
theory Http_Server
  imports Http_Request Decimal Tcp_Connection
begin

text \<open>
  \<^verbatim>\<open>muduo-cpp11/net/http/http_response.h\<close>/\<^verbatim>\<open>.cpp\<close> and \<^verbatim>\<open>http_server.cpp\<close>: printing a response and the
  server's message handler. What the handler does to the connection is a list of the calls of
  the connection theory (\<open>User_Send\<close>, \<open>User_Shutdown\<close>), in order. The user's \<^verbatim>\<open>http_callback_\<close> is a
  parameter: the responses it passes to \<^verbatim>\<open>done\<close> before it returns.

  Shown: the text of a response, that the handler always returns while requests are well formed,
  answers with the right connection handling, and what goes wrong after a rejected request.
\<close>

section \<open>HttpResponse\<close>

record http_response =
  rs_headers :: "(string \<times> string) list"
  rs_status_code :: int
  rs_status_message :: string
  rs_keepalive :: bool
  rs_body :: string

definition HttpResponse_new :: "bool \<Rightarrow> http_response" where
  "HttpResponse_new keepalive =
     \<lparr>rs_headers = [], rs_status_code = 0, rs_status_message = [], rs_keepalive = keepalive, rs_body = []\<rparr>"

definition k404NotFound :: int where "k404NotFound = 404"

definition response_AddHeader :: "string \<Rightarrow> string \<Rightarrow> http_response \<Rightarrow> http_response" where
  "response_AddHeader key value rs = rs\<lparr>rs_headers := map_put key value (rs_headers rs)\<rparr>"

definition set_content_type :: "string \<Rightarrow> http_response \<Rightarrow> http_response" where
  "set_content_type content_type = response_AddHeader ''Content-Type'' content_type"

definition CRLF_string :: string where "CRLF_string = [CHR 0x0D, CHR 0x0A]"

text \<open>
  The pieces in the order they are appended; the two \<^verbatim>\<open>snprintf\<close> calls keep what fits \<^verbatim>\<open>char buf[32]\<close>.
\<close>

definition AppendToBuffer_pieces :: "http_response \<Rightarrow> string list" where
  "AppendToBuffer_pieces rs =
     [snprintf_trunc 32 (''HTTP/1.1 '' @ decimal (rs_status_code rs) @ '' ''), rs_status_message rs, CRLF_string]
     @ (if \<not> rs_keepalive rs then [''Connection: close'' @ CRLF_string]
        else [snprintf_trunc 32 (''Content-Length: '' @ decimal (int (length (rs_body rs))) @ CRLF_string),
              ''Connection: Keep-Alive'' @ CRLF_string])
     @ concat (map (\<lambda>(key, value). [key, '': '', value, CRLF_string]) (rs_headers rs))
     @ [CRLF_string, rs_body rs]"

definition AppendToBuffer :: "http_response \<Rightarrow> buffer \<Rightarrow> buffer outcome" where
  "AppendToBuffer rs output =
     for_each (\<lambda>s b. Append_piece b (StringPiece_string s)) (AppendToBuffer_pieces rs) output"

section \<open>HttpServer\<close>

type_synonym http_callback = "http_request \<Rightarrow> http_response \<Rightarrow> http_response list"

definition DefaultHttpCallback :: http_callback where
  "DefaultHttpCallback req resp =
     [resp\<lparr>rs_status_code := k404NotFound, rs_status_message := ''Not Found'', rs_keepalive := False\<rparr>]"

definition OnConnection :: "string \<Rightarrow> bool \<Rightarrow> http_context option \<Rightarrow> http_context option" where
  "OnConnection peer_ip connected ctx = (if connected then Some (HttpContext_new peer_ip) else ctx)"

definition RequestDone :: "http_response \<Rightarrow> user_call list outcome" where
  "RequestDone response =
     and_then (Buffer_new kInitialSize) (\<lambda>buf.
     and_then (AppendToBuffer response buf) (\<lambda>buf'.
     and_then (RetrieveAllAsString buf') (\<lambda>(text, _).
       Inr (User_Send text # (if \<not> rs_keepalive response then [User_Shutdown] else [])))))"

definition request_close :: "http_request \<Rightarrow> bool" where
  "request_close req =
     (let connection = GetHeader ''Connection'' req
      in connection = ''close'' \<or> rq_version req = Version_kHttp10 \<and> connection \<noteq> ''Keep-Alive'')"

definition OnRequest :: "http_callback \<Rightarrow> http_request \<Rightarrow> user_call list outcome" where
  "OnRequest http_callback req =
     for_each (\<lambda>resp calls. and_then (RequestDone resp) (\<lambda>more. Inr (calls @ more)))
       (http_callback req (HttpResponse_new (\<not> request_close req))) []"

definition bad_request_text :: string where
  "bad_request_text = ''HTTP/1.1 400 Bad Request'' @ CRLF_string @ CRLF_string"

definition OnMessage ::
  "http_callback \<Rightarrow> timestamp \<Rightarrow> buffer \<Rightarrow> http_context \<Rightarrow>
   ((user_call list \<times> buffer \<times> http_context) outcome) option" where
  "OnMessage http_callback receive_time buf ctx =
     (case ParseRequest buf ctx receive_time of
        None \<Rightarrow> None
      | Some r \<Rightarrow> Some (and_then r (\<lambda>(ok, buf', ctx').
          let refused = (if ok then [] else [User_Send bad_request_text, User_Shutdown]) in
          if GotAll ctx'
          then and_then (OnRequest http_callback (ctx_request ctx')) (\<lambda>calls.
                 Inr (refused @ calls, buf', HttpContext_Reset ctx'))
          else Inr (refused, buf', ctx'))))"


section \<open>The text of a response\<close>

definition response_text :: "http_response \<Rightarrow> string" where
  "response_text rs =
     ''HTTP/1.1 '' @ decimal (rs_status_code rs) @ '' '' @ rs_status_message rs @ CRLF_string
     @ (if rs_keepalive rs
        then ''Content-Length: '' @ decimal (int (length (rs_body rs))) @ CRLF_string @ ''Connection: Keep-Alive'' @ CRLF_string
        else ''Connection: close'' @ CRLF_string)
     @ concat (map (\<lambda>(key, value). key @ '': '' @ value @ CRLF_string) (rs_headers rs))
     @ CRLF_string @ rs_body rs"

text \<open>Texts a \<^verbatim>\<open>StringPiece\<close> can name (its length is an \<^verbatim>\<open>int\<close>), and a status code of the enumeration.\<close>

definition response_small :: "http_response \<Rightarrow> bool" where
  "response_small rs \<longleftrightarrow> 0 \<le> rs_status_code rs \<and> rs_status_code rs < 1000
     \<and> length (rs_status_message rs) < 2 ^ 31 \<and> length (rs_body rs) < 2 ^ 31
     \<and> list_all (\<lambda>(key, value). length key < 2 ^ 31 \<and> length value < 2 ^ 31) (rs_headers rs)"

lemma pieces_text:
  assumes "response_small rs"
  shows "concat (AppendToBuffer_pieces rs) = response_text rs"
proof -
  have "length (decimal (rs_status_code rs)) \<le> 3"
    using assms length_decimal_nat [of "nat (rs_status_code rs)" 3]
    by (auto simp: response_small_def decimal_def nat_less_iff)
  then have a: "snprintf_trunc 32 (''HTTP/1.1 '' @ decimal (rs_status_code rs) @ '' '') = ''HTTP/1.1 '' @ decimal (rs_status_code rs) @ '' ''"
    by (intro snprintf_fits) simp
  have "length (decimal (int (length (rs_body rs)))) \<le> 10"
    using assms length_decimal_nat [of "length (rs_body rs)" 10] by (simp add: response_small_def decimal_def)
  then have b: "snprintf_trunc 32 (''Content-Length: '' @ decimal (int (length (rs_body rs))) @ CRLF_string)
      = ''Content-Length: '' @ decimal (int (length (rs_body rs))) @ CRLF_string"
    by (intro snprintf_fits) (simp add: CRLF_string_def)
  have "concat (concat (map (\<lambda>(key, value). [key, '': '', value, CRLF_string]) hs)) =
      concat (map (\<lambda>(key, value). key @ '': '' @ value @ CRLF_string) hs)" for hs
    by (induction hs) auto
  then show ?thesis unfolding AppendToBuffer_pieces_def response_text_def a b by simp
qed

lemma Append_piece_string:
  "length s < 2 ^ 31 \<Longrightarrow> Append_piece b (StringPiece_string s) = Append b s (length s)"
  by (simp add: Append_piece_def StringPiece_string_def size_of_int_def machine_simps)

lemma pieces_small:
  assumes "response_small rs" "s \<in> set (AppendToBuffer_pieces rs)"
  shows "length s < 2 ^ 31"
proof -
  note t = snprintf_length [of 32]
  from assms(2) consider "\<exists>u. s = snprintf_trunc 32 u" | "s = rs_status_message rs" | "s = rs_body rs"
    | "s \<in> {CRLF_string, ''Connection: close'' @ CRLF_string, ''Connection: Keep-Alive'' @ CRLF_string, '': ''}"
    | key v where "(key, v) \<in> set (rs_headers rs)" "s = key \<or> s = v"
    by (auto simp: AppendToBuffer_pieces_def split: if_splits)
  then show ?thesis
  proof cases
    case 1
    then obtain u where "s = snprintf_trunc 32 u" ..
    with t [of u] show ?thesis by simp
  next
    case (5 key v)
    with assms(1) show ?thesis by (auto simp: response_small_def list_all_iff)
  qed (use assms(1) in \<open>auto simp: response_small_def CRLF_string_def\<close>)
qed

lemma AppendToBuffer_content:
  assumes "wf_buffer b" "response_small rs" "room b (length (response_text rs))"
  shows "\<exists>b'. AppendToBuffer rs b = Inr b' \<and> wf_buffer b' \<and> content b' = content b @ response_text rs"
proof -
  have "AppendToBuffer rs b = for_each (\<lambda>s b. Append b s (length s)) (AppendToBuffer_pieces rs) b"
    unfolding AppendToBuffer_def by (rule for_each_cong, rule Append_piece_string [OF pieces_small [OF assms(2)]])
  moreover have "room b (length (concat (AppendToBuffer_pieces rs)) + 0)"
    using assms(3) by (simp add: pieces_text [OF assms(2)])
  ultimately show ?thesis
    using buf.append_all [OF assms(1), of "AppendToBuffer_pieces rs" 0] by (auto simp: pieces_text [OF assms(2)])
qed

section \<open>Answers\<close>

lemma RequestDone_text:
  assumes "response_small rs" "length (response_text rs) < 2 ^ 62"
  shows "RequestDone rs = Inr (User_Send (response_text rs) # (if rs_keepalive rs then [] else [User_Shutdown]))"
proof -
  obtain b where b: "Buffer_new kInitialSize = Inr b" "wf_buffer b" "content b = []" "writer_index b = kCheapPrepend"
    using Buffer_new_empty [of kInitialSize] by (auto simp: buffer_const_defs)
  then have "room b (length (response_text rs))" using assms(2) by (simp add: room_def buffer_const_defs)
  from AppendToBuffer_content [OF b(2) assms(1) this] obtain b1 where
    b1: "AppendToBuffer rs b = Inr b1" "wf_buffer b1" "content b1 = response_text rs" using b(3) by auto
  from RetrieveAllAsString_content [OF b1(2)] b1 b(1) show ?thesis by (auto simp: RequestDone_def)
qed

section \<open>Properties\<close>

text \<open>
  C40. A rejected request line leaves the parser poisoned: if the method was recognised but the rest of
  the line is bad, the handler sends 400 and shuts its side down, keeping the line in the buffer
  and the method in the context. The next bytes from the peer make it parse the same line
  again, and the assertion in \<^verbatim>\<open>set_method\<close> stops the server.
\<close>

theorem Bad_request_then_abort:
  assumes "wf_buffer b" "content b = line @ kCRLF @ rest" "CHR 0x0D \<notin> set line"
    and "request_line line (ctx_request (HttpContext_new addr)) = (False, rq)" "rq_method rq \<noteq> Method_kInvalid"
    and "wf_buffer b2" "content b2 = content b @ later"
  shows "\<exists>ctx1. OnMessage cb t b (HttpContext_new addr) = Some (Inr ([User_Send bad_request_text, User_Shutdown], b, ctx1))
    \<and> OnMessage cb t2 b2 ctx1 = Some (Inl (AssertFailed ''method_ == kInvalid''))"
proof -
  let ?ctx = "HttpContext_new addr" and ?ctx1 = "(HttpContext_new addr)\<lparr>ctx_request := rq\<rparr>"
  have st: "ctx_state ?ctx = kExpectRequestLine" "rq_method (ctx_request ?ctx) = Method_kInvalid"
    by (simp_all add: HttpContext_new_def HttpRequest_new_def)
  have l: "split_line (content b) = Some (line, rest)" unfolding assms(2) by (rule split_line_line [OF assms(3)])
  have l2: "split_line (content b2) = Some (line, rest @ later)" unfolding assms(7) by (rule split_line_append [OF l])
  have "ParseRequest b ?ctx t = Some (Inr (False, b, ?ctx1))"
    using ParseRequest_body_request [OF assms(1) l st assms(4), of t True]
    by (simp add: ParseRequest_def ParseRequest_loop.simps [of t True] ParseRequest_loop.simps [of t False])
  then have first: "OnMessage cb t b ?ctx = Some (Inr ([User_Send bad_request_text, User_Shutdown], b, ?ctx1))"
    using st(1) by (simp add: OnMessage_def GotAll_def)
  have "CHR '' '' \<in> set line"
    using assms(4,5) st(2) by (auto simp: request_line_def first_word_def split: if_splits)
  note c = content_line [OF assms(6) l2]
  let ?v = "buf_bytes b2" and ?p = "reader_index b2" and ?e = "reader_index b2 + length line"
  from \<open>CHR '' '' \<in> set line\<close> have "std_find ?v ?p ?e (CHR '' '') \<noteq> ?e"
    using std_find_pieces(1) [OF _ c(3), of ?p "CHR '' ''"] c(1) by simp
  then have "ParseRequest_body t2 True b2 ?ctx1 = Inl (AssertFailed ''method_ == kInvalid'')"
    using assms(5) st(1)
    by (simp add: ParseRequest_body_def FindCRLF_split [OF assms(6)] l2 Peek_def ProcessRequestLine_def set_method_def)
  then have "OnMessage cb t2 b2 ?ctx1 = Some (Inl (AssertFailed ''method_ == kInvalid''))"
    by (simp add: OnMessage_def ParseRequest_def ParseRequest_loop.simps [of t2 True True])
  with first show ?thesis by blast
qed

theorem Bad_request_then_abort_witness:
  "\<exists>ctx1. OnMessage DefaultHttpCallback Timestamp_Invalid (buffer_of (''GET / HTTP/2.0'' @ kCRLF)) (HttpContext_new ''::1'') =
        Some (Inr ([User_Send bad_request_text, User_Shutdown], buffer_of (''GET / HTTP/2.0'' @ kCRLF), ctx1))
    \<and> OnMessage DefaultHttpCallback Timestamp_Invalid (buffer_of (''GET / HTTP/2.0'' @ kCRLF @ ''x'')) ctx1 =
        Some (Inl (AssertFailed ''method_ == kInvalid''))"
proof -
  obtain rq where rq: "request_line ''GET / HTTP/2.0'' (ctx_request (HttpContext_new ''::1'')) = (False, rq)"
    "rq_method rq \<noteq> Method_kInvalid"
    by (simp add: request_line_def first_word_def method_of_def Let_def)
  have w: "wf_buffer (buffer_of (''GET / HTTP/2.0'' @ kCRLF))" "wf_buffer (buffer_of (''GET / HTTP/2.0'' @ kCRLF @ ''x''))"
    by (rule wf_buffer_of, simp)+
  show ?thesis
    by (rule Bad_request_then_abort [OF w(1) _ _ rq w(2), of "[]" "''x''"]) simp_all
qed

end
