(* ===== verification/Thread_Pool.thy ===== *)
theory Thread_Pool
  imports Muduo_Prelude
begin

text \<open>
  \<^verbatim>\<open>muduo-cpp11/base/blocking_queue.h\<close> and \<^verbatim>\<open>thread_pool.h\<close>/\<^verbatim>\<open>.cpp\<close>: queues guarded by a mutex with
  condition variables. A critical section is one step; a thread is the place where it will run next.
  \<^verbatim>\<open>wait\<close> gives the mutex up and parks the thread, \<^verbatim>\<open>notify_one\<close> sends one parked thread back to its
  check, and a parked thread may also wake up by itself, as the C++ standard allows.

  Shown for every interleaving: elements leave in the order they came and none is lost, the pool's
  queue never exceeds its bound, and nobody stays parked while there is something for it that
  no woken thread will pick up. Also shown: a caller of \<^verbatim>\<open>Run\<close> can stay blocked for ever after
  \<^verbatim>\<open>Stop\<close>.
\<close>

section \<open>Condition variables\<close>

definition num :: "('p \<Rightarrow> bool) \<Rightarrow> 'p list \<Rightarrow> nat" where
  "num P ps = length (filter P ps)"

text \<open>\<^verbatim>\<open>notify_one\<close>: \<open>choice\<close> is the scheduler's pick among the parked threads.\<close>

definition notify_one :: "('p \<Rightarrow> bool) \<Rightarrow> ('p \<Rightarrow> 'p) \<Rightarrow> nat \<Rightarrow> 'p list \<Rightarrow> 'p list" where
  "notify_one parked wake choice ps =
     (let ids = filter (\<lambda>i. parked (ps ! i)) [0..<length ps]
      in if ids = [] then ps
         else let i = ids ! (choice mod length ids) in ps[i := wake (ps ! i)])"

definition notify_all :: "('p \<Rightarrow> bool) \<Rightarrow> ('p \<Rightarrow> 'p) \<Rightarrow> 'p list \<Rightarrow> 'p list" where
  "notify_all parked wake ps = map (\<lambda>p. if parked p then wake p else p) ps"

lemma num_update:
  "i < length ps \<Longrightarrow> num P (ps[i := p]) + (if P (ps ! i) then 1 else 0) = num P ps + (if P p then 1 else 0)"
proof (induction ps arbitrary: i)
  case (Cons q ps)
  then show ?case by (cases i) (auto simp: num_def split: if_splits)
qed simp

lemma num_zero_iff: "num P ps = 0 \<longleftrightarrow> (\<forall>p \<in> set ps. \<not> P p)"
  by (simp add: num_def filter_empty_conv)

lemma notify_one_cases:
  obtains (nobody) "num parked ps = 0" "notify_one parked wake c ps = ps"
  | (one) i where "i < length ps" "parked (ps ! i)" "notify_one parked wake c ps = ps[i := wake (ps ! i)]"
proof -
  let ?ids = "filter (\<lambda>i. parked (ps ! i)) [0..<length ps]"
  show thesis
  proof (cases "?ids = []")
    case True
    then have "\<forall>p \<in> set ps. \<not> parked p" by (auto simp: filter_empty_conv in_set_conv_nth)
    with True show thesis using nobody by (simp add: num_zero_iff notify_one_def)
  next
    case False
    then have "?ids ! (c mod length ?ids) \<in> set ?ids" by (intro nth_mem) simp
    with False one show thesis by (auto simp: notify_one_def Let_def)
  qed
qed

text \<open>
  The contract of a condition variable for its clients: a notification sends one parked thread to
  its check if there is one, and touches nobody else.
\<close>

locale condition_variable =
  fixes parked :: "'p \<Rightarrow> bool" and ready :: "'p \<Rightarrow> bool" and wake :: "'p \<Rightarrow> 'p"
  assumes wake_ready: "parked p \<Longrightarrow> ready (wake p)"
    and wake_unparked: "parked p \<Longrightarrow> \<not> parked (wake p)"
    and parked_not_ready: "parked p \<Longrightarrow> \<not> ready p"
begin

lemma notify_one_counts:
  "num ready (notify_one parked wake c ps) = num ready ps + (if num parked ps = 0 then 0 else 1)
   \<and> num parked (notify_one parked wake c ps) + (if num parked ps = 0 then 0 else 1) = num parked ps"
proof (cases rule: notify_one_cases [where parked = parked and ps = ps and wake = wake and c = c])
  case (one i)
  then have "num parked ps \<noteq> 0" by (auto simp: num_zero_iff)
  with one wake_ready wake_unparked parked_not_ready num_update [OF one(1), of ready "wake (ps ! i)"]
    num_update [OF one(1), of parked "wake (ps ! i)"]
  show ?thesis by simp
qed simp

lemma notify_all_counts: "num parked (notify_all parked wake ps) = 0"
  by (auto simp: num_zero_iff notify_all_def wake_unparked)

text \<open>What is there for a parked thread is covered by the threads on their way to the check.\<close>

definition covered :: "nat \<Rightarrow> 'p list \<Rightarrow> bool" where
  "covered available ps \<longleftrightarrow> num parked ps > 0 \<longrightarrow> available \<le> num ready ps"

lemma covered_notify: "covered n ps \<Longrightarrow> covered (Suc n) (notify_one parked wake c ps)"
  using notify_one_counts [of c ps] by (auto simp: covered_def split: if_splits)

lemma covered_all: "covered n (notify_all parked wake ps)"
  by (simp add: covered_def notify_all_counts)

lemma covered_ready:
  "covered n ps \<Longrightarrow> i < length ps \<Longrightarrow> \<not> ready (ps ! i) \<Longrightarrow> ready p \<Longrightarrow> \<not> parked p \<Longrightarrow> covered n (ps[i := p])"
  using num_update [of i ps ready p] num_update [of i ps parked p] by (auto simp: covered_def split: if_splits)

lemma covered_leave:
  "covered (Suc n) ps \<Longrightarrow> i < length ps \<Longrightarrow> ready (ps ! i) \<Longrightarrow> \<not> parked p \<Longrightarrow> covered n (ps[i := p])"
  using num_update [of i ps ready p] num_update [of i ps parked p] by (auto simp: covered_def split: if_splits)

lemma covered_park: "covered 0 ps"
  by (simp add: covered_def)

end

section \<open>BlockingQueue\<close>

datatype taker = Taker_away | Taker_checking | Taker_waiting

record 'a blocking_queue =
  bq_queue :: "'a list"
  bq_takers :: "taker list"
  bq_put :: "'a list"
  bq_taken :: "'a list"

definition BlockingQueue_new :: "nat \<Rightarrow> 'a blocking_queue" where
  "BlockingQueue_new n = \<lparr>bq_queue = [], bq_takers = replicate n Taker_away, bq_put = [], bq_taken = []\<rparr>"

definition Put :: "nat \<Rightarrow> 'a \<Rightarrow> 'a blocking_queue \<Rightarrow> 'a blocking_queue" where
  "Put choice x q = q\<lparr>bq_queue := bq_queue q @ [x],
     bq_takers := notify_one (\<lambda>p. p = Taker_waiting) (\<lambda>_. Taker_checking) choice (bq_takers q),
     bq_put := bq_put q @ [x]\<rparr>"

text \<open>One pass of thread \<open>i\<close> through the loop of \<^verbatim>\<open>Take\<close>, and what follows when it ends.\<close>

definition Take_check :: "nat \<Rightarrow> 'a blocking_queue \<Rightarrow> 'a blocking_queue outcome" where
  "Take_check i q =
     (if bq_queue q = [] then Inr (q\<lparr>bq_takers := (bq_takers q)[i := Taker_waiting]\<rparr>)
      else asserting (bq_queue q \<noteq> []) ''!queue_.empty()''
        (Inr (q\<lparr>bq_queue := tl (bq_queue q), bq_takers := (bq_takers q)[i := Taker_away],
                bq_taken := bq_taken q @ [hd (bq_queue q)]\<rparr>)))"

definition bq_Size :: "'a blocking_queue \<Rightarrow> nat" where
  "bq_Size q = length (bq_queue q)"

inductive bq_run :: "nat \<Rightarrow> 'a blocking_queue outcome \<Rightarrow> bool" for n where
  bq_start: "bq_run n (Inr (BlockingQueue_new n))"
| bq_put_step: "bq_run n (Inr q) \<Longrightarrow> bq_run n (Inr (Put choice x q))"
| bq_take_call: "bq_run n (Inr q) \<Longrightarrow> i < length (bq_takers q) \<Longrightarrow> bq_takers q ! i = Taker_away \<Longrightarrow>
    bq_run n (Inr (q\<lparr>bq_takers := (bq_takers q)[i := Taker_checking]\<rparr>))"
| bq_spurious: "bq_run n (Inr q) \<Longrightarrow> i < length (bq_takers q) \<Longrightarrow> bq_takers q ! i = Taker_waiting \<Longrightarrow>
    bq_run n (Inr (q\<lparr>bq_takers := (bq_takers q)[i := Taker_checking]\<rparr>))"
| bq_check: "bq_run n (Inr q) \<Longrightarrow> i < length (bq_takers q) \<Longrightarrow> bq_takers q ! i = Taker_checking \<Longrightarrow>
    bq_run n (Take_check i q)"

definition bq_inv :: "'a blocking_queue \<Rightarrow> bool" where
  "bq_inv q \<longleftrightarrow> bq_taken q @ bq_queue q = bq_put q
     \<and> (num (\<lambda>p. p = Taker_waiting) (bq_takers q) > 0 \<longrightarrow>
          length (bq_queue q) \<le> num (\<lambda>p. p = Taker_checking) (bq_takers q))"

interpretation takers: condition_variable "\<lambda>p. p = Taker_waiting" "\<lambda>p. p = Taker_checking" "\<lambda>_. Taker_checking"
  by unfold_locales simp_all

lemma bq_inv_covered:
  "bq_inv q \<longleftrightarrow> bq_taken q @ bq_queue q = bq_put q \<and> takers.covered (length (bq_queue q)) (bq_takers q)"
  by (simp add: bq_inv_def takers.covered_def)

lemma Put_inv: "bq_inv q \<Longrightarrow> bq_inv (Put c x q)"
  by (auto simp: bq_inv_covered Put_def intro: takers.covered_notify)

lemma Take_check_inv:
  assumes "bq_inv q" "i < length (bq_takers q)" "bq_takers q ! i = Taker_checking"
  shows "\<exists>q'. Take_check i q = Inr q' \<and> bq_inv q'"
  using assms by (cases "bq_queue q")
    (auto simp: bq_inv_covered Take_check_def intro: takers.covered_park takers.covered_leave)

lemma taker_moves_inv:
  assumes "bq_inv q" "i < length (bq_takers q)" "bq_takers q ! i \<noteq> Taker_checking"
  shows "bq_inv (q\<lparr>bq_takers := (bq_takers q)[i := Taker_checking]\<rparr>)"
  using assms by (auto simp: bq_inv_covered intro: takers.covered_ready)

lemma bq_run_inv: "bq_run n r \<Longrightarrow> \<exists>q. r = Inr q \<and> bq_inv q"
proof (induction rule: bq_run.induct)
  case bq_start
  show ?case by (auto simp: bq_inv_def BlockingQueue_new_def num_def)
qed (auto simp: Put_inv taker_moves_inv Take_check_inv)


section \<open>ThreadPool\<close>

datatype 'a worker = Worker_loop | Worker_take | Worker_waiting | Worker_run 'a | Worker_done

datatype 'a producer = Producer_away | Producer_checking 'a | Producer_waiting 'a

record 'a thread_pool =
  tp_queue :: "'a list"
  tp_max :: nat
  tp_running :: bool
  tp_workers :: "'a worker list"
  tp_producers :: "'a producer list"
  tp_accepted :: "'a list"
  tp_taken :: "'a list"

definition ThreadPool_new :: "nat \<Rightarrow> 'a thread_pool" where
  "ThreadPool_new callers = \<lparr>tp_queue = [], tp_max = 0, tp_running = False, tp_workers = [],
     tp_producers = replicate callers Producer_away, tp_accepted = [], tp_taken = []\<rparr>"

definition set_max_queue_size :: "int \<Rightarrow> 'a thread_pool \<Rightarrow> 'a thread_pool" where
  "set_max_queue_size max_size p = p\<lparr>tp_max := size_of_int max_size\<rparr>"

definition ThreadPool_Start :: "int \<Rightarrow> 'a thread_pool \<Rightarrow> 'a thread_pool outcome" where
  "ThreadPool_Start num_threads p =
     asserting (\<not> tp_running p \<and> tp_max p > 0) ''!running_ && max_queue_size_ > 0''
     (if tp_running p \<or> tp_max p \<le> 0 then Inr p
      else asserting (tp_workers p = []) ''threads_.empty()''
        (if num_threads < 0 then Inl LengthError
         else Inr (p\<lparr>tp_running := True, tp_workers := replicate (nat num_threads) Worker_loop\<rparr>)))"

definition IsFull :: "'a thread_pool \<Rightarrow> bool" where
  "IsFull p \<longleftrightarrow> tp_max p > 0 \<and> tp_max p \<le> length (tp_queue p)"

abbreviation worker_parked :: "'a worker \<Rightarrow> bool" where "worker_parked w \<equiv> w = Worker_waiting"

abbreviation worker_ready :: "'a worker \<Rightarrow> bool" where "worker_ready w \<equiv> w = Worker_take"

fun producer_parked :: "'a producer \<Rightarrow> bool" where
  "producer_parked (Producer_waiting _) = True"
| "producer_parked _ = False"

fun producer_ready :: "'a producer \<Rightarrow> bool" where
  "producer_ready (Producer_checking _) = True"
| "producer_ready _ = False"

fun producer_wake :: "'a producer \<Rightarrow> 'a producer" where
  "producer_wake (Producer_waiting task) = Producer_checking task"
| "producer_wake q = q"

text \<open>
  \<^verbatim>\<open>Run\<close> up to the lock, and one pass through its locked part (by caller \<open>i\<close>).
\<close>

definition Run_enter :: "nat \<Rightarrow> 'a \<Rightarrow> 'a thread_pool \<Rightarrow> 'a thread_pool outcome" where
  "Run_enter i task p =
     asserting (tp_running p) ''running_''
     (if \<not> tp_running p then Inr p
      else if tp_workers p = [] then Inr (p\<lparr>tp_accepted := tp_accepted p @ [task], tp_taken := tp_taken p @ [task]\<rparr>)
      else Inr (p\<lparr>tp_producers := (tp_producers p)[i := Producer_checking task]\<rparr>))"

definition Run_check :: "nat \<Rightarrow> nat \<Rightarrow> 'a \<Rightarrow> 'a thread_pool \<Rightarrow> 'a thread_pool outcome" where
  "Run_check choice i task p =
     (if IsFull p then Inr (p\<lparr>tp_producers := (tp_producers p)[i := Producer_waiting task]\<rparr>)
      else asserting (\<not> IsFull p) ''!IsFull()''
        (Inr (p\<lparr>tp_queue := tp_queue p @ [task], tp_accepted := tp_accepted p @ [task],
                tp_workers := notify_one worker_parked (\<lambda>_. Worker_take) choice (tp_workers p),
                tp_producers := (tp_producers p)[i := Producer_away]\<rparr>)))"

text \<open>One pass through \<^verbatim>\<open>Take\<close> by worker \<open>i\<close>, with its caller's test of the task.\<close>

definition Take_pass :: "nat \<Rightarrow> nat \<Rightarrow> 'a thread_pool \<Rightarrow> 'a thread_pool" where
  "Take_pass choice i p =
     (if tp_queue p = [] \<and> tp_running p then p\<lparr>tp_workers := (tp_workers p)[i := Worker_waiting]\<rparr>
      else if tp_queue p \<noteq> []
      then p\<lparr>tp_queue := tl (tp_queue p), tp_taken := tp_taken p @ [hd (tp_queue p)],
             tp_workers := (tp_workers p)[i := Worker_run (hd (tp_queue p))],
             tp_producers := (if tp_max p > 0 then notify_one producer_parked producer_wake choice (tp_producers p)
                              else tp_producers p)\<rparr>
      else p\<lparr>tp_workers := (tp_workers p)[i := Worker_loop]\<rparr>)"

definition RunInThread_check :: "nat \<Rightarrow> 'a thread_pool \<Rightarrow> 'a thread_pool" where
  "RunInThread_check i p =
     p\<lparr>tp_workers := (tp_workers p)[i := if tp_running p then Worker_take else Worker_done]\<rparr>"

definition Stop_notify :: "'a thread_pool \<Rightarrow> 'a thread_pool" where
  "Stop_notify p = p\<lparr>tp_running := False,
     tp_workers := notify_all worker_parked (\<lambda>_. Worker_take) (tp_workers p)\<rparr>"

text \<open>The steps of the threads: callers of \<^verbatim>\<open>Run\<close> (while the pool runs), workers, \<^verbatim>\<open>Stop\<close>.\<close>

inductive tp_step :: "'a thread_pool \<Rightarrow> 'a thread_pool outcome \<Rightarrow> bool" where
  run_call: "i < length (tp_producers p) \<Longrightarrow> tp_producers p ! i = Producer_away \<Longrightarrow> tp_running p \<Longrightarrow>
    tp_step p (Run_enter i task p)"
| run_check: "i < length (tp_producers p) \<Longrightarrow> tp_producers p ! i = Producer_checking task \<Longrightarrow>
    tp_step p (Run_check choice i task p)"
| run_spurious: "i < length (tp_producers p) \<Longrightarrow> tp_producers p ! i = Producer_waiting task \<Longrightarrow>
    tp_step p (Inr (p\<lparr>tp_producers := (tp_producers p)[i := Producer_checking task]\<rparr>))"
| work_check: "i < length (tp_workers p) \<Longrightarrow> tp_workers p ! i = Worker_loop \<Longrightarrow> tp_step p (Inr (RunInThread_check i p))"
| work_take: "i < length (tp_workers p) \<Longrightarrow> tp_workers p ! i = Worker_take \<Longrightarrow> tp_step p (Inr (Take_pass choice i p))"
| work_ran: "i < length (tp_workers p) \<Longrightarrow> tp_workers p ! i = Worker_run task \<Longrightarrow>
    tp_step p (Inr (p\<lparr>tp_workers := (tp_workers p)[i := Worker_loop]\<rparr>))"
| work_spurious: "i < length (tp_workers p) \<Longrightarrow> tp_workers p ! i = Worker_waiting \<Longrightarrow>
    tp_step p (Inr (p\<lparr>tp_workers := (tp_workers p)[i := Worker_take]\<rparr>))"
| stop: "tp_step p (Inr (Stop_notify p))"

inductive tp_run :: "'a thread_pool outcome \<Rightarrow> bool" where
  tp_start: "0 \<le> num_threads \<Longrightarrow> 0 < max_size \<Longrightarrow> max_size < 2 ^ 31 \<Longrightarrow>
    tp_run (ThreadPool_Start num_threads (set_max_queue_size max_size (ThreadPool_new callers)))"
| tp_next: "tp_run (Inr p) \<Longrightarrow> tp_step p r \<Longrightarrow> tp_run r"

interpretation workers: condition_variable "worker_parked :: 'a worker \<Rightarrow> bool" worker_ready "\<lambda>_. Worker_take"
  by unfold_locales simp_all

interpretation producers: condition_variable "producer_parked :: 'a producer \<Rightarrow> bool" producer_ready producer_wake
proof
  fix p :: "'a producer"
  show "producer_parked p \<Longrightarrow> producer_ready (producer_wake p)" by (cases p) simp_all
  show "producer_parked p \<Longrightarrow> \<not> producer_parked (producer_wake p)" by (cases p) simp_all
  show "producer_parked p \<Longrightarrow> \<not> producer_ready p" by (cases p) simp_all
qed

definition tp_inv :: "'a thread_pool \<Rightarrow> bool" where
  "tp_inv p \<longleftrightarrow> tp_taken p @ tp_queue p = tp_accepted p \<and> 0 < tp_max p \<and> length (tp_queue p) \<le> tp_max p
     \<and> workers.covered (length (tp_queue p)) (tp_workers p)
     \<and> producers.covered (tp_max p - length (tp_queue p)) (tp_producers p)
     \<and> (tp_workers p = [] \<longrightarrow> tp_queue p = [] \<and> set (tp_producers p) \<subseteq> {Producer_away})"

lemma length_notify_one [simp]: "length (notify_one parked wake c ps) = length ps"
  by (cases rule: notify_one_cases [where parked = parked and ps = ps and wake = wake and c = c]) simp_all

lemma Run_enter_inv:
  assumes "tp_inv p" "i < length (tp_producers p)" "tp_producers p ! i = Producer_away" "tp_running p"
  shows "\<exists>p'. Run_enter i task p = Inr p' \<and> tp_inv p'"
  using assms by (auto simp: Run_enter_def tp_inv_def intro: producers.covered_ready)

lemma Run_check_inv:
  assumes "tp_inv p" "i < length (tp_producers p)" "tp_producers p ! i = Producer_checking task"
  shows "\<exists>p'. Run_check c i task p = Inr p' \<and> tp_inv p'"
proof -
  have w: "tp_workers p \<noteq> []" using assms nth_mem [OF assms(2)] by (auto simp: tp_inv_def)
  then have w': "notify_one worker_parked (\<lambda>_. Worker_take) c (tp_workers p) \<noteq> []"
    by (metis length_notify_one length_0_conv)
  show ?thesis
  proof (cases "IsFull p")
    case True
    then have "tp_max p - length (tp_queue p) = 0" by (simp add: IsFull_def)
    with True assms w show ?thesis by (auto simp: Run_check_def tp_inv_def intro: producers.covered_park)
  next
    case False
    then obtain m where "tp_max p - length (tp_queue p) = Suc m" "tp_max p - Suc (length (tp_queue p)) = m"
      "length (tp_queue p) < tp_max p"
      using assms(1) by (cases "tp_max p - length (tp_queue p)") (auto simp: IsFull_def tp_inv_def)
    with False assms w' show ?thesis
      by (auto simp: Run_check_def tp_inv_def intro: producers.covered_leave workers.covered_notify)
  qed
qed

lemma producer_wake_not_away: "producer_parked q \<Longrightarrow> producer_wake q \<noteq> Producer_away"
  by (cases q) simp_all

lemma Take_pass_inv:
  assumes "tp_inv p" "i < length (tp_workers p)" "tp_workers p ! i = Worker_take"
  shows "tp_inv (Take_pass c i p)"
proof (cases "tp_queue p")
  case Nil
  with assms show ?thesis by (auto simp: Take_pass_def tp_inv_def intro: workers.covered_park)
next
  case (Cons task rest)
  have "Suc (tp_max p - Suc (length rest)) = tp_max p - length rest" using assms(1) Cons by (simp add: tp_inv_def Suc_diff_Suc Suc_le_eq)
  then have "producers.covered (tp_max p - length rest) (notify_one producer_parked producer_wake c (tp_producers p))"
    using assms(1) Cons producers.covered_notify [of "tp_max p - Suc (length rest)" "tp_producers p" c] by (simp add: tp_inv_def)
  moreover have "workers.covered (length rest) ((tp_workers p)[i := Worker_run task])"
    using assms Cons by (intro workers.covered_leave) (auto simp: tp_inv_def)
  ultimately show ?thesis using assms(1) Cons by (simp add: Take_pass_def tp_inv_def)
qed

lemma worker_moves_inv:
  assumes "tp_inv p" "i < length (tp_workers p)" "\<not> worker_ready (tp_workers p ! i)" "\<not> worker_parked w"
    and "worker_ready w \<or> \<not> worker_parked (tp_workers p ! i)"
  shows "tp_inv (p\<lparr>tp_workers := (tp_workers p)[i := w]\<rparr>)"
  using assms num_update [OF assms(2), of worker_ready w] num_update [OF assms(2), of worker_parked w]
  by (auto simp: tp_inv_def workers.covered_def split: if_splits)

lemma producer_moves_inv:
  assumes "tp_inv p" "i < length (tp_producers p)" "tp_producers p ! i = Producer_waiting task"
  shows "tp_inv (p\<lparr>tp_producers := (tp_producers p)[i := Producer_checking task]\<rparr>)"
proof -
  have "tp_workers p \<noteq> []" using assms nth_mem [OF assms(2)] by (auto simp: tp_inv_def)
  with assms show ?thesis by (auto simp: tp_inv_def intro: producers.covered_ready)
qed

lemma tp_step_inv: "tp_step p r \<Longrightarrow> tp_inv p \<Longrightarrow> \<exists>p'. r = Inr p' \<and> tp_inv p'"
proof (induction rule: tp_step.induct)
  case (stop p)
  then show ?case by (simp add: Stop_notify_def tp_inv_def workers.covered_all) (simp add: notify_all_def)
qed (simp_all add: Run_enter_inv Run_check_inv Take_pass_inv worker_moves_inv producer_moves_inv RunInThread_check_def)

lemma tp_run_inv: "tp_run r \<Longrightarrow> \<exists>p. r = Inr p \<and> tp_inv p"
proof (induction rule: tp_run.induct)
  case (tp_start n k callers)
  then have "size_of_int k = nat k" by (simp add: size_of_int_def)
  then show ?case using tp_start
    by (auto simp: num_def filter_replicate ThreadPool_Start_def set_max_queue_size_def ThreadPool_new_def tp_inv_def workers.covered_def producers.covered_def)
next
  case (tp_next p r)
  then show ?case using tp_step_inv by blast
qed


section \<open>Properties\<close>

text \<open>
  C30. In every interleaving of callers of \<^verbatim>\<open>Put\<close> and \<^verbatim>\<open>Take\<close>, the elements taken so far followed by
  those in the queue are the elements put, in order: none is lost, duplicated or overtaken. And no
  wakeup is lost: while a thread is parked in \<^verbatim>\<open>Take\<close>, every element in the queue has a woken
  thread on its way to it.
\<close>

theorem BlockingQueue_fifo_no_lost_wakeup:
  assumes "bq_run n r"
  shows "\<exists>q. r = Inr q \<and> bq_taken q @ bq_queue q = bq_put q
    \<and> (num (\<lambda>p. p = Taker_waiting) (bq_takers q) > 0 \<longrightarrow>
         length (bq_queue q) \<le> num (\<lambda>p. p = Taker_checking) (bq_takers q))"
  using bq_run_inv [OF assms] by (auto simp: bq_inv_def)

theorem BlockingQueue_fifo_no_lost_wakeup_witness:
  "\<exists>q. bq_run 2 (Inr q) \<and> bq_queue q = [7 :: nat] \<and> bq_takers q = [Taker_checking, Taker_away]
    \<and> bq_taken q @ bq_queue q = bq_put q"
proof -
  let ?q1 = "\<lparr>bq_queue = [], bq_takers = [Taker_checking, Taker_away], bq_put = [], bq_taken = []\<rparr> :: nat blocking_queue"
  let ?q2 = "?q1\<lparr>bq_takers := [Taker_waiting, Taker_away]\<rparr>"
  have "bq_run 2 (Inr ?q1)"
    using bq_run.bq_take_call [OF bq_run.bq_start, where n = 2 and i = 0]
    by (simp add: BlockingQueue_new_def numeral_2_eq_2)
  then have "bq_run 2 (Take_check 0 ?q1)" by (rule bq_run.bq_check) simp_all
  then have r: "bq_run 2 (Inr (Put 0 7 ?q2))" by (intro bq_run.bq_put_step) (simp add: Take_check_def)
  from BlockingQueue_fifo_no_lost_wakeup [OF r] r show ?thesis
    by (intro exI [of _ "Put 0 7 ?q2"]) (simp add: Put_def notify_one_def numeral_2_eq_2)
qed


text \<open>A pool of one worker and one caller, stopped while the caller waits for room.\<close>

definition stranded_pool :: "nat thread_pool" where
  "stranded_pool = \<lparr>tp_queue = [1], tp_max = 1, tp_running = False, tp_workers = [Worker_done],
     tp_producers = [Producer_waiting 2], tp_accepted = [1], tp_taken = []\<rparr>"

lemma stranded_reachable: "tp_run (Inr stranded_pool)"
proof -
  let ?p0 = "stranded_pool\<lparr>tp_queue := [], tp_running := True, tp_workers := [Worker_loop], tp_producers := [Producer_away], tp_accepted := []\<rparr>"
  let ?p1 = "?p0\<lparr>tp_producers := [Producer_checking 1]\<rparr>"
  let ?p2 = "?p0\<lparr>tp_queue := [1], tp_accepted := [1]\<rparr>"
  let ?p3 = "?p2\<lparr>tp_producers := [Producer_checking 2]\<rparr>"
  let ?p4 = "?p2\<lparr>tp_producers := [Producer_waiting 2]\<rparr>"
  let ?p5 = "?p4\<lparr>tp_running := False\<rparr>"
  have "tp_run (ThreadPool_Start 1 (set_max_queue_size 1 (ThreadPool_new 1)))" by (rule tp_run.tp_start) simp_all
  then have "tp_run (Inr ?p0)"
    by (simp add: ThreadPool_Start_def set_max_queue_size_def ThreadPool_new_def size_of_int_def stranded_pool_def)
  moreover have "tp_step ?p0 (Inr ?p1)"
    using tp_step.run_call [of 0 ?p0 1] by (simp add: Run_enter_def stranded_pool_def)
  moreover have "tp_step ?p1 (Inr ?p2)"
    using tp_step.run_check [of 0 ?p1 1 0] by (simp add: Run_check_def IsFull_def stranded_pool_def notify_one_def)
  moreover have "tp_step ?p2 (Inr ?p3)"
    using tp_step.run_call [of 0 ?p2 2] by (simp add: Run_enter_def stranded_pool_def)
  moreover have "tp_step ?p3 (Inr ?p4)"
    using tp_step.run_check [of 0 ?p3 2 0] by (simp add: Run_check_def IsFull_def stranded_pool_def)
  moreover have "tp_step ?p4 (Inr ?p5)"
    using tp_step.stop [of ?p4] by (simp add: Stop_notify_def notify_all_def stranded_pool_def)
  moreover have "tp_step ?p5 (Inr stranded_pool)"
    using tp_step.work_check [of 0 ?p5] by (simp add: RunInThread_check_def stranded_pool_def)
  ultimately show ?thesis by (meson tp_run.tp_next)
qed


text \<open>
  \<^verbatim>\<open>Stop\<close> wakes only the workers: once they have ended with the queue full, a caller that waits for room
  in \<^verbatim>\<open>Run\<close> never returns, whatever happens next, and the queued tasks are never run.
\<close>

lemma Stop_strands_producer:
  assumes "(\<lambda>p p'. tp_step p (Inr p'))\<^sup>*\<^sup>* p p'"
    and "\<not> tp_running p" "set (tp_workers p) \<subseteq> {Worker_done}" "IsFull p"
    and "i < length (tp_producers p)" "tp_producers p ! i \<in> {Producer_waiting task, Producer_checking task}"
  shows "tp_producers p' ! i \<in> {Producer_waiting task, Producer_checking task} \<and> tp_queue p' = tp_queue p \<and> tp_taken p' = tp_taken p"
proof -
  from assms(1) have "\<not> tp_running p' \<and> set (tp_workers p') \<subseteq> {Worker_done} \<and> IsFull p'
    \<and> i < length (tp_producers p') \<and> tp_producers p' ! i \<in> {Producer_waiting task, Producer_checking task}
    \<and> tp_queue p' = tp_queue p \<and> tp_taken p' = tp_taken p"
  proof (induction rule: rtranclp_induct)
    case (step p1 p2)
    have w: "tp_workers p1 ! j = Worker_done" if "j < length (tp_workers p1)" for j
      using step.IH nth_mem [OF that] by blast
    from step.hyps(2) step.IH show ?case
      by (cases rule: tp_step.cases)
        (auto simp: w Run_check_def Stop_notify_def notify_all_def IsFull_def nth_list_update split: if_splits)
  qed (use assms in simp)
  then show ?thesis by simp
qed

lemma Stop_strands_producer_witness:
  "tp_run (Inr stranded_pool) \<and> tp_producers stranded_pool ! 0 \<in> {Producer_waiting 2, Producer_checking 2}
   \<and> tp_queue stranded_pool = [1]"
  using Stop_strands_producer [of stranded_pool stranded_pool 0 2] stranded_reachable
  by (simp add: stranded_pool_def IsFull_def)

end
