(* ===== verification/Connector.thy ===== *)
theory Connector
  imports Event_Loop "HOL-Library.Multiset"
begin

text \<open>
  \<^verbatim>\<open>muduo-cpp11/net/connector.h\<close> and \<^verbatim>\<open>connector.cpp\<close>: the active opening of a connection with retries.
  The results of the system calls (\<^verbatim>\<open>socket\<close>, \<^verbatim>\<open>connect\<close>, \<^verbatim>\<open>SO_ERROR\<close>, the self-connect test) are
  arguments. What is handed to the loop is kept in \<open>co_pending\<close> (functors) and \<open>co_timers\<close> (delays
  in milliseconds of the timers that will call \<^verbatim>\<open>StartInLoop\<close>). The lists \<open>co_opened\<close>, \<open>co_closed\<close> and
  \<open>co_delivered\<close> record the sockets created, closed and passed to the new-connection callback.

  Shown: for a client that starts an idle connector and restarts a connected one, no assertion fails and
  no socket is lost or used twice; retry delays double from 0.5 s up to 30 s; and how a second
  start breaks the connector.
\<close>

section \<open>State\<close>

datatype connector_state = Connector_kDisconnected | Connector_kConnecting | Connector_kConnected

datatype connector_functor = StartInLoop_functor | StopInLoop_functor | ResetChannel_functor

record connector =
  co_connect :: bool
  co_state :: connector_state
  co_channel :: "int option"
  co_writing :: bool
  co_retry_delay_ms :: int
  co_pending :: "connector_functor list"
  co_timers :: "int list"
  co_opened :: "int list"
  co_closed :: "int list"
  co_delivered :: "int list"

definition kMaxRetryDelayMs :: int where "kMaxRetryDelayMs = 30 * 1000"

definition kInitRetryDelayMs :: int where "kInitRetryDelayMs = 500"

definition Connector_new :: connector where
  "Connector_new = \<lparr>co_connect = False, co_state = Connector_kDisconnected, co_channel = None, co_writing = False,
     co_retry_delay_ms = kInitRetryDelayMs, co_pending = [], co_timers = [], co_opened = [], co_closed = [], co_delivered = []\<rparr>"

definition Connector_destroy :: "connector \<Rightarrow> unit outcome" where
  "Connector_destroy c = asserting (co_channel c = None) ''!channel_'' (Inr ())"

definition SetState :: "connector_state \<Rightarrow> connector \<Rightarrow> connector" where
  "SetState s c = c\<lparr>co_state := s\<rparr>"

definition close_socket :: "int \<Rightarrow> connector \<Rightarrow> connector" where
  "close_socket sockfd c = c\<lparr>co_closed := co_closed c @ [sockfd]\<rparr>"

section \<open>Operations\<close>

definition Retry :: "int \<Rightarrow> connector \<Rightarrow> connector" where
  "Retry sockfd c =
     (let c1 = SetState Connector_kDisconnected (close_socket sockfd c) in
      if co_connect c1
      then c1\<lparr>co_timers := co_timers c1 @ [co_retry_delay_ms c1],
              co_retry_delay_ms := min (co_retry_delay_ms c1 * 2) kMaxRetryDelayMs\<rparr>
      else c1)"

definition Connecting :: "int \<Rightarrow> connector \<Rightarrow> connector outcome" where
  "Connecting sockfd c =
     (let c1 = SetState Connector_kConnecting c in
      asserting (co_channel c1 = None) ''!channel_''
        (Inr (c1\<lparr>co_channel := Some sockfd, co_writing := True\<rparr>)))"

definition RemoveAndResetChannel :: "connector \<Rightarrow> (int \<times> connector) outcome" where
  "RemoveAndResetChannel c = (case co_channel c of
      None \<Rightarrow> Inl (UndefinedBehaviour ''channel_'')
    | Some sockfd \<Rightarrow> Inr (sockfd, c\<lparr>co_writing := False, co_pending := co_pending c @ [ResetChannel_functor]\<rparr>))"

definition ResetChannel :: "connector \<Rightarrow> connector" where
  "ResetChannel c = c\<lparr>co_channel := None\<rparr>"

text \<open>The \<^verbatim>\<open>errno\<close> values of the cases: 0, EINPROGRESS, EINTR, EISCONN; then those that are retried.\<close>

definition in_progress_errnos :: "int list" where "in_progress_errnos = [0, 115, 4, 106]"

definition retry_errnos :: "int list" where "retry_errnos = [11, 98, 99, 111, 101]"

definition Connect :: "int \<Rightarrow> int \<Rightarrow> connector \<Rightarrow> connector outcome" where
  "Connect sockfd saved_errno c =
     (if sockfd < 0 then Inl (LogFatal ''sockets::CreateNonblockingOrDie'')
      else let c1 = c\<lparr>co_opened := co_opened c @ [sockfd]\<rparr> in
        if saved_errno \<in> set in_progress_errnos then Connecting sockfd c1
        else if saved_errno \<in> set retry_errnos then Inr (Retry sockfd c1)
        else Inr (close_socket sockfd c1))"

definition StartInLoop :: "bool \<Rightarrow> int \<Rightarrow> int \<Rightarrow> connector \<Rightarrow> connector outcome" where
  "StartInLoop in_loop sockfd saved_errno c =
     AssertInLoopThread in_loop
     (asserting (co_state c = Connector_kDisconnected) ''state_ == kDisconnected''
     (if co_connect c then Connect sockfd saved_errno c else Inr c))"

definition Connector_Start :: "bool \<Rightarrow> int \<Rightarrow> int \<Rightarrow> connector \<Rightarrow> connector outcome" where
  "Connector_Start in_loop sockfd saved_errno c =
     (let c1 = c\<lparr>co_connect := True\<rparr> in
      if in_loop then StartInLoop True sockfd saved_errno c1
      else Inr (c1\<lparr>co_pending := co_pending c1 @ [StartInLoop_functor]\<rparr>))"

definition Connector_Stop :: "connector \<Rightarrow> connector" where
  "Connector_Stop c = c\<lparr>co_connect := False, co_pending := co_pending c @ [StopInLoop_functor]\<rparr>"

definition StopInLoop :: "bool \<Rightarrow> connector \<Rightarrow> connector outcome" where
  "StopInLoop in_loop c =
     AssertInLoopThread in_loop
     (if co_state c = Connector_kConnecting
      then and_then (RemoveAndResetChannel (SetState Connector_kDisconnected c)) (\<lambda>(sockfd, c1). Inr (Retry sockfd c1))
      else Inr c)"

definition Restart :: "bool \<Rightarrow> int \<Rightarrow> int \<Rightarrow> connector \<Rightarrow> connector outcome" where
  "Restart in_loop sockfd saved_errno c =
     AssertInLoopThread in_loop
     (StartInLoop in_loop sockfd saved_errno
       ((SetState Connector_kDisconnected c)\<lparr>co_retry_delay_ms := kInitRetryDelayMs, co_connect := True\<rparr>))"

definition Connector_HandleWrite :: "int \<Rightarrow> bool \<Rightarrow> connector \<Rightarrow> connector outcome" where
  "Connector_HandleWrite so_error self_connect c =
     (if co_state c = Connector_kConnecting
      then and_then (RemoveAndResetChannel c) (\<lambda>(sockfd, c1).
        if so_error \<noteq> 0 then Inr (Retry sockfd c1)
        else if self_connect then Inr (Retry sockfd c1)
        else let c2 = SetState Connector_kConnected c1 in
          if co_connect c2 then Inr (c2\<lparr>co_delivered := co_delivered c2 @ [sockfd]\<rparr>)
          else Inr (close_socket sockfd c2))
      else asserting (co_state c = Connector_kDisconnected) ''state_ == kDisconnected'' (Inr c))"

definition Connector_HandleError :: "connector \<Rightarrow> connector outcome" where
  "Connector_HandleError c =
     (if co_state c = Connector_kConnecting
      then and_then (RemoveAndResetChannel c) (\<lambda>(sockfd, c1). Inr (Retry sockfd c1))
      else Inr c)"

text \<open>
  An event on the channel of an attempt, which has a write and an error callback and is not tied: an error and writability may come
  together, and then both callbacks run.
\<close>

definition attempt_event :: "int \<Rightarrow> events \<Rightarrow> ('a \<Rightarrow> 'a outcome) \<Rightarrow> ('a \<Rightarrow> 'a outcome) \<Rightarrow> 'a \<Rightarrow> 'a outcome" where
  "attempt_event sockfd got on_error on_write x =
     and_then
       (HandleEvent \<lparr>read_callback = None, write_callback = Some (\<lambda>(ch, y). and_then (on_write y) (\<lambda>y'. Inr (ch, y'))),
                     close_callback = None, error_callback = Some (\<lambda>(ch, y). and_then (on_error y) (\<lambda>y'. Inr (ch, y')))\<rparr>
          Timestamp_Invalid ((Channel_new sockfd)\<lparr>ch_revents := got\<rparr>, x))
       (\<lambda>(ch, y). Inr y)"

definition run_connector_functor :: "connector_functor \<Rightarrow> int \<Rightarrow> int \<Rightarrow> connector \<Rightarrow> connector outcome" where
  "run_connector_functor f sockfd saved_errno c = (case f of
      StartInLoop_functor \<Rightarrow> StartInLoop True sockfd saved_errno c
    | StopInLoop_functor \<Rightarrow> StopInLoop True c
    | ResetChannel_functor \<Rightarrow> Inr (ResetChannel c))"

section \<open>Runs\<close>

text \<open>
  A client that calls \<^verbatim>\<open>Start\<close> on an idle connector, \<^verbatim>\<open>Restart\<close> on a connected one (as
  \<^verbatim>\<open>TcpClient::RemoveConnection\<close> does) and \<^verbatim>\<open>Stop\<close> at any time. The loop runs the functors in order and
  calls timers and the handlers of new events only when the functors queued by the previous
  round, \<^verbatim>\<open>ResetChannel\<close> among them, have run.
\<close>

definition connector_idle :: "connector \<Rightarrow> bool" where
  "connector_idle c \<longleftrightarrow> \<not> co_connect c \<and> co_state c = Connector_kDisconnected \<and> co_channel c = None
     \<and> co_pending c = [] \<and> co_timers c = []"

abbreviation resets :: "connector \<Rightarrow> nat" where
  "resets c \<equiv> count_list (co_pending c) ResetChannel_functor"

inductive connector_run :: "connector outcome \<Rightarrow> bool" where
  co_begin: "connector_run (Inr Connector_new)"
| co_start: "connector_run (Inr c) \<Longrightarrow> connector_idle c \<Longrightarrow> 0 \<le> fd \<Longrightarrow> connector_run (Connector_Start in_loop fd err c)"
| co_restart: "connector_run (Inr c) \<Longrightarrow> co_state c = Connector_kConnected \<Longrightarrow> resets c = 0 \<Longrightarrow> 0 \<le> fd \<Longrightarrow>
    connector_run (Restart True fd err c)"
| co_stop: "connector_run (Inr c) \<Longrightarrow> connector_run (Inr (Connector_Stop c))"
| co_functor: "connector_run (Inr c) \<Longrightarrow> co_pending c = f # fs \<Longrightarrow> 0 \<le> fd \<Longrightarrow>
    connector_run (run_connector_functor f fd err (c\<lparr>co_pending := fs\<rparr>))"
| co_timer: "connector_run (Inr c) \<Longrightarrow> resets c = 0 \<Longrightarrow> co_timers c = d # ds \<Longrightarrow> 0 \<le> fd \<Longrightarrow>
    connector_run (StartInLoop True fd err (c\<lparr>co_timers := ds\<rparr>))"
| co_event: "connector_run (Inr c) \<Longrightarrow> co_channel c = Some sockfd \<Longrightarrow> co_writing c \<Longrightarrow>
    connector_run (attempt_event sockfd got Connector_HandleError (Connector_HandleWrite so_error self) c)"

section \<open>The invariant\<close>

definition delay_ok :: "int \<Rightarrow> bool" where
  "delay_ok d \<longleftrightarrow> kInitRetryDelayMs \<le> d \<and> d \<le> kMaxRetryDelayMs"

abbreviation starts :: "connector \<Rightarrow> nat" where
  "starts c \<equiv> length (co_timers c) + count_list (co_pending c) StartInLoop_functor"

definition held_sockets :: "connector \<Rightarrow> int multiset" where
  "held_sockets c = (if co_writing c then mset_set (set_option (co_channel c)) else {#})"

definition co_inv :: "connector \<Rightarrow> bool" where
  "co_inv c \<longleftrightarrow> co_writing c = (co_state c = Connector_kConnecting)
     \<and> (co_writing c \<longrightarrow> co_channel c \<noteq> None)
     \<and> resets c = (if co_channel c \<noteq> None \<and> \<not> co_writing c then 1 else 0)
     \<and> starts c \<le> 1 \<and> (starts c = 1 \<longrightarrow> co_state c = Connector_kDisconnected)
     \<and> (count_list (co_pending c) StartInLoop_functor \<noteq> 0 \<longrightarrow> co_channel c = None)
     \<and> delay_ok (co_retry_delay_ms c) \<and> list_all delay_ok (co_timers c)
     \<and> mset (co_opened c) = mset (co_closed c) + mset (co_delivered c) + held_sockets c"

lemmas connector_defs = SetState_def close_socket_def delay_ok_def kMaxRetryDelayMs_def kInitRetryDelayMs_def held_sockets_def

lemma Connect_ok:
  assumes "co_inv c" "co_state c = Connector_kDisconnected" "co_channel c = None" "starts c = 0" "0 \<le> fd"
  shows "\<exists>c'. Connect fd err c = Inr c' \<and> co_inv c'"
  using assms by (auto simp: Connect_def Connecting_def Retry_def co_inv_def connector_defs Let_def)

lemma StartInLoop_ok:
  assumes "co_inv c" "co_state c = Connector_kDisconnected" "co_channel c = None" "starts c = 0" "0 \<le> fd"
  shows "\<exists>c'. StartInLoop True fd err c = Inr c' \<and> co_inv c'"
  using Connect_ok [OF assms] assms(1,2) by (simp add: StartInLoop_def AssertInLoopThread_def)

lemma attempt_facts:
  assumes "co_inv c" "co_state c = Connector_kConnecting"
  shows "\<exists>sockfd. co_channel c = Some sockfd" "co_writing c" "co_timers c = []"
    "count_list (co_pending c) StartInLoop_functor = 0" "resets c = 0"
  using assms by (auto simp: co_inv_def le_Suc_eq)

abbreviation abandoned :: "connector \<Rightarrow> connector" where
  "abandoned c \<equiv> c\<lparr>co_writing := False, co_pending := co_pending c @ [ResetChannel_functor]\<rparr>"

lemma abandoned_retry_inv:
  assumes "co_inv c" "co_state c = Connector_kConnecting" "co_channel c = Some sockfd"
  shows "co_inv (Retry sockfd (abandoned c))"
  using attempt_facts [OF assms(1,2)] assms by (auto simp: Retry_def co_inv_def connector_defs Let_def)

lemma abandoned_connected_inv:
  assumes "co_inv c" "co_state c = Connector_kConnecting" "co_channel c = Some sockfd"
  shows "co_inv ((abandoned c)\<lparr>co_state := Connector_kConnected, co_delivered := co_delivered c @ [sockfd]\<rparr>)"
    and "co_inv ((abandoned c)\<lparr>co_state := Connector_kConnected, co_closed := co_closed c @ [sockfd]\<rparr>)"
  using attempt_facts [OF assms(1,2)] assms by (simp_all add: co_inv_def held_sockets_def)

lemma StopInLoop_ok:
  assumes "co_inv c"
  shows "\<exists>c'. StopInLoop True c = Inr c' \<and> co_inv c'"
proof (cases "co_state c = Connector_kConnecting")
  case True
  then obtain sockfd where s: "co_channel c = Some sockfd" using attempt_facts(1) [OF assms] by blast
  have "StopInLoop True c = Inr (Retry sockfd (abandoned (c\<lparr>co_state := Connector_kDisconnected\<rparr>)))"
    using True s by (simp add: StopInLoop_def AssertInLoopThread_def RemoveAndResetChannel_def SetState_def)
  also have "\<dots> = Inr (Retry sockfd (abandoned c))"
    by (simp add: Retry_def SetState_def close_socket_def Let_def)
  finally have "StopInLoop True c = Inr (Retry sockfd (abandoned c))" .
  with abandoned_retry_inv [OF assms True s] show ?thesis by blast
qed (use assms in \<open>simp add: StopInLoop_def AssertInLoopThread_def\<close>)

lemma Connector_HandleError_ok:
  assumes "co_inv c" "co_writing c"
  shows "\<exists>c'. Connector_HandleError c = Inr c' \<and> co_inv c' \<and> co_state c' = Connector_kDisconnected"
proof -
  have st: "co_state c = Connector_kConnecting" using assms by (simp add: co_inv_def)
  then obtain sockfd where s: "co_channel c = Some sockfd" using attempt_facts(1) [OF assms(1)] by blast
  with st have "Connector_HandleError c = Inr (Retry sockfd (abandoned c))"
    by (simp add: Connector_HandleError_def RemoveAndResetChannel_def)
  moreover have "co_state (Retry sockfd (abandoned c)) = Connector_kDisconnected"
    by (simp add: Retry_def SetState_def close_socket_def Let_def)
  ultimately show ?thesis using abandoned_retry_inv [OF assms(1) st s] by blast
qed

lemma Connector_HandleWrite_ok:
  assumes "co_inv c" "co_writing c"
  shows "\<exists>c'. Connector_HandleWrite so_error self c = Inr c' \<and> co_inv c'"
proof -
  have st: "co_state c = Connector_kConnecting" using assms by (simp add: co_inv_def)
  then obtain sockfd where s: "co_channel c = Some sockfd" using attempt_facts(1) [OF assms(1)] by blast
  note inv = abandoned_retry_inv [OF assms(1) st s] abandoned_connected_inv [OF assms(1) st s]
  have "Connector_HandleWrite so_error self c =
    (if so_error \<noteq> 0 \<or> self then Inr (Retry sockfd (abandoned c))
     else if co_connect c then Inr ((abandoned c)\<lparr>co_state := Connector_kConnected, co_delivered := co_delivered c @ [sockfd]\<rparr>)
     else Inr ((abandoned c)\<lparr>co_state := Connector_kConnected, co_closed := co_closed c @ [sockfd]\<rparr>))"
    using st s by (simp add: Connector_HandleWrite_def RemoveAndResetChannel_def SetState_def close_socket_def)
  with inv show ?thesis by metis
qed

lemma attempt_event_steps:
  "attempt_event sockfd got on_error on_write x =
     and_then (if any_of got (POLLERR OR POLLNVAL) then on_error x else Inr x) (\<lambda>y. if any_of got POLLOUT then on_write y else Inr y)"
  by (cases "on_error x"; cases "on_write x"; cases "on_write (projr (on_error x))")
    (simp_all add: attempt_event_def HandleEvent_def HandleEventWithGuard_def invoke_def Channel_new_def Let_def)

lemma attempt_event_ok:
  assumes "co_inv c" "co_writing c"
  shows "\<exists>c'. attempt_event sockfd got Connector_HandleError (Connector_HandleWrite so_error self) c = Inr c' \<and> co_inv c'"
proof (cases "any_of got (POLLERR OR POLLNVAL)")
  case True
  from Connector_HandleError_ok [OF assms] obtain c' where
    "Connector_HandleError c = Inr c'" "co_inv c'" "co_state c' = Connector_kDisconnected" by blast
  with True show ?thesis by (simp add: attempt_event_steps Connector_HandleWrite_def)
qed (use assms Connector_HandleWrite_ok in \<open>simp add: attempt_event_steps\<close>)

lemma run_connector_functor_ok:
  assumes "co_inv c" "co_pending c = f # fs" "0 \<le> fd"
  shows "\<exists>c'. run_connector_functor f fd err (c\<lparr>co_pending := fs\<rparr>) = Inr c' \<and> co_inv c'"
proof (cases f)
  case StartInLoop_functor
  have "\<exists>c'. StartInLoop True fd err (c\<lparr>co_pending := fs\<rparr>) = Inr c' \<and> co_inv c'"
    using assms StartInLoop_functor by (intro StartInLoop_ok) (auto simp: co_inv_def held_sockets_def)
  with StartInLoop_functor show ?thesis by (simp add: run_connector_functor_def)
next
  case StopInLoop_functor
  have "\<exists>c'. StopInLoop True (c\<lparr>co_pending := fs\<rparr>) = Inr c' \<and> co_inv c'"
    using assms StopInLoop_functor by (intro StopInLoop_ok) (auto simp: co_inv_def held_sockets_def)
  with StopInLoop_functor show ?thesis by (simp add: run_connector_functor_def)
next
  case ResetChannel_functor
  with assms show ?thesis
    by (auto simp: run_connector_functor_def co_inv_def held_sockets_def ResetChannel_def split: if_splits)
qed

lemma Connector_Start_ok:
  assumes "co_inv c" "connector_idle c" "0 \<le> fd"
  shows "\<exists>c'. Connector_Start in_loop fd err c = Inr c' \<and> co_inv c'"
proof (cases in_loop)
  case True
  have "\<exists>c'. StartInLoop True fd err (c\<lparr>co_connect := True\<rparr>) = Inr c' \<and> co_inv c'"
    using assms by (intro StartInLoop_ok) (auto simp: co_inv_def held_sockets_def connector_idle_def)
  with True show ?thesis by (simp add: Connector_Start_def)
next
  case False
  with assms show ?thesis by (simp add: Connector_Start_def co_inv_def held_sockets_def connector_idle_def)
qed

lemma Restart_ok:
  assumes "co_inv c" "co_state c = Connector_kConnected" "resets c = 0" "0 \<le> fd"
  shows "\<exists>c'. Restart True fd err c = Inr c' \<and> co_inv c'"
proof -
  let ?c = "(SetState Connector_kDisconnected c)\<lparr>co_retry_delay_ms := kInitRetryDelayMs, co_connect := True\<rparr>"
  have "\<exists>c'. StartInLoop True fd err ?c = Inr c' \<and> co_inv c'"
    using assms by (intro StartInLoop_ok) (auto simp: co_inv_def connector_defs le_Suc_eq split: if_splits)
  then show ?thesis by (simp add: Restart_def AssertInLoopThread_def)
qed

lemma timer_fires_ok:
  assumes "co_inv c" "resets c = 0" "co_timers c = d # ds" "0 \<le> fd"
  shows "\<exists>c'. StartInLoop True fd err (c\<lparr>co_timers := ds\<rparr>) = Inr c' \<and> co_inv c'"
  using assms by (intro StartInLoop_ok) (auto simp: co_inv_def held_sockets_def split: if_splits)

lemma connector_run_inv: "connector_run r \<Longrightarrow> \<exists>c. r = Inr c \<and> co_inv c"
proof (induction rule: connector_run.induct)
  case co_begin
  show ?case by (simp add: co_inv_def Connector_new_def connector_defs)
next
  case (co_stop c)
  then show ?case by (auto simp: Connector_Stop_def co_inv_def held_sockets_def)
qed (auto simp: Connector_Start_ok Restart_ok run_connector_functor_ok timer_fires_ok attempt_event_ok)

section \<open>Properties\<close>


lemma idle_new: "connector_idle Connector_new"
  by (simp add: connector_idle_def Connector_new_def)


text \<open>Attempts that are refused one after the other, each started by the timer of the one before.\<close>

fun refused_attempts :: "nat \<Rightarrow> connector \<Rightarrow> connector outcome" where
  "refused_attempts 0 c = Inr c"
| "refused_attempts (Suc k) c = and_then (StartInLoop True 3 111 c) (refused_attempts k)"

lemma refused_attempt:
  assumes "co_state c = Connector_kDisconnected" "co_connect c"
  shows "StartInLoop True 3 111 c = Inr (c\<lparr>co_opened := co_opened c @ [3], co_closed := co_closed c @ [3],
    co_timers := co_timers c @ [co_retry_delay_ms c], co_retry_delay_ms := min (2 * co_retry_delay_ms c) 30000\<rparr>)"
  using assms
  by (simp add: StartInLoop_def AssertInLoopThread_def Connect_def in_progress_errnos_def retry_errnos_def Retry_def
      SetState_def close_socket_def kMaxRetryDelayMs_def Let_def mult.commute)

lemma min_doubling:
  assumes "0 \<le> (m :: int)" "0 \<le> d"
  shows "min (min (2 * d) m * 2 ^ i) m = min (d * 2 ^ Suc i) m"
proof (cases "2 * d \<le> m")
  case True
  then show ?thesis by (simp add: min_def mult_ac)
next
  case False
  have "m \<le> m * 2 ^ i" "2 * d \<le> 2 * d * 2 ^ i"
    using assms mult_left_mono [of 1 "2 ^ i" m] mult_left_mono [of 1 "2 ^ i" "2 * d"] by simp_all
  with False have "min (min (2 * d) m * 2 ^ i) m = m" "min (2 * d * 2 ^ i) m = m" by (simp_all add: min_def)
  then show ?thesis by (simp add: mult_ac)
qed

lemma refused_delays:
  assumes "co_state c = Connector_kDisconnected" "co_connect c" "0 \<le> co_retry_delay_ms c" "co_retry_delay_ms c \<le> 30000"
  shows "\<exists>c'. refused_attempts k c = Inr c' \<and>
    co_timers c' = co_timers c @ map (\<lambda>i. min (co_retry_delay_ms c * 2 ^ i) 30000) [0..<k]"
  using assms
proof (induction k arbitrary: c)
  case (Suc k)
  let ?d = "co_retry_delay_ms c"
  let ?c = "c\<lparr>co_opened := co_opened c @ [3], co_closed := co_closed c @ [3],
    co_timers := co_timers c @ [?d], co_retry_delay_ms := min (2 * ?d) 30000\<rparr>"
  have "\<exists>c'. refused_attempts k ?c = Inr c' \<and>
      co_timers c' = co_timers ?c @ map (\<lambda>i. min (co_retry_delay_ms ?c * 2 ^ i) 30000) [0..<k]"
    using Suc.prems by (intro Suc.IH) simp_all
  moreover have "map (\<lambda>i. min (?d * 2 ^ i) 30000) [0..<Suc k] = ?d # map (\<lambda>i. min (min (2 * ?d) 30000 * 2 ^ i) 30000) [0..<k]"
    using Suc.prems(3,4) min_doubling [of 30000 ?d] by (simp add: upt_conv_Cons map_Suc_upt [symmetric] del: upt_Suc)
  ultimately show ?case using refused_attempt [OF Suc.prems(1,2)] by simp
qed simp


text \<open>
  \<^verbatim>\<open>Stop\<close> does not cancel the retry timer (a FIXME says so): when the client stops a connector that
  waits for its retry and starts it again before the timer fires, the timer finds the new attempt in
  progress and the assertion in \<^verbatim>\<open>StartInLoop\<close> fails.
\<close>

lemma Stop_Start_before_retry_aborts:
  "\<exists>c0 c1 c2. Connector_Start True 3 111 Connector_new = Inr c0
    \<and> run_connector_functor StopInLoop_functor 4 0 ((Connector_Stop c0)\<lparr>co_pending := []\<rparr>) = Inr c1
    \<and> Connector_Start True 4 115 c1 = Inr c2 \<and> co_timers c2 = [500]
    \<and> StartInLoop True 5 0 (c2\<lparr>co_timers := []\<rparr>) = Inl (AssertFailed ''state_ == kDisconnected'')"
  by (simp add: Connector_Start_def StartInLoop_def AssertInLoopThread_def Connector_new_def Connect_def Retry_def
      in_progress_errnos_def retry_errnos_def connector_defs run_connector_functor_def StopInLoop_def Connector_Stop_def
      Connecting_def)

end
