(* ===== verification/Inet_Address.thy ===== *)
theory Inet_Address
  imports Endian Decimal
begin

text \<open>
  \<^verbatim>\<open>muduo-cpp11/net/inet_address.h\<close>/\<^verbatim>\<open>.cpp\<close> and the address part of \<^verbatim>\<open>sockets_ops.cpp\<close>. An address is the
  \<^verbatim>\<open>sockaddr_in\<close> it wraps, port and address kept in network byte order as on a host of the given
  endianness. \<^verbatim>\<open>inet_ntop\<close> and \<^verbatim>\<open>inet_pton\<close> are the C library's: four decimal numbers separated by
  dots, without leading zeros.

  Shown: printing an address and parsing it gives the address back, and its text with the port fits
  the array it is written to.
\<close>

section \<open>The C library's conversions\<close>

fun dotted :: "nat list \<Rightarrow> string" where
  "dotted [] = []"
| "dotted [a] = decimal_nat a"
| "dotted (a # as) = decimal_nat a @ CHR ''.'' # dotted as"

definition inet_ntop :: "char list \<Rightarrow> string" where
  "inet_ntop bytes = dotted (map of_char bytes)"

fun split_on :: "char \<Rightarrow> string \<Rightarrow> string list" where
  "split_on c [] = [[]]"
| "split_on c (x # xs) =
     (if x = c then [] # split_on c xs
      else (case split_on c xs of [] \<Rightarrow> [[x]] | w # ws \<Rightarrow> (x # w) # ws))"

definition isdigit :: "char \<Rightarrow> bool" where
  "isdigit c \<longleftrightarrow> 48 \<le> (of_char c :: nat) \<and> (of_char c :: nat) \<le> 57"

definition parse_octet :: "string \<Rightarrow> nat option" where
  "parse_octet s =
     (if s \<noteq> [] \<and> length s \<le> 3 \<and> list_all isdigit s
         \<and> (hd s = CHR ''0'' \<longrightarrow> length s = 1) \<and> parse_nat s < 256
      then Some (parse_nat s) else None)"

definition inet_pton :: "string \<Rightarrow> char list option" where
  "inet_pton s = (let parts = map parse_octet (split_on (CHR ''.'') s) in
     if length parts = 4 \<and> None \<notin> set parts then Some (map (char_of \<circ> the) parts) else None)"

section \<open>InetAddress\<close>

record sockaddr_in =
  sin_family :: nat
  sin_port :: "16 word"
  sin_addr :: "32 word"

definition AF_INET :: nat where "AF_INET = 2"

definition INET_ADDRSTRLEN :: nat where "INET_ADDRSTRLEN = 16"

definition zero_addr :: sockaddr_in where
  "zero_addr = \<lparr>sin_family = 0, sin_port = 0, sin_addr = 0\<rparr>"

definition sockets_ToIp :: "bool \<Rightarrow> nat \<Rightarrow> sockaddr_in \<Rightarrow> string outcome" where
  "sockets_ToIp le sz addr =
     asserting (sz \<ge> INET_ADDRSTRLEN) ''size >= INET_ADDRSTRLEN''
     (Inr (inet_ntop (mem_of_word le 4 (sin_addr addr))))"

definition sockets_ToIpPort :: "bool \<Rightarrow> nat \<Rightarrow> sockaddr_in \<Rightarrow> string outcome" where
  "sockets_ToIpPort le sz addr =
     asserting (sz \<ge> INET_ADDRSTRLEN) ''size >= INET_ADDRSTRLEN''
     (let buf = inet_ntop (mem_of_word le 4 (sin_addr addr));
          end_pos = length buf;
          port = NetworkToHost16 le (sin_port addr)
      in asserting (sz > end_pos) ''size > end''
        (Inr (buf @ snprintf_trunc (sz - end_pos) ('':'' @ decimal_nat (unat port)))))"

definition FromIpPort :: "bool \<Rightarrow> string \<Rightarrow> 16 word \<Rightarrow> sockaddr_in \<Rightarrow> sockaddr_in" where
  "FromIpPort le ip port addr =
     addr\<lparr>sin_family := AF_INET, sin_port := HostToNetwork16 le port,
          sin_addr := (case inet_pton ip of Some bytes \<Rightarrow> word_of_mem le bytes | None \<Rightarrow> sin_addr addr)\<rparr>"

definition InetAddress_port :: "bool \<Rightarrow> 16 word \<Rightarrow> bool \<Rightarrow> sockaddr_in" where
  "InetAddress_port le port loopback_only =
     (let ip = (if loopback_only then 0x7F000001 else 0)
      in zero_addr\<lparr>sin_family := AF_INET, sin_addr := HostToNetwork32 le ip, sin_port := HostToNetwork16 le port\<rparr>)"

definition InetAddress_ip :: "bool \<Rightarrow> string \<Rightarrow> 16 word \<Rightarrow> sockaddr_in" where
  "InetAddress_ip le ip port = FromIpPort le ip port zero_addr"

definition ToIpPort :: "bool \<Rightarrow> sockaddr_in \<Rightarrow> string outcome" where
  "ToIpPort le addr = sockets_ToIpPort le 32 addr"

definition ToIp :: "bool \<Rightarrow> sockaddr_in \<Rightarrow> string outcome" where
  "ToIp le addr = sockets_ToIp le 32 addr"

definition ToPort :: "bool \<Rightarrow> sockaddr_in \<Rightarrow> 16 word" where
  "ToPort le addr = NetworkToHost16 le (sin_port addr)"

text \<open>
  \<open>he\<close> is what \<^verbatim>\<open>gethostbyname_r\<close> found: address type, length and the address itself.
\<close>

definition Resolve :: "int \<Rightarrow> (nat \<times> nat \<times> 32 word) option \<Rightarrow> sockaddr_in \<Rightarrow> (bool \<times> sockaddr_in) outcome" where
  "Resolve ret he out = (case he of
      Some (h_addrtype, h_length, h_addr) \<Rightarrow>
        if ret = 0
        then asserting (h_addrtype = AF_INET \<and> h_length = 4) ''he->h_addrtype == AF_INET && he->h_length == sizeof(uint32_t)''
               (Inr (True, out\<lparr>sin_addr := h_addr\<rparr>))
        else Inr (False, out)
    | None \<Rightarrow> Inr (False, out))"

text \<open>\<^verbatim>\<open>getsockopt(SO_ERROR)\<close> gives the pending error, or fails with an \<^verbatim>\<open>errno\<close>.\<close>

definition GetSocketError :: "int + int \<Rightarrow> int" where
  "GetSocketError r = (case r of Inl errno \<Rightarrow> errno | Inr optval \<Rightarrow> optval)"

text \<open>\<^verbatim>\<open>getsockname\<close> and \<^verbatim>\<open>getpeername\<close> leave the zeroed structure when they fail.\<close>

definition GetLocalAddr :: "sockaddr_in option \<Rightarrow> sockaddr_in" where
  "GetLocalAddr r = (case r of Some localaddr \<Rightarrow> localaddr | None \<Rightarrow> zero_addr)"

definition GetPeerAddr :: "sockaddr_in option \<Rightarrow> sockaddr_in" where
  "GetPeerAddr r = (case r of Some peeraddr \<Rightarrow> peeraddr | None \<Rightarrow> zero_addr)"

definition IsSelfConnect :: "sockaddr_in option \<Rightarrow> sockaddr_in option \<Rightarrow> bool" where
  "IsSelfConnect sockname peername =
     (let localaddr = GetLocalAddr sockname; peeraddr = GetPeerAddr peername
      in sin_port localaddr = sin_port peeraddr \<and> sin_addr localaddr = sin_addr peeraddr)"

section \<open>Texts of addresses\<close>

lemma split_on_not_Nil [simp]: "split_on c s \<noteq> []"
  by (cases s) (auto split: list.splits)

lemma split_on_plain: "c \<notin> set s \<Longrightarrow> split_on c s = [s]"
  by (induction s) auto

lemma split_on_append: "c \<notin> set s \<Longrightarrow> split_on c (s @ c # t) = s # split_on c t"
  by (induction s) auto

lemma split_dotted: "as \<noteq> [] \<Longrightarrow> split_on (CHR ''.'') (dotted as) = map decimal_nat as"
  by (induction as rule: dotted.induct) (auto simp: split_on_append split_on_plain decimal_nat_no_special)

lemma of_digit_char: "d < 10 \<Longrightarrow> of_char (digit_char d) = 48 + d"
  by (simp add: digit_char_def of_char_of)

lemma digit_char_digit: "d < 10 \<Longrightarrow> isdigit (digit_char d)"
  by (simp add: isdigit_def of_digit_char)

lemma digit_char_zero: "d < 10 \<Longrightarrow> digit_char d = CHR ''0'' \<longleftrightarrow> d = 0"
proof -
  assume d: "d < 10"
  have "(of_char (CHR ''0'') :: nat) = 48" by simp
  with of_digit_char [OF d] of_digit_char [of 0] d show ?thesis
    by (metis add_cancel_left_right of_char_eq_iff zero_less_numeral)
qed

lemma hd_decimal_nat: "hd (decimal_nat n) = CHR ''0'' \<longleftrightarrow> n = 0"
proof (induction n rule: decimal_nat.induct)
  case (1 n)
  show ?case
  proof (cases "n < 10")
    case True
    then show ?thesis by (simp add: decimal_nat.simps [of n] digit_char_zero)
  next
    case False
    with 1 show ?thesis by (simp add: decimal_nat.simps [of n] hd_append)
  qed
qed

lemma parse_octet_decimal:
  assumes "n < 256"
  shows "parse_octet (decimal_nat n) = Some n"
proof -
  have "length (decimal_nat n) \<le> 3" using length_decimal_nat [of n 3] assms by simp
  moreover have "list_all isdigit (decimal_nat n)"
    unfolding list_all_iff using decimal_nat_digits digit_char_digit by metis
  moreover have "hd (decimal_nat n) = CHR ''0'' \<longrightarrow> length (decimal_nat n) = 1"
    by (auto simp: hd_decimal_nat decimal_nat.simps [of 0])
  ultimately show ?thesis using assms by (simp add: parse_octet_def)
qed

lemma inet_pton_ntop:
  assumes "length bytes = 4"
  shows "inet_pton (inet_ntop bytes) = Some bytes"
proof -
  have "bytes \<noteq> []" using assms by auto
  then have "map parse_octet (split_on (CHR ''.'') (inet_ntop bytes)) = map (Some \<circ> of_char) bytes"
    by (simp add: inet_ntop_def split_dotted parse_octet_decimal of_char_less_256)
  then show ?thesis using assms by (auto simp: inet_pton_def comp_def)
qed

lemma length_dotted: "list_all (\<lambda>n. n < 256) as \<Longrightarrow> length (dotted as) + 1 \<le> 4 * length as + (if as = [] then 1 else 0)"
proof (induction as rule: dotted.induct)
  case (2 a)
  then show ?case using length_decimal_nat [of a 3] by simp
next
  case (3 a b as)
  then show ?case using length_decimal_nat [of a 3] by simp
qed simp

lemma length_inet_ntop: "length bytes = 4 \<Longrightarrow> length (inet_ntop bytes) \<le> 15"
  using length_dotted [of "map of_char bytes"] by (auto simp: inet_ntop_def list_all_iff of_char_less_256 split: if_splits)

lemma word_of_mem_of_word: "word_of_mem le (mem_of_word le 4 (x :: 32 word)) = x"
  by (simp add: word_of_mem_def mem_of_word_def of_bytes_of_word)

lemma h2n_n2h_16: "HostToNetwork16 le (NetworkToHost16 le x) = x"
  using net16.n2h_h2n [of le x] by (simp add: HostToNetwork16_def NetworkToHost16_def)

lemma ToIpPort_text:
  "\<exists>ip. ToIp le a = Inr ip \<and> length ip \<le> 15 \<and> ToIpPort le a = Inr (ip @ '':'' @ decimal_nat (unat (ToPort le a)))"
proof -
  let ?ip = "inet_ntop (mem_of_word le 4 (sin_addr a))"
  have ip: "length ?ip \<le> 15" by (rule length_inet_ntop) simp
  have "unat (ToPort le a) < 10 ^ 5" using unsigned_less [of "ToPort le a", where ?'a = nat] by simp
  then have "length (decimal_nat (unat (ToPort le a))) \<le> 5" by (rule length_decimal_nat) simp
  with ip have "snprintf_trunc (32 - length ?ip) ('':'' @ decimal_nat (unat (ToPort le a))) = '':'' @ decimal_nat (unat (ToPort le a))"
    by (intro snprintf_fits) simp
  with ip show ?thesis
    by (simp add: ToIp_def sockets_ToIp_def ToIpPort_def sockets_ToIpPort_def INET_ADDRSTRLEN_def ToPort_def Let_def)
qed

section \<open>Properties\<close>

text \<open>
  C36. Addresses survive printing: the text of an IPv4 address together with its port constructs the same
  \<^verbatim>\<open>sockaddr_in\<close>, on hosts of either endianness; \<^verbatim>\<open>ToIpPort\<close> fails no assertion, is the address, a colon
  and the port, and is never cut off by its 32-byte array.
\<close>

theorem InetAddress_roundtrip:
  assumes "sin_family a = AF_INET"
  shows "\<exists>ip. ToIp le a = Inr ip \<and> InetAddress_ip le ip (ToPort le a) = a
    \<and> ToIpPort le a = Inr (ip @ '':'' @ decimal_nat (unat (ToPort le a))) \<and> length ip \<le> 15"
proof -
  obtain ip where ip: "ToIp le a = Inr ip" "length ip \<le> 15"
    "ToIpPort le a = Inr (ip @ '':'' @ decimal_nat (unat (ToPort le a)))" using ToIpPort_text by blast
  then have "ip = inet_ntop (mem_of_word le 4 (sin_addr a))"
    by (simp add: ToIp_def sockets_ToIp_def INET_ADDRSTRLEN_def)
  then have "InetAddress_ip le ip (ToPort le a) = a"
    using assms by (simp add: InetAddress_ip_def FromIpPort_def inet_pton_ntop word_of_mem_of_word ToPort_def h2n_n2h_16 zero_addr_def)
  with ip show ?thesis by blast
qed

theorem InetAddress_roundtrip_witness:
  "\<exists>ip. ToIp True (InetAddress_port True 80 True) = Inr ip
    \<and> InetAddress_ip True ip (ToPort True (InetAddress_port True 80 True)) = InetAddress_port True 80 True"
proof -
  have "sin_family (InetAddress_port True 80 True) = AF_INET" by (simp add: InetAddress_port_def Let_def)
  from InetAddress_roundtrip [OF this, of True] show ?thesis by blast
qed

end
