(* ===== verification/Tcp_Server.thy ===== *)
theory Tcp_Server
  imports Loop_Threads Inet_Address Std_Containers Event_Loop "HOL-Library.List_Lexorder" "HOL-Library.Char_ord"
begin

text \<open>
  \<^verbatim>\<open>muduo-cpp11/net/tcp_server.h\<close>/\<^verbatim>\<open>.cpp\<close>. A connection is the name, loop and socket it was created
  with; what the server hands to the loops is appended to \<open>sv_queued\<close>. The history variable \<open>sv_live\<close> lists the connections that were created
  and not yet removed.

  Shown: the map of connections holds exactly the live ones, so removal never fails its assertion,
  while connection names fit the array they are printed to; and how they collide when they do not.
\<close>

section \<open>TcpServer\<close>

record server_conn =
  sc_name :: string
  sc_loop :: loop_addr
  sc_sockfd :: int

datatype server_functor =
    ConnectEstablished_functor server_conn
  | ConnectDestroyed_functor server_conn
  | RemoveConnection_functor server_conn
  | Listen_functor

record tcp_server =
  sv_hostport :: string
  sv_name :: string
  sv_listenning :: bool
  sv_pool :: loop_thread_pool
  sv_started :: bool
  sv_next_conn_id :: int
  sv_connections :: "(string \<times> server_conn) list"
  sv_queued :: "(loop_addr \<times> server_functor) list"
  sv_live :: "server_conn list"

definition TcpServer_new :: "bool \<Rightarrow> loop_addr \<Rightarrow> sockaddr_in \<Rightarrow> string \<Rightarrow> tcp_server outcome" where
  "TcpServer_new le loop listen_addr name =
     and_then (ToIpPort le listen_addr) (\<lambda>hostport.
       Inr \<lparr>sv_hostport = hostport, sv_name = name, sv_listenning = False, sv_pool = EventLoopThreadPool_new loop,
            sv_started = False, sv_next_conn_id = 1, sv_connections = [], sv_queued = [], sv_live = []\<rparr>)"

definition TcpServer_set_thread_num :: "int \<Rightarrow> tcp_server \<Rightarrow> tcp_server outcome" where
  "TcpServer_set_thread_num n sv =
     (if n < 0 then Inl (LogFatal ''num_threads should >= 0'')
      else and_then (set_thread_num (sv_pool sv) n) (\<lambda>pool. Inr (sv\<lparr>sv_pool := pool\<rparr>)))"

definition TcpServer_Start :: "(nat \<Rightarrow> loop_addr) \<Rightarrow> bool \<Rightarrow> bool \<Rightarrow> tcp_server \<Rightarrow> tcp_server outcome" where
  "TcpServer_Start StartLoop in_loop has_cb sv =
     (if sv_started sv then Inr sv
      else and_then (pool_Start StartLoop in_loop has_cb (sv_pool sv)) (\<lambda>(pool, _).
        if sv_listenning sv then Inl (LogFatal ''Acceptor should be listenning before TcpServer Start'')
        else Inr (let sv1 = sv\<lparr>sv_started := True, sv_pool := pool\<rparr> in
          if in_loop then sv1\<lparr>sv_listenning := True\<rparr>
          else sv1\<lparr>sv_queued := sv_queued sv1 @ [(base_loop pool, Listen_functor)]\<rparr>)))"

definition conn_name :: "string \<Rightarrow> string \<Rightarrow> int \<Rightarrow> string" where
  "conn_name name hostport i = name @ snprintf_trunc 32 ('':'' @ hostport @ ''#'' @ decimal i)"

definition TcpServer_NewConnection :: "bool \<Rightarrow> int \<Rightarrow> tcp_server \<Rightarrow> tcp_server outcome" where
  "TcpServer_NewConnection in_loop sockfd sv =
     AssertInLoopThread in_loop
     (and_then (GetNextLoop in_loop (sv_pool sv)) (\<lambda>(io_loop, pool).
        if sv_next_conn_id sv = 2 ^ 31 - 1 then Inl (UndefinedBehaviour ''++next_conn_id_'')
        else
          let name = conn_name (sv_name sv) (sv_hostport sv) (sv_next_conn_id sv);
              conn = \<lparr>sc_name = name, sc_loop = io_loop, sc_sockfd = sockfd\<rparr>
          in Inr (sv\<lparr>sv_pool := pool, sv_next_conn_id := sv_next_conn_id sv + 1,
                     sv_connections := map_put name conn (sv_connections sv),
                     sv_queued := sv_queued sv @ [(io_loop, ConnectEstablished_functor conn)],
                     sv_live := sv_live sv @ [conn]\<rparr>)))"

definition RemoveConnectionInLoop :: "bool \<Rightarrow> server_conn \<Rightarrow> tcp_server \<Rightarrow> tcp_server outcome" where
  "RemoveConnectionInLoop in_loop conn sv =
     AssertInLoopThread in_loop
     (let (connections, n) = map_erase (sc_name conn) (sv_connections sv)
      in asserting (n = 1) ''n == 1''
        (Inr (sv\<lparr>sv_connections := connections,
                 sv_queued := sv_queued sv @ [(sc_loop conn, ConnectDestroyed_functor conn)],
                 sv_live := remove1 conn (sv_live sv)\<rparr>)))"

text \<open>The close callback of a connection, called in the thread of the connection's loop.\<close>

definition TcpServer_RemoveConnection :: "bool \<Rightarrow> server_conn \<Rightarrow> tcp_server \<Rightarrow> tcp_server outcome" where
  "TcpServer_RemoveConnection in_base_loop conn sv =
     (if in_base_loop then RemoveConnectionInLoop True conn sv
      else Inr (sv\<lparr>sv_queued := sv_queued sv @ [(base_loop (sv_pool sv), RemoveConnection_functor conn)]\<rparr>))"

definition TcpServer_destroy :: "bool \<Rightarrow> tcp_server \<Rightarrow> (loop_addr \<times> server_functor) list outcome" where
  "TcpServer_destroy in_loop sv =
     AssertInLoopThread in_loop
     (Inr (map (\<lambda>(_, conn). (sc_loop conn, ConnectDestroyed_functor conn)) (sv_connections sv)))"

section \<open>Names\<close>

text \<open>The part of the name that is printed into \<^verbatim>\<open>char buf[32]\<close> fits.\<close>

definition name_fits :: "string \<Rightarrow> int \<Rightarrow> bool" where
  "name_fits hostport i \<longleftrightarrow> length hostport + length (decimal i) \<le> 29"

lemma conn_name_inj:
  assumes "name_fits hostport i" "name_fits hostport j" "conn_name name hostport i = conn_name name hostport j"
  shows "i = j"
proof -
  have "snprintf_trunc 32 ('':'' @ hostport @ ''#'' @ decimal k) = '':'' @ hostport @ ''#'' @ decimal k"
    if "name_fits hostport k" for k
    using that by (intro snprintf_fits) (simp add: name_fits_def)
  with assms show ?thesis by (simp add: conn_name_def decimal_inj)
qed

lemma length_decimal_id: "0 < i \<Longrightarrow> i < 10 ^ 8 \<Longrightarrow> length (decimal i) \<le> 8"
  using length_decimal_nat [of "nat i" 8] by (simp add: decimal_def nat_less_iff)

section \<open>Runs\<close>

text \<open>
  A started server accepts connections and is told once, by the close callback, of the end of each.
  Fewer than 100000000 connections: then every name fits.
\<close>

inductive sv_run :: "tcp_server outcome \<Rightarrow> bool" where
  sv_begin: "TcpServer_new le loop addr name = Inr sv0 \<Longrightarrow> TcpServer_set_thread_num n sv0 = Inr sv1 \<Longrightarrow>
    sv_run (TcpServer_Start StartLoop True has_cb sv1)"
| sv_again: "sv_run (Inr sv) \<Longrightarrow> sv_run (TcpServer_Start StartLoop in_loop has_cb sv)"
| sv_new: "sv_run (Inr sv) \<Longrightarrow> sv_next_conn_id sv < 10 ^ 8 \<Longrightarrow> sv_run (TcpServer_NewConnection True sockfd sv)"
| sv_remove: "sv_run (Inr sv) \<Longrightarrow> conn \<in> set (sv_live sv) \<Longrightarrow> sv_run (RemoveConnectionInLoop True conn sv)"

definition pool_ok :: "loop_thread_pool \<Rightarrow> bool" where
  "pool_ok pool \<longleftrightarrow> started pool \<and> (pool_loops pool \<noteq> [] \<longrightarrow> next_loop pool < length (pool_loops pool))"

definition sv_inv :: "tcp_server \<Rightarrow> bool" where
  "sv_inv sv \<longleftrightarrow> sv_started sv \<and> pool_ok (sv_pool sv) \<and> length (sv_hostport sv) \<le> 21
     \<and> 0 < sv_next_conn_id sv \<and> sv_next_conn_id sv \<le> 10 ^ 8 \<and> std_map (sv_connections sv)
     \<and> distinct (map sc_name (sv_live sv))
     \<and> (\<forall>conn \<in> set (sv_live sv). \<exists>i. 0 < i \<and> i < sv_next_conn_id sv \<and> sc_name conn = conn_name (sv_name sv) (sv_hostport sv) i)
     \<and> map_of (sv_connections sv) = map_of (map (\<lambda>c. (sc_name c, c)) (sv_live sv))"

section \<open>The invariant\<close>

lemma GetNextLoop_pool_ok:
  assumes "pool_ok pool"
  shows "\<exists>l pool'. GetNextLoop True pool = Inr (l, pool') \<and> pool_ok pool'"
  using assms by (auto simp: GetNextLoop_def pool_ok_def Let_def)

lemma pool_Start_ok:
  assumes "pool_Start StartLoop True has_cb pool = Inr (pool', cbs)" "next_loop pool = 0"
  shows "pool_ok pool'"
  using assms by (auto simp: pool_Start_def pool_ok_def asserting_def Let_def split: if_splits)

lemma length_hostport: "ToIpPort le addr = Inr hostport \<Longrightarrow> length hostport \<le> 21"
proof -
  assume h: "ToIpPort le addr = Inr hostport"
  obtain ip where ip: "length ip \<le> 15" "ToIpPort le addr = Inr (ip @ '':'' @ decimal_nat (unat (ToPort le addr)))"
    using ToIpPort_text by blast
  have "unat (ToPort le addr) < 10 ^ 5" using unsigned_less [of "ToPort le addr", where ?'a = nat] by simp
  then have "length (decimal_nat (unat (ToPort le addr))) \<le> 5" by (rule length_decimal_nat) simp
  with h ip show ?thesis by auto
qed

lemma sv_inv_fits:
  "sv_inv sv \<Longrightarrow> 0 < i \<Longrightarrow> i < 10 ^ 8 \<Longrightarrow> name_fits (sv_hostport sv) i"
  using length_decimal_id [of i] by (simp add: sv_inv_def name_fits_def)

lemma fresh_name:
  assumes "sv_inv sv" "sv_next_conn_id sv < 10 ^ 8"
  shows "conn_name (sv_name sv) (sv_hostport sv) (sv_next_conn_id sv) \<notin> sc_name ` set (sv_live sv)"
proof
  assume "conn_name (sv_name sv) (sv_hostport sv) (sv_next_conn_id sv) \<in> sc_name ` set (sv_live sv)"
  then obtain i where i: "0 < i" "i < sv_next_conn_id sv"
    "conn_name (sv_name sv) (sv_hostport sv) i = conn_name (sv_name sv) (sv_hostport sv) (sv_next_conn_id sv)"
    using assms(1) by (auto simp: sv_inv_def)
  moreover have "name_fits (sv_hostport sv) i" "name_fits (sv_hostport sv) (sv_next_conn_id sv)"
    using assms i(1,2) by (auto intro!: sv_inv_fits simp: sv_inv_def)
  ultimately show False using conn_name_inj by blast
qed

lemma NewConnection_ok:
  assumes "sv_inv sv" "sv_next_conn_id sv < 10 ^ 8"
  shows "\<exists>sv'. TcpServer_NewConnection True sockfd sv = Inr sv' \<and> sv_inv sv'"
proof -
  have "pool_ok (sv_pool sv)" using assms(1) by (simp add: sv_inv_def)
  from GetNextLoop_pool_ok [OF this] obtain l pool where
    pool: "GetNextLoop True (sv_pool sv) = Inr (l, pool)" "pool_ok pool" by blast
  let ?name = "conn_name (sv_name sv) (sv_hostport sv) (sv_next_conn_id sv)"
  let ?conn = "\<lparr>sc_name = ?name, sc_loop = l, sc_sockfd = sockfd\<rparr>"
  let ?sv = "sv\<lparr>sv_pool := pool, sv_next_conn_id := sv_next_conn_id sv + 1,
       sv_connections := map_put ?name ?conn (sv_connections sv),
       sv_queued := sv_queued sv @ [(l, ConnectEstablished_functor ?conn)], sv_live := sv_live sv @ [?conn]\<rparr>"
  note new = fresh_name [OF assms]
  have "map_of (sv_connections ?sv) = map_of (map (\<lambda>c. (sc_name c, c)) (sv_live ?sv))"
  proof -
    have "map_of (sv_connections ?sv) = (map_of (sv_connections sv))(?name \<mapsto> ?conn)"
      using assms(1) by (simp add: sv_inv_def)
    moreover have "map_of (map (\<lambda>c. (sc_name c, c)) (sv_live sv)) ?name = None"
      using new by (simp add: map_of_eq_None_iff image_comp comp_def)
    ultimately show ?thesis using assms(1) by (auto simp: sv_inv_def map_add_def fun_eq_iff split: option.splits)
  qed
  moreover have "\<exists>i. 0 < i \<and> i < sv_next_conn_id ?sv \<and> sc_name conn = conn_name (sv_name ?sv) (sv_hostport ?sv) i"
    if "conn \<in> set (sv_live ?sv)" for conn
    using that assms(1) by (fastforce simp: sv_inv_def)
  moreover have "distinct (map sc_name (sv_live ?sv))" using new assms(1) by (auto simp: sv_inv_def)
  ultimately have "sv_inv ?sv" using assms pool(2) unfolding sv_inv_def by simp
  then show ?thesis using pool(1) assms by (simp add: TcpServer_NewConnection_def AssertInLoopThread_def Let_def)
qed

lemma remove1_filter_name:
  "distinct (map f xs) \<Longrightarrow> x \<in> set xs \<Longrightarrow> remove1 x xs = filter (\<lambda>y. f y \<noteq> f x) xs"
proof (induction xs)
  case (Cons y ys)
  show ?case
  proof (cases "y = x")
    case True
    with Cons.prems have "\<forall>z \<in> set ys. f z \<noteq> f x" by (metis distinct.simps(2) image_eqI list.simps(9) list.set_map)
    with True show ?thesis by (simp add: filter_id_conv)
  next
    case False
    with Cons have "f y \<noteq> f x" by auto
    with False Cons show ?thesis by simp
  qed
qed simp

lemma RemoveConnection_ok:
  assumes "sv_inv sv" "conn \<in> set (sv_live sv)"
  shows "\<exists>sv'. RemoveConnectionInLoop True conn sv = Inr sv' \<and> sv_inv sv'"
proof -
  let ?es = "sv_connections sv" and ?live = "sv_live sv" and ?n = "sc_name conn"
  have d: "distinct (map sc_name ?live)" and m: "map_of ?es = map_of (map (\<lambda>c. (sc_name c, c)) ?live)"
    and sm: "std_map ?es" using assms(1) by (simp_all add: sv_inv_def)
  have "map_of (map (\<lambda>c. (sc_name c, c)) ?live) ?n \<noteq> None"
    using assms(2) by (auto simp: map_of_eq_None_iff image_comp comp_def)
  then have mem: "?n \<in> fst ` set ?es" using m by (metis map_of_eq_None_iff)
  have rm: "remove1 conn ?live = filter (\<lambda>c. sc_name c \<noteq> ?n) ?live"
    by (rule remove1_filter_name [OF d assms(2)])
  have "map_of (map (\<lambda>c. (sc_name c, c)) (filter (\<lambda>c. sc_name c \<noteq> ?n) xs)) =
      (map_of (map (\<lambda>c. (sc_name c, c)) xs))(?n := None)" for xs :: "server_conn list"
    by (induction xs) (auto simp: fun_eq_iff)
  with m rm have m': "map_of (fst (map_erase ?n ?es)) = map_of (map (\<lambda>c. (sc_name c, c)) (remove1 conn ?live))"
    by (simp add: map_of_map_erase)
  have sm': "std_map (fst (map_erase ?n ?es))"
    using sm mem by (simp add: map_erase_def std_map_def sorted_wrt_map sorted_wrt_filter)
  have "distinct (map sc_name (remove1 conn ?live))" unfolding rm using d by (rule distinct_map_filter)
  with m' sm' assms(1) have "sv_inv (sv\<lparr>sv_connections := fst (map_erase ?n ?es),
      sv_queued := sv_queued sv @ [(sc_loop conn, ConnectDestroyed_functor conn)], sv_live := remove1 conn ?live\<rparr>)"
    by (auto simp: sv_inv_def dest: notin_set_remove1)
  then show ?thesis using mem
    by (auto simp: RemoveConnectionInLoop_def AssertInLoopThread_def map_erase_def)
qed

lemma TcpServer_Start_ok:
  assumes "TcpServer_new le loop addr name = Inr sv0" "TcpServer_set_thread_num n sv0 = Inr sv1"
  shows "\<exists>sv. TcpServer_Start StartLoop True has_cb sv1 = Inr sv \<and> sv_inv sv"
proof -
  obtain hostport where hp: "ToIpPort le addr = Inr hostport" using ToIpPort_text by blast
  note len = length_hostport [OF hp]
  show ?thesis using assms hp len
    by (auto simp: TcpServer_new_def TcpServer_set_thread_num_def TcpServer_Start_def set_thread_num_def
        EventLoopThreadPool_new_def pool_Start_def sv_inv_def pool_ok_def std_map_def Let_def split: if_splits)
qed

lemma sv_run_inv: "sv_run r \<Longrightarrow> \<exists>sv. r = Inr sv \<and> sv_inv sv"
proof (induction rule: sv_run.induct)
  case (sv_begin le loop addr name sv0 n sv1 StartLoop has_cb)
  then show ?case by (rule TcpServer_Start_ok)
next
  case (sv_again sv StartLoop in_loop has_cb)
  then show ?case by (auto simp: TcpServer_Start_def sv_inv_def)
qed (auto simp: NewConnection_ok RemoveConnection_ok)

section \<open>Properties\<close>

text \<open>
  The server's map is exactly its live connections: in every run no assertion fails (the name
  removed by the close callback is always there, \<^verbatim>\<open>n == 1\<close>), different live connections have different
  names, and looking a name up gives the connection that has it.
\<close>

lemma TcpServer_map_exact:
  assumes "sv_run r"
  shows "\<exists>sv. r = Inr sv \<and> distinct (map sc_name (sv_live sv))
    \<and> map_of (sv_connections sv) = map_of (map (\<lambda>c. (sc_name c, c)) (sv_live sv))"
  using sv_run_inv [OF assms] by (auto simp: sv_inv_def)

lemma sample_server:
  "\<exists>sv0 sv1 sv. TcpServer_new True 1 (InetAddress_port True 80 False) ''s'' = Inr sv0 \<and> TcpServer_set_thread_num 2 sv0 = Inr sv1
    \<and> TcpServer_Start (\<lambda>i. 10 + i) True False sv1 = Inr sv \<and> sv_run (Inr sv) \<and> sv_next_conn_id sv = 1
    \<and> sv_live sv = [] \<and> sv_pool sv = \<lparr>base_loop = 1, started = True, num_threads = 2, next_loop = 0, pool_loops = [10, 11]\<rparr>"
proof -
  obtain hp where "ToIpPort True (InetAddress_port True 80 False) = Inr hp" using ToIpPort_text by blast
  then obtain sv0 sv1 where s: "TcpServer_new True 1 (InetAddress_port True 80 False) ''s'' = Inr sv0"
    "TcpServer_set_thread_num 2 sv0 = Inr sv1"
    by (auto simp: TcpServer_new_def TcpServer_set_thread_num_def set_thread_num_def)
  from TcpServer_Start_ok [OF s] obtain sv where sv: "TcpServer_Start (\<lambda>i. 10 + i) True False sv1 = Inr sv" by blast
  then have "sv_run (Inr sv)" using sv_run.sv_begin [OF s, of "\<lambda>i. 10 + i" False] by simp
  with s sv \<open>ToIpPort True (InetAddress_port True 80 False) = Inr hp\<close> show ?thesis
    by (auto simp: TcpServer_new_def TcpServer_set_thread_num_def set_thread_num_def TcpServer_Start_def pool_Start_def
        EventLoopThreadPool_new_def Let_def numeral_2_eq_2)
qed

text \<open>
  The 32-byte array can cut a connection's number off: on the address \<^verbatim>\<open>255.255.255.255:65535\<close> the
  connections 100000000 and 100000001 get the same name. The second overwrites the first in
  the map, and when both have closed, the second removal fails the assertion \<^verbatim>\<open>n == 1\<close>.
\<close>

lemma Long_connection_names_collide:
  assumes "sv_hostport sv = ''255.255.255.255:65535''" "sv_next_conn_id sv = 100000000" "sv_connections sv = []"
    and "pool_ok (sv_pool sv)"
  shows "\<exists>sv1 sv2 c1 c2 sv3. TcpServer_NewConnection True 5 sv = Inr sv1 \<and> TcpServer_NewConnection True 6 sv1 = Inr sv2
    \<and> sv_live sv2 = sv_live sv @ [c1, c2] \<and> sc_name c1 = sc_name c2 \<and> sc_sockfd c1 \<noteq> sc_sockfd c2
    \<and> RemoveConnectionInLoop True c1 sv2 = Inr sv3
    \<and> RemoveConnectionInLoop True c2 sv3 = Inl (AssertFailed ''n == 1'')"
proof -
  from GetNextLoop_pool_ok [OF assms(4)] obtain l1 pool1 where p1: "GetNextLoop True (sv_pool sv) = Inr (l1, pool1)" "pool_ok pool1" by blast
  from GetNextLoop_pool_ok [OF p1(2)] obtain l2 pool2 where p2: "GetNextLoop True pool1 = Inr (l2, pool2)" by blast
  let ?n = "conn_name (sv_name sv) ''255.255.255.255:65535'' 100000000"
  have same: "conn_name (sv_name sv) ''255.255.255.255:65535'' 100000001 = ?n"
    by (simp add: conn_name_def decimal_def decimal_nat.simps digit_char_def snprintf_trunc_def)
  show ?thesis
    using assms p1 p2 same
    by (simp add: TcpServer_NewConnection_def AssertInLoopThread_def Let_def RemoveConnectionInLoop_def map_erase_def)
qed

end
