(* ===== verification/Tcp_Client.thy ===== *)
theory Tcp_Client
  imports Connector Decimal
begin

text \<open>
  \<^verbatim>\<open>muduo-cpp11/net/tcp_client.h\<close> and \<^verbatim>\<open>tcp_client.cpp\<close> on top of the connector: the client holds at most
  one connection and restarts the connector when it is lost. A connection is its name and socket;
  \<open>cl_destroyed\<close> and \<open>cl_shutdown\<close> list the connections handed to \<^verbatim>\<open>ConnectDestroyed\<close> and \<^verbatim>\<open>Shutdown\<close>, and
  the history variable \<open>cl_live\<close> those created and not yet removed.

  Shown, for client and connector together: there is never more than one live connection, it is the one the
  client knows, and no assertion of either fails; but a client without retry cannot connect twice.
\<close>

section \<open>TcpClient\<close>

record client_conn =
  cc_name :: string
  cc_sockfd :: int

record tcp_client =
  cl_connector :: connector
  cl_name :: string
  cl_retry :: bool
  cl_connect :: bool
  cl_next_conn_id :: int
  cl_connection :: "client_conn option"
  cl_destroyed :: "client_conn list"
  cl_shutdown :: "client_conn list"
  cl_live :: "client_conn list"

definition TcpClient_new :: "string \<Rightarrow> tcp_client" where
  "TcpClient_new name = \<lparr>cl_connector = Connector_new, cl_name = name, cl_retry = False, cl_connect = True,
     cl_next_conn_id = 1, cl_connection = None, cl_destroyed = [], cl_shutdown = [], cl_live = []\<rparr>"

definition EnableRetry :: "tcp_client \<Rightarrow> tcp_client" where
  "EnableRetry cl = cl\<lparr>cl_retry := True\<rparr>"

definition TcpClient_Connect :: "bool \<Rightarrow> int \<Rightarrow> int \<Rightarrow> tcp_client \<Rightarrow> tcp_client outcome" where
  "TcpClient_Connect in_loop fd err cl =
     and_then (Connector_Start in_loop fd err (cl_connector cl)) (\<lambda>co.
       Inr (cl\<lparr>cl_connect := True, cl_connector := co\<rparr>))"

definition TcpClient_Disconnect :: "tcp_client \<Rightarrow> tcp_client" where
  "TcpClient_Disconnect cl = cl\<lparr>cl_connect := False,
     cl_shutdown := cl_shutdown cl @ (case cl_connection cl of None \<Rightarrow> [] | Some conn \<Rightarrow> [conn])\<rparr>"

definition TcpClient_Stop :: "tcp_client \<Rightarrow> tcp_client" where
  "TcpClient_Stop cl = cl\<lparr>cl_connect := False, cl_connector := Connector_Stop (cl_connector cl)\<rparr>"

text \<open>\<open>peer\<close> is the text of the peer's address.\<close>

definition TcpClient_NewConnection :: "bool \<Rightarrow> string \<Rightarrow> int \<Rightarrow> tcp_client \<Rightarrow> tcp_client outcome" where
  "TcpClient_NewConnection in_loop peer sockfd cl =
     AssertInLoopThread in_loop
     (if cl_next_conn_id cl = 2 ^ 31 - 1 then Inl (UndefinedBehaviour ''++next_conn_id_'')
      else
        let conn = \<lparr>cc_name = cl_name cl @ snprintf_trunc 32 ('':'' @ peer @ ''#'' @ decimal (cl_next_conn_id cl)),
                    cc_sockfd = sockfd\<rparr>
        in Inr (cl\<lparr>cl_next_conn_id := cl_next_conn_id cl + 1, cl_connection := Some conn, cl_live := cl_live cl @ [conn]\<rparr>))"

definition TcpClient_RemoveConnection :: "bool \<Rightarrow> client_conn \<Rightarrow> int \<Rightarrow> int \<Rightarrow> tcp_client \<Rightarrow> tcp_client outcome" where
  "TcpClient_RemoveConnection in_loop conn fd err cl =
     AssertInLoopThread in_loop
     (asserting (cl_connection cl = Some conn) ''connection_ == conn''
      (let cl1 = cl\<lparr>cl_connection := None, cl_destroyed := cl_destroyed cl @ [conn], cl_live := remove1 conn (cl_live cl)\<rparr>
       in if cl_retry cl1 \<and> cl_connect cl1
          then and_then (Restart in_loop fd err (cl_connector cl1)) (\<lambda>co. Inr (cl1\<lparr>cl_connector := co\<rparr>))
          else Inr cl1))"

text \<open>The connector's write event with the client's callback bound to it.\<close>

definition TcpClient_HandleWrite :: "string \<Rightarrow> int \<Rightarrow> bool \<Rightarrow> tcp_client \<Rightarrow> tcp_client outcome" where
  "TcpClient_HandleWrite peer so_error self cl =
     and_then (Connector_HandleWrite so_error self (cl_connector cl)) (\<lambda>co.
       let cl1 = cl\<lparr>cl_connector := co\<rparr> in
       if length (co_delivered (cl_connector cl)) < length (co_delivered co)
       then TcpClient_NewConnection True peer (last (co_delivered co)) cl1 else Inr cl1)"

text \<open>Other steps of the connector do not involve the client.\<close>

definition with_connector :: "(connector \<Rightarrow> connector outcome) \<Rightarrow> tcp_client \<Rightarrow> tcp_client outcome" where
  "with_connector f cl = and_then (f (cl_connector cl)) (\<lambda>co. Inr (cl\<lparr>cl_connector := co\<rparr>))"

text \<open>
  The destructor: \<open>unique\<close> says that nobody else holds the connection; the result says whether it is forced
  to close.
\<close>

definition TcpClient_destroy :: "bool \<Rightarrow> tcp_client \<Rightarrow> client_conn option \<times> connector" where
  "TcpClient_destroy unique cl = (case cl_connection cl of
      Some conn \<Rightarrow> (if unique then Some conn else None, cl_connector cl)
    | None \<Rightarrow> (None, Connector_Stop (cl_connector cl)))"

section \<open>Runs\<close>

inductive client_run :: "tcp_client outcome \<Rightarrow> bool" where
  cl_begin: "client_run (Inr (TcpClient_new name))"
| cl_enable: "client_run (Inr cl) \<Longrightarrow> client_run (Inr (EnableRetry cl))"
| cl_connect: "client_run (Inr cl) \<Longrightarrow> connector_idle (cl_connector cl) \<Longrightarrow> 0 \<le> fd \<Longrightarrow>
    client_run (TcpClient_Connect in_loop fd err cl)"
| cl_disconnect: "client_run (Inr cl) \<Longrightarrow> client_run (Inr (TcpClient_Disconnect cl))"
| cl_stop: "client_run (Inr cl) \<Longrightarrow> client_run (Inr (TcpClient_Stop cl))"
| cl_functor: "client_run (Inr cl) \<Longrightarrow> co_pending (cl_connector cl) = f # fs \<Longrightarrow> 0 \<le> fd \<Longrightarrow>
    client_run (with_connector (\<lambda>co. run_connector_functor f fd err (co\<lparr>co_pending := fs\<rparr>)) cl)"
| cl_timer: "client_run (Inr cl) \<Longrightarrow> resets (cl_connector cl) = 0 \<Longrightarrow> co_timers (cl_connector cl) = d # ds \<Longrightarrow> 0 \<le> fd \<Longrightarrow>
    client_run (with_connector (\<lambda>co. StartInLoop True fd err (co\<lparr>co_timers := ds\<rparr>)) cl)"
| cl_event: "client_run (Inr cl) \<Longrightarrow> co_channel (cl_connector cl) = Some sockfd \<Longrightarrow> co_writing (cl_connector cl) \<Longrightarrow>
    cl_next_conn_id cl < 2 ^ 31 - 1 \<Longrightarrow>
    client_run (attempt_event sockfd got (with_connector Connector_HandleError) (TcpClient_HandleWrite peer so_error self) cl)"
| cl_close: "client_run (Inr cl) \<Longrightarrow> conn \<in> set (cl_live cl) \<Longrightarrow> resets (cl_connector cl) = 0 \<Longrightarrow> 0 \<le> fd \<Longrightarrow>
    client_run (TcpClient_RemoveConnection True conn fd err cl)"

definition client_inv :: "tcp_client \<Rightarrow> bool" where
  "client_inv cl \<longleftrightarrow> co_inv (cl_connector cl)
     \<and> cl_live cl = (case cl_connection cl of None \<Rightarrow> [] | Some conn \<Rightarrow> [conn])
     \<and> (cl_connection cl \<noteq> None \<longrightarrow> co_state (cl_connector cl) = Connector_kConnected)"

text \<open>A connector that is connected stays so until it is restarted.\<close>

lemma connected_functor:
  assumes "co_inv c" "co_state c = Connector_kConnected" "co_pending c = f # fs"
    and "run_connector_functor f fd err (c\<lparr>co_pending := fs\<rparr>) = Inr c'"
  shows "co_state c' = Connector_kConnected"
proof -
  have "f \<noteq> StartInLoop_functor" using assms(1-3) by (auto simp: co_inv_def)
  with assms(2,4) show ?thesis
    by (cases f) (auto simp: run_connector_functor_def StopInLoop_def AssertInLoopThread_def ResetChannel_def)
qed

lemma HandleWrite_delivers:
  assumes "Connector_HandleWrite so_error self c = Inr c'" "length (co_delivered c) < length (co_delivered c')"
  shows "co_state c' = Connector_kConnected"
proof -
  have "co_delivered (Retry fd d) = co_delivered d" for fd d
    by (simp add: Retry_def SetState_def close_socket_def Let_def)
  with assms show ?thesis
    by (auto simp: Connector_HandleWrite_def RemoveAndResetChannel_def and_then_Inr_iff asserting_Inr_iff SetState_def
        close_socket_def Let_def split: if_splits option.splits)
qed

lemma with_connector_ok:
  assumes "client_inv cl" "\<exists>co. f (cl_connector cl) = Inr co \<and> co_inv co"
    and "\<And>co. f (cl_connector cl) = Inr co \<Longrightarrow> cl_connection cl \<noteq> None \<Longrightarrow> co_state co = Connector_kConnected"
  shows "\<exists>cl'. with_connector f cl = Inr cl' \<and> client_inv cl'"
  using assms by (auto simp: with_connector_def client_inv_def)

lemma client_functor_ok:
  assumes "client_inv cl" "co_pending (cl_connector cl) = f # fs" "0 \<le> fd"
  shows "\<exists>cl'. with_connector (\<lambda>co. run_connector_functor f fd err (co\<lparr>co_pending := fs\<rparr>)) cl = Inr cl' \<and> client_inv cl'"
  using assms connected_functor [OF _ _ assms(2)] run_connector_functor_ok [OF _ assms(2,3)]
  by (intro with_connector_ok) (auto simp: client_inv_def)

lemma client_timer_ok:
  assumes "client_inv cl" "resets (cl_connector cl) = 0" "co_timers (cl_connector cl) = d # ds" "0 \<le> fd"
  shows "\<exists>cl'. with_connector (\<lambda>co. StartInLoop True fd err (co\<lparr>co_timers := ds\<rparr>)) cl = Inr cl' \<and> client_inv cl'"
proof (rule with_connector_ok [OF assms(1)])
  show "\<exists>co. StartInLoop True fd err ((cl_connector cl)\<lparr>co_timers := ds\<rparr>) = Inr co \<and> co_inv co"
    using timer_fires_ok [OF _ assms(2-4)] assms(1) by (simp add: client_inv_def)
  have "co_state (cl_connector cl) = Connector_kDisconnected" using assms(1,3) by (simp add: client_inv_def co_inv_def)
  then show "cl_connection cl \<noteq> None \<Longrightarrow> co_state co = Connector_kConnected" for co
    using assms(1) by (simp add: client_inv_def)
qed

lemma client_connecting:
  assumes "client_inv cl" "co_writing (cl_connector cl)"
  shows "cl_connection cl = None"
  using assms by (cases "cl_connection cl") (auto simp: client_inv_def co_inv_def)

lemma client_write_ok:
  assumes "client_inv cl" "co_writing (cl_connector cl)" "cl_next_conn_id cl < 2 ^ 31 - 1"
  shows "\<exists>cl'. TcpClient_HandleWrite peer so_error self cl = Inr cl' \<and> client_inv cl'"
proof -
  have "co_inv (cl_connector cl)" using assms(1) by (simp add: client_inv_def)
  from Connector_HandleWrite_ok [OF this assms(2)] obtain co where
    co: "Connector_HandleWrite so_error self (cl_connector cl) = Inr co" "co_inv co" by blast
  from HandleWrite_delivers [OF co(1)] co assms client_connecting [OF assms(1,2)] show ?thesis
    by (auto simp: TcpClient_HandleWrite_def TcpClient_NewConnection_def AssertInLoopThread_def client_inv_def Let_def)
qed

lemma client_event_ok:
  assumes "client_inv cl" "co_writing (cl_connector cl)" "cl_next_conn_id cl < 2 ^ 31 - 1"
  shows "\<exists>cl'. attempt_event sockfd got (with_connector Connector_HandleError) (TcpClient_HandleWrite peer so_error self) cl = Inr cl'
    \<and> client_inv cl'"
proof (cases "any_of got (POLLERR OR POLLNVAL)")
  case True
  have "co_inv (cl_connector cl)" using assms(1) by (simp add: client_inv_def)
  from Connector_HandleError_ok [OF this assms(2)] obtain co where
    "Connector_HandleError (cl_connector cl) = Inr co" "co_inv co" "co_state co = Connector_kDisconnected" by blast
  with True client_connecting [OF assms(1,2)] assms(1) show ?thesis
    by (simp add: attempt_event_steps with_connector_def TcpClient_HandleWrite_def Connector_HandleWrite_def client_inv_def)
qed (use client_write_ok [OF assms] assms(1) in \<open>simp add: attempt_event_steps\<close>)

lemma client_close_ok:
  assumes "client_inv cl" "conn \<in> set (cl_live cl)" "resets (cl_connector cl) = 0" "0 \<le> fd"
  shows "\<exists>cl'. TcpClient_RemoveConnection True conn fd err cl = Inr cl' \<and> client_inv cl'"
proof -
  have c: "cl_connection cl = Some conn" "cl_live cl = [conn]" "co_inv (cl_connector cl)"
    "co_state (cl_connector cl) = Connector_kConnected"
    using assms(1,2) by (auto simp: client_inv_def split: option.splits)
  from Restart_ok [OF c(3,4) assms(3,4), of err] c show ?thesis
    by (auto simp: TcpClient_RemoveConnection_def AssertInLoopThread_def client_inv_def Let_def)
qed

lemma Connector_Stop_inv: "co_inv c \<Longrightarrow> co_inv (Connector_Stop c) \<and> co_state (Connector_Stop c) = co_state c"
  by (auto simp: Connector_Stop_def co_inv_def held_sockets_def)

lemma client_run_inv: "client_run r \<Longrightarrow> \<exists>cl. r = Inr cl \<and> client_inv cl"
proof (induction rule: client_run.induct)
  case (cl_begin name)
  have "co_inv Connector_new" using connector_run_inv [OF connector_run.co_begin] by simp
  then show ?case by (simp add: client_inv_def TcpClient_new_def)
next
  case (cl_connect cl fd in_loop err)
  then have "co_inv (cl_connector cl)" "cl_connection cl = None"
    by (auto simp: client_inv_def connector_idle_def)
  with cl_connect Connector_Start_ok [of "cl_connector cl" fd in_loop err] show ?case
    by (auto simp: TcpClient_Connect_def client_inv_def)
qed (simp_all add: client_functor_ok client_timer_ok client_event_ok client_close_ok,
     simp_all add: client_inv_def EnableRetry_def TcpClient_Disconnect_def TcpClient_Stop_def Connector_Stop_inv)

section \<open>Properties\<close>


text \<open>A connection that was established and closed, without retry.\<close>

lemma closed_client:
  "\<exists>cl conn. client_run (Inr cl) \<and> cl_connection cl = None \<and> cl_destroyed cl = [conn]
    \<and> co_state (cl_connector cl) = Connector_kConnected"
proof -
  let ?c1 = "Connector_new\<lparr>co_connect := True, co_opened := [3], co_state := Connector_kConnecting, co_channel := Some 3, co_writing := True\<rparr>"
  let ?c2 = "?c1\<lparr>co_writing := False, co_pending := [ResetChannel_functor], co_state := Connector_kConnected, co_delivered := [3]\<rparr>"
  let ?c3 = "?c2\<lparr>co_pending := [], co_channel := None\<rparr>"
  let ?cl0 = "TcpClient_new ''c''"
  let ?conn = "\<lparr>cc_name = ''c'' @ snprintf_trunc 32 ('':'' @ ''p'' @ ''#'' @ decimal 1), cc_sockfd = 3\<rparr>"
  let ?cl1 = "?cl0\<lparr>cl_connector := ?c1\<rparr>"
  let ?cl2 = "?cl0\<lparr>cl_connector := ?c2, cl_next_conn_id := 2, cl_connection := Some ?conn, cl_live := [?conn]\<rparr>"
  let ?cl3 = "?cl2\<lparr>cl_connector := ?c3\<rparr>"
  let ?cl4 = "?cl3\<lparr>cl_connection := None, cl_destroyed := [?conn], cl_live := []\<rparr>"
  have "connector_idle (cl_connector ?cl0)" by (simp add: TcpClient_new_def idle_new)
  from client_run.cl_connect [OF client_run.cl_begin this, of 3 True 115] have r1: "client_run (Inr ?cl1)"
    by (simp add: TcpClient_Connect_def Connector_Start_def StartInLoop_def AssertInLoopThread_def Connect_def
        in_progress_errnos_def Connecting_def SetState_def TcpClient_new_def Connector_new_def)
  have r2: "client_run (Inr ?cl2)"
    using client_run.cl_event [OF r1, of 3 POLLOUT "''p''" 0 False]
    by (simp add: attempt_event_steps any_of_def poll_consts TcpClient_HandleWrite_def Connector_HandleWrite_def RemoveAndResetChannel_def SetState_def
        TcpClient_NewConnection_def AssertInLoopThread_def TcpClient_new_def Connector_new_def Let_def)
  have r3: "client_run (Inr ?cl3)"
    using client_run.cl_functor [OF r2, of ResetChannel_functor "[]" 0 0]
    by (simp add: with_connector_def run_connector_functor_def ResetChannel_def)
  have "client_run (Inr ?cl4)"
    using client_run.cl_close [OF r3, of ?conn 0 0]
    by (simp add: TcpClient_RemoveConnection_def AssertInLoopThread_def TcpClient_new_def)
  then show ?thesis by (intro exI [of _ ?cl4] exI [of _ ?conn]) simp
qed


text \<open>
  A client without retry cannot connect a second time: after its connection has closed the connector is
  still \<^verbatim>\<open>kConnected\<close>, and \<^verbatim>\<open>Connect()\<close> fails the assertion of \<^verbatim>\<open>StartInLoop\<close>.
\<close>

lemma Connect_after_close_aborts:
  "\<exists>cl conn. client_run (Inr cl) \<and> cl_connection cl = None \<and> cl_destroyed cl = [conn]
    \<and> (\<forall>fd err. TcpClient_Connect True fd err cl = Inl (AssertFailed ''state_ == kDisconnected''))"
proof -
  obtain cl conn where r: "client_run (Inr cl)" "cl_connection cl = None" "cl_destroyed cl = [conn]"
    "co_state (cl_connector cl) = Connector_kConnected"
    using closed_client by blast
  then have "TcpClient_Connect True fd err cl = Inl (AssertFailed ''state_ == kDisconnected'')" for fd err
    by (simp add: TcpClient_Connect_def Connector_Start_def StartInLoop_def AssertInLoopThread_def)
  with r show ?thesis by blast
qed

end
