(* ===== verification/Timestamp_Text.thy ===== *)
theory Timestamp_Text
  imports Timestamps Decimal
begin

text \<open>
  \<^verbatim>\<open>Timestamp::ToString\<close> and \<^verbatim>\<open>ToFormattedString\<close> of \<^verbatim>\<open>muduo-cpp11/base/timestamp.cpp\<close>. \<^verbatim>\<open>gmtime_r\<close> is a parameter
  that gives the broken-down time. Shown: the text of a timestamp after the epoch determines it, and
  the formatted text of a time in the years up to 9999 fits its array.
\<close>

section \<open>Padding\<close>

text \<open>\<^verbatim>\<open>%0nd\<close>: at least \<open>n\<close> characters, zeros after the sign.\<close>

definition zero_padded :: "nat \<Rightarrow> int \<Rightarrow> string" where
  "zero_padded n i =
     (let digits = decimal_nat (nat \<bar>i\<bar>); sign = (if i < 0 then ''-'' else [])
      in sign @ replicate (n - length sign - length digits) (CHR ''0'') @ digits)"

text \<open>\<^verbatim>\<open>%4d\<close>: at least four characters, blanks in front.\<close>

definition blank_padded :: "nat \<Rightarrow> int \<Rightarrow> string" where
  "blank_padded n i = replicate (n - length (decimal i)) (CHR '' '') @ decimal i"

section \<open>Texts\<close>

definition Timestamp_ToString :: "timestamp \<Rightarrow> string" where
  "Timestamp_ToString t =
     (let seconds = microseconds_since_epoch t sdiv kMicroSecondsPerSecond;
          microseconds = microseconds_since_epoch t smod kMicroSecondsPerSecond
      in snprintf_trunc 31 (decimal seconds @ ''.'' @ zero_padded 6 microseconds))"

record tm =
  tm_year :: int
  tm_mon :: int
  tm_mday :: int
  tm_hour :: int
  tm_min :: int
  tm_sec :: int

definition Timestamp_ToFormattedString :: "(int \<Rightarrow> tm) \<Rightarrow> bool \<Rightarrow> timestamp \<Rightarrow> string" where
  "Timestamp_ToFormattedString gmtime show_microseconds t =
     (let tm_time = gmtime (microseconds_since_epoch t sdiv kMicroSecondsPerSecond);
          date = blank_padded 4 (tm_year tm_time + 1900) @ zero_padded 2 (tm_mon tm_time + 1) @ zero_padded 2 (tm_mday tm_time)
            @ '' '' @ zero_padded 2 (tm_hour tm_time) @ '':'' @ zero_padded 2 (tm_min tm_time) @ '':'' @ zero_padded 2 (tm_sec tm_time)
      in if show_microseconds
         then snprintf_trunc 32 (date @ ''.'' @ zero_padded 6 (microseconds_since_epoch t smod kMicroSecondsPerSecond))
         else snprintf_trunc 32 date)"

section \<open>Lemmas\<close>

lemma parse_nat_zeros: "parse_nat (replicate k (CHR ''0'') @ s) = parse_nat s"
proof (induction k)
  case (Suc k)
  have "parse_nat (CHR ''0'' # xs) = parse_nat xs" for xs by (simp add: parse_nat_def undigit_def)
  with Suc show ?case by simp
qed simp

lemma length_zero_padded:
  "0 \<le> i \<Longrightarrow> i < 10 ^ n \<Longrightarrow> 0 < n \<Longrightarrow> length (zero_padded n i) = n"
  using length_decimal_nat [of "nat i" n] by (simp add: zero_padded_def nat_less_iff Let_def)

lemma parse_zero_padded: "0 \<le> i \<Longrightarrow> parse_nat (zero_padded n i) = nat i"
  by (simp add: zero_padded_def parse_nat_zeros Let_def)

text \<open>
  After the epoch and before the end of \<^verbatim>\<open>int64_t\<close>, the text of a timestamp determines it.
\<close>

lemma ToString_inj:
  assumes "0 \<le> microseconds_since_epoch t" "microseconds_since_epoch t < 2 ^ 63"
    and "0 \<le> microseconds_since_epoch u" "microseconds_since_epoch u < 2 ^ 63"
    and "Timestamp_ToString t = Timestamp_ToString u"
  shows "t = u"
proof -
  let ?k = kMicroSecondsPerSecond
  have shape: "\<exists>p. Timestamp_ToString t = decimal_nat (nat (m div ?k)) @ CHR ''.'' # p \<and> length p = 6 \<and> parse_nat p = nat (m mod ?k)"
    if m: "m = microseconds_since_epoch t" "0 \<le> m" "m < 2 ^ 63" for t m
  proof -
    have q: "m sdiv ?k = m div ?k" "m smod ?k = m mod ?k" "0 \<le> m div ?k" "0 \<le> m mod ?k" "m mod ?k < 10 ^ 6"
      using m(2) by (simp_all add: kMicroSecondsPerSecond_def signed_divide_int_def signed_modulo_int_def sgn_if)
    have "nat (m div ?k) < 10 ^ 14" using m(3) q(3) by (simp add: kMicroSecondsPerSecond_def nat_less_iff)
    then have len: "length (decimal_nat (nat (m div ?k))) \<le> 14" by (rule length_decimal_nat) simp
    have p: "length (zero_padded 6 (m mod ?k)) = 6" "parse_nat (zero_padded 6 (m mod ?k)) = nat (m mod ?k)"
      using q by (simp_all add: length_zero_padded parse_zero_padded)
    with len have "Timestamp_ToString t = decimal (m div ?k) @ ''.'' @ zero_padded 6 (m mod ?k)"
      unfolding Timestamp_ToString_def Let_def m(1) [symmetric] q(1,2)
      by (intro snprintf_fits) (use q(3) in \<open>simp add: decimal_def\<close>)
    with p q(3) show ?thesis by (intro exI [of _ "zero_padded 6 (m mod ?k)"]) (simp add: decimal_def)
  qed
  define m n where "m = microseconds_since_epoch t" and "n = microseconds_since_epoch u"
  from shape [OF m_def] shape [OF n_def] assms obtain p p' where
    "decimal_nat (nat (m div ?k)) @ CHR ''.'' # p = decimal_nat (nat (n div ?k)) @ CHR ''.'' # p'"
    "length p = 6" "length p' = 6" "parse_nat p = nat (m mod ?k)" "parse_nat p' = nat (n mod ?k)"
    by (auto simp: m_def n_def)
  then have "nat (m div ?k) = nat (n div ?k)" "nat (m mod ?k) = nat (n mod ?k)"
    by (auto simp: append_eq_append_conv decimal_nat_inj)
  moreover have "0 \<le> m div ?k" "0 \<le> n div ?k" "0 \<le> m mod ?k" "0 \<le> n mod ?k"
    using assms by (simp_all add: m_def n_def kMicroSecondsPerSecond_def)
  ultimately have "m = n" by (metis div_mult_mod_eq eq_nat_nat_iff)
  then show ?thesis by (simp add: m_def n_def timestamp.expand)
qed

text \<open>Broken-down times as \<^verbatim>\<open>gmtime_r\<close> gives them for the years 0 to 9999.\<close>

definition tm_ok :: "tm \<Rightarrow> bool" where
  "tm_ok x \<longleftrightarrow> tm_year x + 1900 \<in> {0..9999} \<and> tm_mon x \<in> {0..11} \<and> tm_mday x \<in> {1..31} \<and> tm_hour x \<in> {0..23}
     \<and> tm_min x \<in> {0..59} \<and> tm_sec x \<in> {0..60}"

lemma length_blank_padded: "0 \<le> i \<Longrightarrow> i < 10 ^ n \<Longrightarrow> 0 < n \<Longrightarrow> length (blank_padded n i) = n"
  using length_decimal_nat [of "nat i" n] by (simp add: blank_padded_def decimal_def nat_less_iff)

lemma ToFormattedString_fits:
  assumes "tm_ok (gmtime (microseconds_since_epoch t sdiv kMicroSecondsPerSecond))" "0 \<le> microseconds_since_epoch t"
  shows "length (Timestamp_ToFormattedString gmtime show_microseconds t) = (if show_microseconds then 24 else 17)"
proof -
  have "microseconds_since_epoch t smod kMicroSecondsPerSecond \<in> {0..<10 ^ 6}"
    using assms(2) by (simp add: kMicroSecondsPerSecond_def signed_modulo_int_def signed_divide_int_def sgn_if)
  with assms(1) show ?thesis
    by (simp add: Timestamp_ToFormattedString_def Let_def snprintf_trunc_def tm_ok_def length_zero_padded length_blank_padded)
qed

end
