(* ===== verification/Logger.thy ===== *)
theory Logger
  imports Timestamp_Text
begin

text \<open>
  \<^verbatim>\<open>muduo-cpp11/base/logging.h\<close> and \<^verbatim>\<open>logging.cpp\<close>: the library's own logger, used on the platforms without
  glog. \<open>lg_buf\<close> is what lies before \<^verbatim>\<open>current_buf_pos_\<close> in the 64 KB array, \<open>lg_out\<close> what \<^verbatim>\<open>write\<close> has
  taken so far, \<open>lg_synced\<close> what \<^verbatim>\<open>fsync\<close> has put on the disk. The formatted text, the broken-down local time and the thread id are arguments;
  \<open>sys_write\<close>, a parameter, says how many of the given bytes the system call took.

  Shown: the unchecked \<^verbatim>\<open>sprintf\<close> and \<^verbatim>\<open>memcpy\<close> stay inside the array, every line the level admits reaches
  the file once and in order, and all of them are there when the logger has been destroyed. Also shown: a fatal
  message that is too long does not end the program.
\<close>

section \<open>State\<close>

definition kLogLineMaxSize :: nat where "kLogLineMaxSize = 1024"

definition kLogBuffSize :: nat where "kLogBuffSize = 64 * 1024"

definition kTrace :: int where "kTrace = 0"

definition kDebug :: int where "kDebug = 1"

definition kInfo :: int where "kInfo = 2"

definition kWarn :: int where "kWarn = 3"

definition kError :: int where "kError = 4"

definition kFatal :: int where "kFatal = 5"

definition kNumLogLevels :: int where "kNumLogLevels = 6"

definition STDERR_FILENO :: int where "STDERR_FILENO = 2"

record logger =
  lg_fd :: int
  lg_cached :: bool
  lg_path :: string
  lg_buf :: string
  lg_out :: string
  lg_synced :: string

definition Logger_new :: logger where
  "Logger_new = \<lparr>lg_fd = STDERR_FILENO, lg_cached = False, lg_path = [], lg_buf = [], lg_out = [], lg_synced = []\<rparr>"

definition set_log_cached :: "bool \<Rightarrow> logger \<Rightarrow> logger" where
  "set_log_cached cached lg = lg\<lparr>lg_cached := cached\<rparr>"

text \<open>\<open>opened\<close> is the result of \<^verbatim>\<open>open\<close>; closing the previous file has no effect on the model.\<close>

definition set_log_file_path :: "int \<Rightarrow> string \<Rightarrow> logger \<Rightarrow> bool \<times> logger" where
  "set_log_file_path opened path lg =
     (if path = [] then (True, lg)
      else if opened < 0 then (False, lg)
      else (True, lg\<lparr>lg_fd := opened, lg_path := path\<rparr>))"

section \<open>Logging\<close>

text \<open>\<^verbatim>\<open>write\<close>, and with \<open>flush\<close> also \<^verbatim>\<open>fsync\<close> unless the log goes to standard error.\<close>

definition Fsync :: "(string \<Rightarrow> nat) \<Rightarrow> bool \<Rightarrow> logger \<Rightarrow> logger" where
  "Fsync sys_write flush lg =
     (let lg1 = lg\<lparr>lg_out := lg_out lg @ take (sys_write (lg_buf lg)) (lg_buf lg), lg_buf := []\<rparr>
      in if flush \<and> lg_fd lg1 \<noteq> STDERR_FILENO then lg1\<lparr>lg_synced := lg_out lg1\<rparr> else lg1)"

record log_call =
  lc_priority :: int
  lc_caption :: string
  lc_need_sync :: bool
  lc_file :: string
  lc_func :: string
  lc_line :: int
  lc_text :: string
  lc_time :: tm
  lc_milliseconds :: int
  lc_tid :: int

text \<open>The file name after its last slash.\<close>

definition basename :: "string \<Rightarrow> string" where
  "basename s = rev (takeWhile (\<lambda>c. c \<noteq> CHR ''/'') (rev s))"

definition log_header :: "log_call \<Rightarrow> string" where
  "log_header c = (let t = lc_time c in
     ''['' @ zero_padded 4 (tm_year t + 1900) @ ''-'' @ zero_padded 2 (tm_mon t + 1) @ ''-'' @ zero_padded 2 (tm_mday t)
     @ '' '' @ zero_padded 2 (tm_hour t) @ '':'' @ zero_padded 2 (tm_min t) @ '':'' @ zero_padded 2 (tm_sec t)
     @ '':'' @ zero_padded 3 (lc_milliseconds c) @ ''] [tid='' @ decimal (lc_tid c) @ ''] ['' @ basename (lc_file c)
     @ ''::'' @ lc_func c @ '':'' @ decimal (lc_line c) @ ''] '' @ lc_caption c @ '' - '')"

definition log_line :: "log_call \<Rightarrow> string" where
  "log_line c = log_header c @ lc_text c @ [CHR 0x0A]"

text \<open>
  \<^verbatim>\<open>sprintf\<close> also writes the terminating zero; \<^verbatim>\<open>vsnprintf\<close> returns the length of the whole text.
\<close>

definition Log :: "(string \<Rightarrow> nat) \<Rightarrow> log_call \<Rightarrow> logger \<Rightarrow> logger outcome" where
  "Log sys_write c lg =
     (let text_len = length (lc_text c) in
      if lc_priority c \<ge> kNumLogLevels then Inr lg
      else if text_len + 128 > kLogLineMaxSize then Inr lg
      else
        let lg1 = (if length (lg_buf lg) + text_len + 128 > kLogLineMaxSize then Fsync sys_write False lg else lg);
            header = log_header c;
            pos = length (lg_buf lg1)
        in if pos + length header + 1 > kLogBuffSize \<or> pos + length header + text_len + 1 > kLogBuffSize
           then Inl (UndefinedBehaviour ''write past log_buf_'')
           else
             let lg2 = lg1\<lparr>lg_buf := lg_buf lg1 @ log_line c\<rparr>;
                 lg3 = (if \<not> lg_cached lg2 \<or> lc_need_sync c then Fsync sys_write False lg2 else lg2)
             in if lc_priority c = kFatal then Inl (LogFatal (lc_text c)) else Inr lg3)"

definition ForceSync :: "(string \<Rightarrow> nat) \<Rightarrow> logger \<Rightarrow> logger" where
  "ForceSync sys_write lg = Fsync sys_write False lg"

text \<open>The destructor: buffered lines are written and synced, the file is closed.\<close>

definition Logger_destroy :: "(string \<Rightarrow> nat) \<Rightarrow> logger \<Rightarrow> logger" where
  "Logger_destroy sys_write lg =
     (if lg_fd lg > 0
      then let lg1 = (if lg_buf lg \<noteq> [] then (Fsync sys_write True lg)\<lparr>lg_buf := []\<rparr> else lg)
           in if lg_fd lg1 \<noteq> STDERR_FILENO then lg1\<lparr>lg_fd := STDERR_FILENO\<rparr> else lg1
      else lg)"

section \<open>The macros\<close>

text \<open>
  What a macro makes of a call site, whose file, function, line and text it passes on. \<^verbatim>\<open>LogInfo\<close>, \<^verbatim>\<open>LogDebug\<close> and
  \<^verbatim>\<open>LogTrace\<close> look at the level \<^verbatim>\<open>g_log_level\<close> first; only \<^verbatim>\<open>LogInfo\<close> leaves its line to the cache.
\<close>

definition g_log_level :: int where "g_log_level = kInfo"

definition at_level :: "int \<Rightarrow> string \<Rightarrow> bool \<Rightarrow> log_call \<Rightarrow> log_call" where
  "at_level priority caption need_sync c = c\<lparr>lc_priority := priority, lc_caption := caption, lc_need_sync := need_sync\<rparr>"

definition LogFatal_macro :: "(string \<Rightarrow> nat) \<Rightarrow> log_call \<Rightarrow> logger \<Rightarrow> logger outcome" where
  "LogFatal_macro sys_write c lg = Log sys_write (at_level kFatal ''FATAL'' True c) lg"

definition LogError :: "(string \<Rightarrow> nat) \<Rightarrow> log_call \<Rightarrow> logger \<Rightarrow> logger outcome" where
  "LogError sys_write c lg = Log sys_write (at_level kError ''ERROR'' True c) lg"

definition LogWarn :: "(string \<Rightarrow> nat) \<Rightarrow> log_call \<Rightarrow> logger \<Rightarrow> logger outcome" where
  "LogWarn sys_write c lg = Log sys_write (at_level kWarn ''WARN'' True c) lg"

definition LogInfo :: "int \<Rightarrow> (string \<Rightarrow> nat) \<Rightarrow> log_call \<Rightarrow> logger \<Rightarrow> logger outcome" where
  "LogInfo level sys_write c lg =
     (if kInfo \<ge> level then Log sys_write (at_level kInfo ''INFO'' False c) lg else Inr lg)"

definition LogDebug :: "int \<Rightarrow> (string \<Rightarrow> nat) \<Rightarrow> log_call \<Rightarrow> logger \<Rightarrow> logger outcome" where
  "LogDebug level sys_write c lg =
     (if kDebug \<ge> level then Log sys_write (at_level kDebug ''DEBUG'' True c) lg else Inr lg)"

definition LogTrace :: "int \<Rightarrow> (string \<Rightarrow> nat) \<Rightarrow> log_call \<Rightarrow> logger \<Rightarrow> logger outcome" where
  "LogTrace level sys_write c lg =
     (if kTrace \<ge> level then Log sys_write (at_level kTrace ''TRACE'' True c) lg else Inr lg)"

definition CHECK :: "(string \<Rightarrow> nat) \<Rightarrow> bool \<Rightarrow> string \<Rightarrow> string \<Rightarrow> log_call \<Rightarrow> logger \<Rightarrow> logger outcome" where
  "CHECK sys_write condition condition_text message c lg =
     (if condition then Inr lg
      else LogFatal_macro sys_write (c\<lparr>lc_text := ''Check failed: '' @ condition_text @ '', '' @ message\<rparr>) lg)"

definition CheckNotNull :: "(string \<Rightarrow> nat) \<Rightarrow> log_call \<Rightarrow> 'p option \<Rightarrow> logger \<Rightarrow> ('p option \<times> logger) outcome" where
  "CheckNotNull sys_write c ptr lg =
     and_then (if ptr = None then Log sys_write (at_level kFatal ''FATAL'' True c) lg else Inr lg) (\<lambda>lg'. Inr (ptr, lg'))"

text \<open>The macros that return, as one operation.\<close>

datatype log_macro = Macro_Error | Macro_Warn | Macro_Info | Macro_Debug | Macro_Trace

definition run_macro :: "int \<Rightarrow> (string \<Rightarrow> nat) \<Rightarrow> log_macro \<times> log_call \<Rightarrow> logger \<Rightarrow> logger outcome" where
  "run_macro level sys_write mc lg = (case mc of (m, c) \<Rightarrow> (case m of
       Macro_Error \<Rightarrow> LogError sys_write c lg
     | Macro_Warn \<Rightarrow> LogWarn sys_write c lg
     | Macro_Info \<Rightarrow> LogInfo level sys_write c lg
     | Macro_Debug \<Rightarrow> LogDebug level sys_write c lg
     | Macro_Trace \<Rightarrow> LogTrace level sys_write c lg))"

text \<open>What a macro is meant to do: the call it makes, if the level admits it.\<close>

fun macro_call :: "int \<Rightarrow> log_macro \<times> log_call \<Rightarrow> log_call option" where
  "macro_call level (Macro_Error, c) = Some (at_level kError ''ERROR'' True c)"
| "macro_call level (Macro_Warn, c) = Some (at_level kWarn ''WARN'' True c)"
| "macro_call level (Macro_Info, c) = (if level \<le> kInfo then Some (at_level kInfo ''INFO'' False c) else None)"
| "macro_call level (Macro_Debug, c) = (if level \<le> kDebug then Some (at_level kDebug ''DEBUG'' True c) else None)"
| "macro_call level (Macro_Trace, c) = (if level \<le> kTrace then Some (at_level kTrace ''TRACE'' True c) else None)"

section \<open>Lemmas\<close>

definition logged :: "log_call \<Rightarrow> bool" where
  "logged c \<longleftrightarrow> lc_priority c < kNumLogLevels \<and> length (lc_text c) + 128 \<le> kLogLineMaxSize"

definition logged_text :: "log_call list \<Rightarrow> string" where
  "logged_text cs = concat (map log_line (filter logged cs))"

text \<open>Calls that are not fatal and whose header (file, function, caption) is below 64 KB less one line.\<close>

definition log_call_ok :: "log_call \<Rightarrow> bool" where
  "log_call_ok c \<longleftrightarrow> lc_priority c \<noteq> kFatal \<and> length (log_header c) < 64000"

lemmas log_consts = kLogLineMaxSize_def kLogBuffSize_def kFatal_def kNumLogLevels_def kTrace_def kDebug_def kInfo_def
  kWarn_def kError_def

lemma Fsync_all:
  assumes "\<And>s. sys_write s = length s"
  shows "lg_out (Fsync sys_write flush lg) = lg_out lg @ lg_buf lg" "lg_buf (Fsync sys_write flush lg) = []"
    "lg_cached (Fsync sys_write flush lg) = lg_cached lg" "lg_fd (Fsync sys_write flush lg) = lg_fd lg"
  using assms by (simp_all add: Fsync_def Let_def)

lemma Log_step:
  assumes "\<And>s. sys_write s = length s" "log_call_ok c" "lg_cached lg \<or> lg_buf lg = []"
  shows "\<exists>lg'. Log sys_write c lg = Inr lg' \<and> lg_out lg' @ lg_buf lg' = (lg_out lg @ lg_buf lg) @ logged_text [c]
    \<and> lg_cached lg' = lg_cached lg \<and> lg_fd lg' = lg_fd lg \<and> (lg_cached lg' \<or> lg_buf lg' = [])"
proof (cases "logged c")
  case False
  then show ?thesis using assms(3) by (auto simp: Log_def logged_def logged_text_def Let_def)
next
  case True
  let ?flush = "length (lg_buf lg) + length (lc_text c) + 128 > kLogLineMaxSize"
  let ?lg1 = "if ?flush then Fsync sys_write False lg else lg"
  have "length (lg_buf ?lg1) + length (lc_text c) \<le> 896"
    using True Fsync_all [OF assms(1)] by (auto simp: logged_def log_consts)
  then have "length (lg_buf ?lg1) + length (log_header c) + 1 \<le> kLogBuffSize"
    "length (lg_buf ?lg1) + length (log_header c) + length (lc_text c) + 1 \<le> kLogBuffSize"
    using assms(2) by (auto simp: log_call_ok_def log_consts)
  moreover have "lg_out ?lg1 @ lg_buf ?lg1 = lg_out lg @ lg_buf lg" "lg_cached ?lg1 = lg_cached lg" "lg_fd ?lg1 = lg_fd lg"
    using Fsync_all [OF assms(1)] by auto
  ultimately show ?thesis
    using True assms(2) Fsync_all [OF assms(1)]
    by (auto simp: Log_def logged_def logged_text_def log_call_ok_def log_consts Let_def not_less)
qed

lemma Log_all:
  assumes "\<And>s. sys_write s = length s" "list_all log_call_ok cs" "lg_cached lg \<or> lg_buf lg = []"
  shows "\<exists>lg'. for_each (Log sys_write) cs lg = Inr lg' \<and> lg_out lg' @ lg_buf lg' = (lg_out lg @ lg_buf lg) @ logged_text cs
    \<and> lg_cached lg' = lg_cached lg \<and> lg_fd lg' = lg_fd lg \<and> (lg_cached lg' \<or> lg_buf lg' = [])"
  using assms(2,3)
proof (induction cs arbitrary: lg)
  case Nil
  then show ?case by (simp add: logged_text_def)
next
  case (Cons c cs)
  from Cons.prems Log_step [OF assms(1), of c lg] obtain lg1 where
    lg1: "Log sys_write c lg = Inr lg1" "lg_out lg1 @ lg_buf lg1 = (lg_out lg @ lg_buf lg) @ logged_text [c]"
    "lg_cached lg1 \<or> lg_buf lg1 = []" "lg_cached lg1 = lg_cached lg" "lg_fd lg1 = lg_fd lg" by auto
  from Cons.IH [OF _ lg1(3)] Cons.prems lg1(1,2,4,5) show ?case by (auto simp: logged_text_def)
qed

lemma run_macro_call:
  "run_macro level sys_write mc lg = (case macro_call level mc of None \<Rightarrow> Inr lg | Some c \<Rightarrow> Log sys_write c lg)"
  by (cases mc, cases "fst mc") (auto simp: run_macro_def LogError_def LogWarn_def LogInfo_def LogDebug_def LogTrace_def)

text \<open>The calls that a sequence of macros makes.\<close>

definition macro_calls :: "int \<Rightarrow> (log_macro \<times> log_call) list \<Rightarrow> log_call list" where
  "macro_calls level mcs = List.map_filter (macro_call level) mcs"

lemma run_macros: "for_each (run_macro level sys_write) mcs lg = for_each (Log sys_write) (macro_calls level mcs) lg"
proof (induction mcs arbitrary: lg)
  case (Cons mc mcs)
  then show ?case
    by (cases "macro_call level mc"; cases "run_macro level sys_write mc lg")
      (auto simp: run_macro_call macro_calls_def map_filter_def fun_eq_iff and_then_def)
qed (simp add: macro_calls_def map_filter_def)

text \<open>What is on the disk afterwards, when the log goes to a file.\<close>

lemma Logger_destroy_all:
  assumes "\<And>s. sys_write s = length s" "0 < lg_fd lg"
  shows "lg_out (Logger_destroy sys_write lg) = lg_out lg @ lg_buf lg" "lg_buf (Logger_destroy sys_write lg) = []"
    "lg_buf lg \<noteq> [] \<Longrightarrow> lg_fd lg \<noteq> STDERR_FILENO \<Longrightarrow> lg_synced (Logger_destroy sys_write lg) = lg_out lg @ lg_buf lg"
  using assms by (auto simp: Logger_destroy_def Fsync_def Let_def)

text \<open>
  \<^verbatim>\<open>CHECK\<close> and \<^verbatim>\<open>CHECK_NOTNULL\<close> promise to die when their condition fails. They do unless the text is longer than a line
  may be: then \<^verbatim>\<open>Log\<close> returns before it looks at the priority, and the program goes on.
\<close>

lemma Long_fatal_message_returns:
  assumes "length condition_text + length message > 880"
  shows "CHECK sys_write False condition_text message c lg = Inr lg"
    and "length (lc_text c) > 896 \<Longrightarrow> CheckNotNull sys_write c None lg = Inr (None, lg)"
  using assms by (simp_all add: CHECK_def CheckNotNull_def LogFatal_macro_def at_level_def Log_def log_consts)

section \<open>Properties\<close>



end
