(* ===== verification/Conn_Session.thy ===== *)
theory Conn_Session
  imports Tcp_Connection
begin

text \<open>
  A whole connection as its user sees it: the connection, the value the user keeps in its \<^verbatim>\<open>context_\<close> slot
  (\<^verbatim>\<open>net/tcp_connection.h\<close>) and a message callback that reads and changes that value. \<open>se_reads\<close> is the history of
  what was read, one entry per call of the message callback. The connection callback of the users modelled here makes
  no calls on the connection.

  The locale \<open>session_user\<close> states what a message callback must do to implement an abstract server, a function from
  what was read to what is sent; it is interpreted on the HTTP server and on the echo server. Shown inside it: every
  run of such a connection sends exactly what the abstract server says.
\<close>

section \<open>Sessions\<close>

record 'u session =
  se_context :: 'u
  se_reads :: "(timestamp \<times> char list) list"

type_synonym 'u message_handler = "timestamp \<Rightarrow> buffer \<Rightarrow> 'u \<Rightarrow> (user_call list \<times> 'u) outcome"
type_synonym 'u session_conn = "channel \<times> tcp_connection \<times> 'u session"

definition silent_user :: user where
  "silent_user ev s = []"

definition session_HandleRead ::
  "'u message_handler \<Rightarrow> write_call \<Rightarrow> readv_call \<Rightarrow> timestamp \<Rightarrow> 'u session_conn \<Rightarrow> 'u session_conn outcome" where
  "session_HandleRead on_message write readv receive_time s = (case s of (ch, c, u) \<Rightarrow>
     and_then (ReadFd readv (input_buffer c)) (\<lambda>(n, saved_errno, ib).
     and_then (if n > 0 then on_message receive_time ib (se_context u) else Inr ([], se_context u)) (\<lambda>(calls, x).
     and_then (HandleRead (\<lambda>ev _. if ev = Message_callback then calls else []) write readv receive_time (ch, c))
       (\<lambda>(ch', c'). Inr (ch', c', u\<lparr>se_context := x, se_reads := se_reads u
          @ (if n > 0 then [(receive_time, drop (length (content (input_buffer c))) (content ib))] else [])\<rparr>)))))"

definition keeping :: "(conn \<Rightarrow> conn outcome) \<Rightarrow> 'u session_conn \<Rightarrow> 'u session_conn outcome" where
  "keeping f s = (case s of (ch, c, u) \<Rightarrow> and_then (f (ch, c)) (\<lambda>(ch', c'). Inr (ch', c', u)))"

definition session_HandleEvent ::
  "'u message_handler \<Rightarrow> write_call \<Rightarrow> readv_call \<Rightarrow> timestamp \<Rightarrow> events \<Rightarrow> 'u session_conn \<Rightarrow> 'u session_conn outcome" where
  "session_HandleEvent on_message write readv t got s =
     HandleEvent \<lparr>read_callback = Some (session_HandleRead on_message write readv),
                  write_callback = Some (keeping (HandleWrite write)),
                  close_callback = Some (keeping (HandleClose silent_user write)),
                  error_callback = Some (keeping HandleError)\<rparr> t (fst s\<lparr>ch_revents := got\<rparr>, snd s)"

inductive session_run :: "'u message_handler \<Rightarrow> 'u \<Rightarrow> 'u session_conn \<Rightarrow> bool"
  for on_message :: "'u message_handler" and x :: 'u where
  establish: "TcpConnection_new fd False False = Inr s \<Longrightarrow> write_ok write \<Longrightarrow>
    ConnectEstablished silent_user write s = Inr (ch, c) \<Longrightarrow> session_run on_message x (ch, c, \<lparr>se_context = x, se_reads = []\<rparr>)"
| event: "session_run on_message x s \<Longrightarrow> \<not> IsNoneEvent (fst s) \<Longrightarrow> reported got \<Longrightarrow> write_ok write \<Longrightarrow> write_healthy write \<Longrightarrow>
    readv_fits readv \<Longrightarrow> session_HandleEvent on_message write readv t got s = Inr s' \<Longrightarrow> session_run on_message x s'"
| destroy: "session_run on_message x (ch, c, u) \<Longrightarrow> tc_state c = kConnected \<or> tc_state c = kDisconnected \<Longrightarrow> write_ok write \<Longrightarrow>
    ConnectDestroyed silent_user write (ch, c) = Inr (ch', c') \<Longrightarrow> session_run on_message x (ch', c', u)"

section \<open>Replies\<close>

text \<open>
  What a list of sends and shutdowns puts on an open connection, and whether it leaves it open: nothing is
  accepted after the first shutdown.
\<close>

fun replies :: "user_call list \<Rightarrow> char list \<times> bool" where
  "replies [] = ([], True)"
| "replies (User_Send data # us) = (data @ fst (replies us), snd (replies us))"
| "replies (User_Shutdown # us) = ([], False)"
| "replies (_ # us) = replies us"

fun is_reply :: "user_call \<Rightarrow> bool" where
  "is_reply (User_Send data) = (length data < 2 ^ 63)"
| "is_reply User_Shutdown = True"
| "is_reply _ = False"

text \<open>A closing connection whose output is empty has shut its write side down.\<close>

definition settled :: "conn \<Rightarrow> bool" where
  "settled s \<longleftrightarrow> conn_live s
     \<and> (tc_state (snd s) = kDisconnecting \<longrightarrow> (write_shut (snd s) \<longleftrightarrow> content (output_buffer (snd s)) = []))"

definition replied :: "conn \<Rightarrow> user_call list \<Rightarrow> conn \<Rightarrow> bool" where
  "replied s us s' \<longleftrightarrow> settled s' \<and> input_buffer (snd s') = input_buffer (snd s) \<and> ch_revents (fst s') = ch_revents (fst s)
     \<and> accepted (snd s') = accepted (snd s) @ (if tc_state (snd s) = kConnected then fst (replies us) else [])
     \<and> tc_state (snd s') = (if tc_state (snd s) = kConnected \<and> \<not> snd (replies us) then kDisconnecting else tc_state (snd s))"

lemma reply_when_closed: "is_reply us \<Longrightarrow> tc_state (snd s) \<noteq> kConnected \<Longrightarrow> run_user_call write us s = Inr s"
  by (cases us) (auto simp: run_user_call_def Send_def Shutdown_def)

lemma replies_when_closed:
  "list_all is_reply us \<Longrightarrow> tc_state (snd s) \<noteq> kConnected \<Longrightarrow> for_each (run_user_call write) us s = Inr s"
  by (induction us) (simp_all add: reply_when_closed)

lemma Send_reply:
  assumes "write_ok write" "write_healthy write" "settled s" "tc_state (snd s) = kConnected" "length data < 2 ^ 63"
  shows "barring {LengthError} (\<lambda>s'. settled s' \<and> tc_state (snd s') = kConnected \<and> input_buffer (snd s') = input_buffer (snd s)
    \<and> ch_revents (fst s') = ch_revents (fst s) \<and> accepted (snd s') = accepted (snd s) @ data) (Send True write data s)"
proof -
  have l: "conn_live s" "conn_inv s" using assms(3) by (simp_all add: settled_def conn_live_def)
  show ?thesis
    using Send_accepts [OF assms(1,2) l(2) assms(4,5)] SendInLoop_ok [OF assms(1) l(1) assms(5)] assms(4)
    by (cases "Send True write data s") (auto simp: Send_def settled_def conn_frame_def)
qed

lemma Shutdown_reply:
  assumes "settled s" "tc_state (snd s) = kConnected"
  shows "\<exists>s'. Shutdown True s = Inr s' \<and> settled s' \<and> tc_state (snd s') = kDisconnecting
    \<and> input_buffer (snd s') = input_buffer (snd s) \<and> ch_revents (fst s') = ch_revents (fst s) \<and> accepted (snd s') = accepted (snd s)"
  using assms
  by (cases s) (auto simp: Shutdown_def ShutdownInLoop_def AssertInLoopThread_def settled_def conn_live_def conn_inv_def)

lemma run_replies:
  assumes "write_ok write" "write_healthy write"
  shows "list_all is_reply us \<Longrightarrow> settled s \<Longrightarrow> barring {LengthError} (replied s us) (for_each (run_user_call write) us s)"
proof (induction us arbitrary: s)
  case Nil
  then show ?case by (simp add: replied_def)
next
  case (Cons u us)
  show ?case
  proof (cases "tc_state (snd s) = kConnected")
    case False
    with Cons.prems replies_when_closed [of "u # us" s] show ?thesis by (simp add: replied_def)
  next
    case True
    note here = Cons.prems True
    consider data where "u = User_Send data" "length data < 2 ^ 63" | "u = User_Shutdown"
      using Cons.prems(1) by (cases u) auto
    then show ?thesis
    proof cases
      case 1
      then have run: "run_user_call write u s = Send True write data s" by (simp add: run_user_call_def)
      show ?thesis unfolding for_each.simps run
      proof (rule barring_and_then [OF Send_reply [OF assms here(2) True 1(2)]])
        fix s1
        assume s1: "settled s1 \<and> tc_state (snd s1) = kConnected \<and> input_buffer (snd s1) = input_buffer (snd s)
          \<and> ch_revents (fst s1) = ch_revents (fst s) \<and> accepted (snd s1) = accepted (snd s) @ data"
        then have "barring {LengthError} (replied s1 us) (for_each (run_user_call write) us s1)"
          using Cons.IH here(1) by simp
        then show "barring {LengthError} (replied s (u # us)) (for_each (run_user_call write) us s1)"
          by (rule barring_mono) (use s1 True 1(1) in \<open>auto simp: replied_def split: if_splits\<close>)
      qed
    next
      case 2
      from Shutdown_reply [OF here(2) True] obtain s1 where
        s1: "Shutdown True s = Inr s1" "settled s1" "tc_state (snd s1) = kDisconnecting"
          "input_buffer (snd s1) = input_buffer (snd s)" "ch_revents (fst s1) = ch_revents (fst s)" "accepted (snd s1) = accepted (snd s)"
        by blast
      moreover have "for_each (run_user_call write) us s1 = Inr s1"
        using here(1) s1(3) by (intro replies_when_closed) auto
      moreover have "run_user_call write u s = Shutdown True s" using 2 by (simp add: run_user_call_def)
      ultimately show ?thesis using 2 True by (simp add: replied_def)
    qed
  qed
qed

lemma HandleWrite_settled:
  assumes "write_ok write" "settled s"
  shows "\<exists>s'. HandleWrite write s = Inr s' \<and> settled s' \<and> tc_state (snd s') = tc_state (snd s)
    \<and> input_buffer (snd s') = input_buffer (snd s) \<and> ch_revents (fst s') = ch_revents (fst s) \<and> accepted (snd s') = accepted (snd s)"
proof -
  have live: "conn_live s" using assms(2) by (simp add: settled_def)
  from HandleWrite_effect [OF assms(1) live] obtain s' where s': "HandleWrite write s = Inr s'" "conn_live s'"
    "tc_state (snd s') = tc_state (snd s)" "ch_revents (fst s') = ch_revents (fst s)"
    "accepted (snd s') = accepted (snd s)" "input_buffer (snd s') = input_buffer (snd s)"
    "s' \<noteq> s \<and> tc_state (snd s) = kDisconnecting \<and> content (output_buffer (snd s')) = [] \<longrightarrow> write_shut (snd s')" by blast
  have "write_shut (snd s') \<longrightarrow> content (output_buffer (snd s')) = []" if "tc_state (snd s') = kDisconnecting"
    using s'(2) that by (cases s') (simp add: conn_live_def conn_inv_def)
  with s' assms(2) have "settled s'" unfolding settled_def by metis
  with s' show ?thesis by blast
qed

lemma HandleClose_quiet:
  assumes "tc_state c = kConnected \<or> tc_state c = kDisconnecting" "\<And>ev s. ev \<noteq> Message_callback \<Longrightarrow> user ev s = []"
  shows "HandleClose user write (ch, c) = Inr (with_events (\<lambda>_. kNoneEvent) ch,
    c\<lparr>tc_state := kDisconnected, callback_log := callback_log c @ [Connection_callback kDisconnected, Close_callback]\<rparr>)"
  using assms by (simp add: HandleClose_def call_user_def)

lemma settled_simps:
  "settled (ch, c\<lparr>callback_log := l\<rparr>) = settled (ch, c)"
  "settled (ch\<lparr>ch_revents := r\<rparr>, c) = settled (ch, c)" "settled (ch\<lparr>event_handling := b\<rparr>, c) = settled (ch, c)"
  "wf_buffer ib \<Longrightarrow> settled (ch, c) \<Longrightarrow> settled (ch, c\<lparr>input_buffer := ib\<rparr>)"
  "settled (ch\<lparr>added_to_loop := b\<rparr>, c) = settled (ch, c)"
  by (simp_all add: settled_def conn_live_def conn_inv_def IsNoneEvent_def IsWriting_def)

lemma settled_close: "settled (ch, c) \<Longrightarrow> settled (with_events (\<lambda>_. kNoneEvent) ch, c\<lparr>tc_state := kDisconnected\<rparr>)"
  using disconnect_live [of ch c] by (simp add: settled_def)

section \<open>Abstract servers\<close>

text \<open>
  \<open>serve\<close> is the abstract server: what it has sent and whether it keeps the connection open after each piece
  of input, whatever the sizes of reads and writes. \<open>holds\<close> relates its state to the context and to the
  unread bytes of the connection, \<open>failures\<close> says for which reasons the callback may stop the program.
\<close>

locale session_user =
  fixes on_message :: "'u message_handler" and x0 :: 'u
    and serve :: "timestamp \<times> char list \<Rightarrow> 'v \<Rightarrow> 'v" and start :: 'v
    and sent :: "'v \<Rightarrow> char list" and still_open :: "'v \<Rightarrow> bool"
    and holds :: "'v \<Rightarrow> 'u \<Rightarrow> char list \<Rightarrow> bool" and failures :: "'v \<Rightarrow> abort set"
  assumes start: "sent start = []" "still_open start" "holds start x0 []"
    and handler: "wf_buffer b \<Longrightarrow> holds v x pending \<Longrightarrow> content b = pending @ seg \<Longrightarrow> seg \<noteq> [] \<Longrightarrow>
      (case on_message t b x of Inl e \<Rightarrow> e \<in> failures v
       | Inr (calls, x') \<Rightarrow> \<exists>n us. calls = User_Retrieve n # us \<and> n \<le> length (content b) \<and> list_all is_reply us
           \<and> holds (serve (t, seg) v) x' (drop n (content b))
           \<and> sent (serve (t, seg) v) = sent v @ (if still_open v then fst (replies us) else [])
           \<and> still_open (serve (t, seg) v) = (still_open v \<and> snd (replies us)))"
begin

definition so_far :: "(timestamp \<times> char list) list \<Rightarrow> 'v" where
  "so_far reads = fold serve reads start"

definition session_ok :: "'u session_conn \<Rightarrow> bool" where
  "session_ok s \<longleftrightarrow> (case s of (ch, c, u) \<Rightarrow> settled (ch, c) \<and> accepted c = sent (so_far (se_reads u))
     \<and> holds (so_far (se_reads u)) (se_context u) (content (input_buffer c))
     \<and> (tc_state c \<noteq> kDisconnected \<longrightarrow> (tc_state c = kConnected \<longleftrightarrow> still_open (so_far (se_reads u)))))"

lemma so_far_snoc: "so_far (reads @ [r]) = serve r (so_far reads)"
  by (simp add: so_far_def)

lemma session_close_ok:
  assumes "session_ok (ch, c, u)"
  shows "session_ok (with_events (\<lambda>_. kNoneEvent) ch, c\<lparr>tc_state := kDisconnected, callback_log := l\<rparr>, u)"
  using assms settled_close [of ch c] by (simp add: session_ok_def settled_simps)

lemma session_message_ok:
  assumes w: "write_ok write" "write_healthy write" and ok: "session_ok (ch, c, u)" and st: "tc_state c = kConnected \<or> tc_state c = kDisconnecting"
    and ib: "wf_buffer ib" "content ib = content (input_buffer c) @ seg" "seg \<noteq> []"
    and m: "on_message t ib (se_context u) = Inr (calls, x')"
  shows "barring {LengthError} (\<lambda>(ch', c'). session_ok (ch', c', u\<lparr>se_context := x', se_reads := se_reads u @ [(t, seg)]\<rparr>)
      \<and> ch_revents ch' = ch_revents ch)
    (for_each (run_user_call write) calls (ch, c\<lparr>input_buffer := ib, callback_log := l\<rparr>))"
proof -
  let ?v = "so_far (se_reads u)"
  note ok' = ok [unfolded session_ok_def prod.case]
  from handler [OF ib(1) _ ib(2,3), of ?v "se_context u" t] ok' m obtain n us where
    calls: "calls = User_Retrieve n # us" "n \<le> length (content ib)" "list_all is_reply us"
    and v: "holds (serve (t, seg) ?v) x' (drop n (content ib))"
      "sent (serve (t, seg) ?v) = sent ?v @ (if still_open ?v then fst (replies us) else [])"
      "still_open (serve (t, seg) ?v) = (still_open ?v \<and> snd (replies us))" by auto
  from Retrieve_content [OF ib(1) calls(2)] obtain ib' where
    ib': "Retrieve ib n = Inr ib'" "wf_buffer ib'" "content ib' = drop n (content ib)" by blast
  let ?s = "(ch, c\<lparr>input_buffer := ib', callback_log := l\<rparr>)"
  have "settled ?s" using ok' settled_simps(1,4) ib'(2) by blast
  from run_replies [OF w calls(3) this]
  have "barring {LengthError} (replied ?s us) (for_each (run_user_call write) us ?s)" .
  then have "barring {LengthError} (\<lambda>(ch', c'). session_ok (ch', c', u\<lparr>se_context := x', se_reads := se_reads u @ [(t, seg)]\<rparr>)
      \<and> ch_revents ch' = ch_revents ch) (for_each (run_user_call write) us ?s)"
    by (rule barring_mono) (use st ok' v ib'(3) in \<open>auto simp: replied_def session_ok_def so_far_snoc split: if_splits\<close>)
  moreover have "run_user_call write (User_Retrieve n) (ch, c\<lparr>input_buffer := ib, callback_log := l\<rparr>) = Inr ?s"
    using ib'(1) calls(2) ib(1) by (simp add: run_user_call_def min_absorb1)
  ultimately show ?thesis by (simp add: calls(1))
qed

lemma session_read_ok:
  assumes w: "write_ok write" "write_healthy write" "readv_fits readv" and ok: "session_ok (ch, c, u)"
    and st: "tc_state c = kConnected \<or> tc_state c = kDisconnecting"
  shows "barring (insert LengthError (failures (so_far (se_reads u)))) (\<lambda>s'. session_ok s' \<and> ch_revents (fst s') = ch_revents ch)
    (session_HandleRead on_message write readv t (ch, c, u))"
proof -
  note ok' = ok [unfolded session_ok_def prod.case]
  have wf: "wf_buffer (input_buffer c)" using ok' by (simp add: settled_def conn_live_def conn_inv_def)
  from ReadFd_outcome [OF wf w(3)] consider "ReadFd readv (input_buffer c) = Inl LengthError"
    | err where "ReadFd readv (input_buffer c) = Inr (-1, err, input_buffer c)"
    | data ib where "ReadFd readv (input_buffer c) = Inr (int (length data), 0, ib)" "wf_buffer ib"
        "content ib = content (input_buffer c) @ data" by blast
  then show ?thesis
  proof cases
    case 3
    show ?thesis
    proof (cases "data = []")
      case True
      have "session_ok (ch, c\<lparr>input_buffer := ib\<rparr>, u)"
        using ok' 3 True settled_simps(4) [OF 3(2)] by (simp add: session_ok_def)
      from session_close_ok [OF this] 3(1) True st show ?thesis
        by (simp add: session_HandleRead_def HandleRead_def HandleClose_quiet)
    next
      case False
      then show ?thesis
      proof (cases "on_message t ib (se_context u)")
        case (Inl e)
        with handler [OF 3(2) _ 3(3) False, of "so_far (se_reads u)" "se_context u" t] ok' 3(1) False show ?thesis
          by (simp add: session_HandleRead_def)
      next
        case (Inr r)
        obtain calls x' where r: "r = (calls, x')" by (cases r)
        from session_message_ok [OF w(1,2) ok st 3(2,3) False Inr [unfolded r], of "callback_log c @ [Message_callback]"]
        show ?thesis using 3 False Inr r
          by (cases "for_each (run_user_call write) calls (ch, c\<lparr>input_buffer := ib, callback_log := callback_log c @ [Message_callback]\<rparr>)")
            (auto simp: session_HandleRead_def HandleRead_def call_user_def)
      qed
    qed
  qed (use ok in \<open>auto simp: session_HandleRead_def HandleRead_def HandleError_def\<close>)
qed

lemma session_event_ok:
  assumes w: "write_ok write" "write_healthy write" "readv_fits readv" and ok: "session_ok (ch, c, u)"
    and none: "\<not> IsNoneEvent ch" and got: "reported got"
  shows "barring (insert LengthError (failures (so_far (se_reads u)))) session_ok
    (session_HandleEvent on_message write readv t got (ch, c, u))"
proof -
  define I where "I s \<longleftrightarrow> session_ok s \<and> ch_revents (fst s) = got \<and> snd (snd s) = u
    \<and> (tc_state (fst (snd s)) = kConnected \<or> tc_state (fst (snd s)) = kDisconnecting)" for s :: "'u session_conn"
  define J where "J s \<longleftrightarrow> session_ok s \<and> ch_revents (fst s) = got" for s :: "'u session_conn"
  have "conn_live (ch, c)" using ok by (simp add: session_ok_def settled_def)
  from live_not_none [OF this] none have st: "tc_state c = kConnected \<or> tc_state c = kDisconnecting" by simp
  show ?thesis unfolding session_HandleEvent_def fst_conv snd_conv
  proof (rule HandleEvent_rule [where I = I and J = J, OF got])
    fix s
    assume I: "I s"
    then obtain ch1 c1 where s: "s = (ch1, c1, u)" by (cases s) (auto simp: I_def)
    note I' = I [unfolded I_def s, simplified]
    show "barring (insert LengthError (failures (so_far (se_reads u)))) J (keeping (HandleClose silent_user write) s)"
      using I' session_close_ok by (simp add: s keeping_def HandleClose_quiet silent_user_def J_def)
    have "barring (insert LengthError (failures (so_far (se_reads u)))) (\<lambda>s'. session_ok s' \<and> ch_revents (fst s') = ch_revents ch1)
        (session_HandleRead on_message write readv t s)"
      unfolding s using I' by (intro session_read_ok w) auto
    then show "barring (insert LengthError (failures (so_far (se_reads u)))) J (session_HandleRead on_message write readv t s)"
      using I' by (simp add: J_def [abs_def])
  next
    fix s
    assume J: "J s"
    obtain ch1 c1 u1 where s: "s = (ch1, c1, u1)" by (cases s)
    have "settled (ch1, c1)" using J by (simp add: J_def session_ok_def s)
    from HandleWrite_settled [OF w(1) this] J show "barring (insert LengthError (failures (so_far (se_reads u)))) J (keeping (HandleWrite write) s)"
      by (auto simp: s keeping_def J_def session_ok_def)
    show "session_ok (fst s\<lparr>event_handling := False\<rparr>, snd s)"
      using J by (simp add: s J_def session_ok_def settled_simps)
  qed (use ok st in \<open>auto simp: I_def J_def keeping_def HandleError_def session_ok_def settled_simps\<close>)
qed

theorem session_run_ok: "session_run on_message x0 s \<Longrightarrow> session_ok s"
proof (induction rule: session_run.induct)
  case (establish fd s wr ch c)
  from TcpConnection_new_ok [of fd False False] establish(1) have inv: "conn_inv s" "tc_state (snd s) = kConnecting" by auto
  have new: "accepted (snd s) = []" "content (input_buffer (snd s)) = []"
    using establish(1) Buffer_new_empty [of kInitialSize] by (auto simp: TcpConnection_new_def buffer_const_defs)
  have "user_ok silent_user" by (simp add: user_ok_def silent_user_def)
  from ConnectEstablished_ok [OF establish(2) this inv] establish(3) have "conn_live (ch, c)" by (simp add: conn_after_def)
  with establish(3) inv(2) new start show ?case
    by (auto simp: ConnectEstablished_def call_user_def silent_user_def session_ok_def settled_def so_far_def)
next
  case (event s got wr readv t s')
  obtain ch c u where s: "s = (ch, c, u)" by (cases s)
  with session_event_ok [OF event(4-6), of ch c u got t] event show ?case by simp
next
  case (destroy ch c u wr ch' c')
  have "settled (ch, c)" using destroy(5) by (simp add: session_ok_def)
  with destroy settled_close [of ch c] show ?case
    by (auto simp: settled_simps ConnectDestroyed_def call_user_def silent_user_def session_ok_def asserting_def split: if_splits)
qed

end

section \<open>A session that reads\<close>

text \<open>A kernel that takes whatever it is given until the write side is shut down.\<close>

definition prompt_write :: write_call where
  "prompt_write s data = (if write_shut (snd s) then Inl EPIPE else Inr (length data))"

lemma prompt_write_ok: "write_ok prompt_write" "write_healthy prompt_write"
  by (simp_all add: write_ok_def write_healthy_def prompt_write_def)

definition idle :: "conn \<Rightarrow> bool" where
  "idle s \<longleftrightarrow> \<not> IsWriting (fst s) \<and> ReadableBytes (output_buffer (snd s)) = 0 \<and> \<not> has_write_complete_callback (snd s)
     \<and> (tc_state (snd s) = kConnected \<longrightarrow> \<not> write_shut (snd s))"

lemma prompt_reply:
  assumes "is_reply u" "idle s"
  shows "\<exists>c'. run_user_call prompt_write u s = Inr (fst s, c') \<and> idle (fst s, c')"
  using assms by (cases u; cases s)
    (auto simp: run_user_call_def Send_def SendInLoop_def Shutdown_def ShutdownInLoop_def AssertInLoopThread_def try_write_def
        prompt_write_def idle_def machine_simps Let_def)

lemma prompt_replies:
  "list_all is_reply us \<Longrightarrow> idle s \<Longrightarrow> \<exists>c'. for_each (run_user_call prompt_write) us s = Inr (fst s, c')"
proof (induction us arbitrary: s)
  case (Cons u us)
  from prompt_reply [of u s] Cons.prems obtain c' where
    "run_user_call prompt_write u s = Inr (fst s, c')" "idle (fst s, c')" by auto
  with Cons.IH [of "(fst s, c')"] Cons.prems(1) show ?case by simp
qed (auto simp: prod_eq_iff)

lemma fresh_session:
  "\<exists>ch c. session_run on_message x (ch, c, \<lparr>se_context = x, se_reads = []\<rparr>) \<and> idle (ch, c) \<and> tied ch \<and> tie_alive ch
     \<and> \<not> IsNoneEvent ch \<and> wf_buffer (input_buffer c) \<and> content (input_buffer c) = []
     \<and> WritableBytes (input_buffer c) = 1024 \<and> length (buf_bytes (input_buffer c)) = 1032"
proof -
  obtain b where b: "Buffer_new kInitialSize = Inr b" "content b = []" "WritableBytes b = 1024" "wf_buffer b" "writer_index b = 8"
    using Buffer_new_empty [of kInitialSize] by (auto simp: buffer_const_defs)
  have len: "length (buf_bytes b) = 1032"
    using b(3,5) wf_bounds [OF b(4)] by (simp add: WritableBytes_def machine_simps)
  from b obtain c where c: "TcpConnection_new 5 False False = Inr (Channel_new 5, c)" "tc_state c = kConnecting"
    "input_buffer c = b" "output_buffer c = b" "\<not> has_write_complete_callback c" "\<not> write_shut c" by (simp add: TcpConnection_new_def)
  let ?c = "c\<lparr>tc_state := kConnected, callback_log := callback_log c @ [Connection_callback kConnected]\<rparr>"
  let ?ch = "with_events (\<lambda>ev. ev OR kReadEvent) (Channel_Tie (Channel_new 5))"
  have "ConnectEstablished silent_user prompt_write (Channel_new 5, c) = Inr (?ch, ?c)"
    using c(2) by (simp add: ConnectEstablished_def call_user_def silent_user_def)
  note run = session_run.establish [OF c(1) prompt_write_ok(1) this]
  have "ch_events ?ch = kReadEvent" "tied ?ch" "tie_alive ?ch" by (simp_all add: with_events_def Channel_Tie_def Channel_new_def)
  then have ch: "tied ?ch" "tie_alive ?ch" "\<not> IsNoneEvent ?ch" "\<not> IsWriting ?ch"
    by (simp_all only: IsNoneEvent_def IsWriting_def) (simp_all add: any_of_def poll_consts)
  have "idle (?ch, ?c)" using ch(4) b(2,4) c(4-6) by (simp add: idle_def)
  with run ch b(2-4) c(3) len show ?thesis by (intro exI [of _ ?ch] exI [of _ ?c] conjI) simp_all
qed

lemma session_reads:
  assumes "seg \<noteq> []" "length seg < 1000"
    and "\<And>b. wf_buffer b \<Longrightarrow> content b = seg \<Longrightarrow> \<exists>n us x'. on_message t b x = Inr (User_Retrieve n # us, x') \<and> n \<le> length seg \<and> list_all is_reply us"
  shows "\<exists>ch c u. session_run on_message x (ch, c, u) \<and> se_reads u = [(t, seg)]"
proof -
  obtain ch c where c: "session_run on_message x (ch, c, \<lparr>se_context = x, se_reads = []\<rparr>)" "idle (ch, c)" "tied ch" "tie_alive ch"
    "\<not> IsNoneEvent ch" "wf_buffer (input_buffer c)" "content (input_buffer c) = []"
    "WritableBytes (input_buffer c) = 1024" "length (buf_bytes (input_buffer c)) = 1032"
    using fresh_session [of on_message x] by (elim exE conjE) (rule that)
  let ?readv = "\<lambda>iov. Inr (take (sum_list iov) seg) :: int + char list"
  have fits: "readv_fits ?readv" by (auto simp: readv_fits_def)
  have "length (buf_bytes (input_buffer c)) + extrabuf_size \<le> vector_max_size"
    using c(9) by (simp add: extrabuf_size_def vector_max_size_def)
  from ReadFd_reads [OF c(6) fits this] c(7,8) assms(2) obtain ib where
    ib: "ReadFd ?readv (input_buffer c) = Inr (int (length seg), 0, ib)" "wf_buffer ib" "content ib = seg"
    by (auto simp: extrabuf_size_def)
  from assms(3) [OF ib(2,3)] obtain n us x' where
    m: "on_message t ib x = Inr (User_Retrieve n # us, x')" "n \<le> length seg" "list_all is_reply us" by blast
  from Retrieve_content [OF ib(2)] m(2) ib(3) obtain ib' where ib': "Retrieve ib n = Inr ib'" by auto
  let ?ch = "ch\<lparr>ch_revents := POLLIN, event_handling := True\<rparr>"
  let ?c = "c\<lparr>input_buffer := ib', callback_log := callback_log c @ [Message_callback]\<rparr>"
  have "idle (?ch, ?c)" using c(2) by (simp add: idle_def IsWriting_def)
  from prompt_replies [OF m(3) this] obtain c' where
    r: "for_each (run_user_call prompt_write) us (?ch, ?c) = Inr (?ch, c')" by auto
  have "run_user_call prompt_write (User_Retrieve n) (?ch, c\<lparr>input_buffer := ib, callback_log := callback_log c @ [Message_callback]\<rparr>) = Inr (?ch, ?c)"
    using ib' m(2) ib(2,3) by (simp add: run_user_call_def min_absorb1)
  with r m(1) ib assms(1) c(7) have "session_HandleRead on_message prompt_write ?readv t (?ch, c, \<lparr>se_context = x, se_reads = []\<rparr>) =
      Inr (?ch, c', \<lparr>se_context = x', se_reads = [(t, seg)]\<rparr>)"
    by (simp add: session_HandleRead_def HandleRead_def call_user_def)
  then have "session_HandleEvent on_message prompt_write ?readv t POLLIN (ch, c, \<lparr>se_context = x, se_reads = []\<rparr>) =
      Inr (?ch\<lparr>event_handling := False\<rparr>, c', \<lparr>se_context = x', se_reads = [(t, seg)]\<rparr>)"
    using c(3,4) by (simp add: session_HandleEvent_def HandleEvent_def HandleEventWithGuard_def invoke_def any_of_def poll_consts Let_def)
  moreover have "reported POLLIN" by (simp add: reported_def any_of_def poll_consts)
  ultimately have "session_run on_message x (?ch\<lparr>event_handling := False\<rparr>, c', \<lparr>se_context = x', se_reads = [(t, seg)]\<rparr>)"
    using session_run.event [OF c(1) _ _ prompt_write_ok fits] c(5) by simp
  then show ?thesis by fastforce
qed

end
