(* ===== verification/Server_System.thy ===== *)
theory Server_System
  imports Tcp_Server Tcp_Connection
begin

text \<open>
  A server together with its connections: the acceptor's callback \<^verbatim>\<open>TcpServer::NewConnection\<close>, the loops that
  run \<^verbatim>\<open>ConnectEstablished\<close>, \<^verbatim>\<open>RemoveConnectionInLoop\<close> and \<^verbatim>\<open>ConnectDestroyed\<close>, and everything that can happen to
  a connection in between, interleaved in any order. Every connection is a full object of the
  connection theory; the heap is indexed by the name, loop and socket it was created with.

  \<^verbatim>\<open>RunInLoop\<close> runs its functor at once in the thread of the loop and queues it otherwise. The functors
  a loop was given by the server are run in their order; those a connection gave its own
  loop are kept with the connection, in their order, and all have run when its \<^verbatim>\<open>ConnectDestroyed\<close> runs: that is queued after the connection
  was closed, and a closed connection queues nothing more (lemma \<open>closed_queues_nothing\<close>).

  A connection is released when neither the map nor a functor holds a reference to it. The functors of \<^verbatim>\<open>Send\<close> and \<^verbatim>\<open>Shutdown\<close> are bound
  to a plain pointer and hold none; running one after the release would be a use after free. The timer of
  \<^verbatim>\<open>ForceCloseWithDelay\<close> holds a weak reference only (\<^verbatim>\<open>base/weak_callback.h\<close>) and may fire before or after that.

  Shown: no assertion of the server or of a connection fails, every connection is established once,
  told closed once, removed from the map once and destroyed once, in this order, no functor meets a
  released connection, and when a connection is released the assertions of its destructor and of its channel's hold.
\<close>

section \<open>The system\<close>

record server_system =
  ss_server :: tcp_server
  ss_conns :: "server_conn \<rightharpoonup> conn"

definition in_base_loop :: "server_conn \<Rightarrow> tcp_server \<Rightarrow> bool" where
  "in_base_loop conn sv \<longleftrightarrow> sc_loop conn = base_loop (sv_pool sv)"

definition closes :: "conn \<Rightarrow> nat" where
  "closes s = count_list (callback_log (snd s)) Close_callback"

text \<open>
  A function of a connection runs in the thread of its loop; if it has called the close callback, which
  is its last action on the server's side, \<^verbatim>\<open>TcpServer::RemoveConnection\<close> has run.
\<close>

definition on_conn :: "server_conn \<Rightarrow> (conn \<Rightarrow> conn outcome) \<Rightarrow> server_system \<Rightarrow> server_system outcome" where
  "on_conn conn f sys =
     (case ss_conns sys conn of
        None \<Rightarrow> Inl (UndefinedBehaviour ''dangling TcpConnection'')
      | Some s \<Rightarrow> and_then (f s) (\<lambda>s'.
          let sys1 = sys\<lparr>ss_conns := (ss_conns sys)(conn \<mapsto> s')\<rparr> in
          if closes s' = closes s then Inr sys1
          else and_then (TcpServer_RemoveConnection (in_base_loop conn (ss_server sys1)) conn (ss_server sys1)) (\<lambda>sv.
                 Inr (sys1\<lparr>ss_server := sv\<rparr>))))"

definition run_task :: "user \<Rightarrow> write_call \<Rightarrow> server_functor \<Rightarrow> server_system \<Rightarrow> server_system outcome" where
  "run_task user write f sys = (case f of
       ConnectEstablished_functor conn \<Rightarrow> on_conn conn (ConnectEstablished user write) sys
     | ConnectDestroyed_functor conn \<Rightarrow> on_conn conn (ConnectDestroyed user write) sys
     | RemoveConnection_functor conn \<Rightarrow>
         and_then (RemoveConnectionInLoop True conn (ss_server sys)) (\<lambda>sv. Inr (sys\<lparr>ss_server := sv\<rparr>))
     | Listen_functor \<Rightarrow> Inr (sys\<lparr>ss_server := (ss_server sys)\<lparr>sv_listenning := True\<rparr>\<rparr>))"

definition system_accept :: "user \<Rightarrow> write_call \<Rightarrow> int \<Rightarrow> bool \<Rightarrow> server_system \<Rightarrow> server_system outcome" where
  "system_accept user write sockfd has_wc sys =
     and_then (TcpServer_NewConnection True sockfd (ss_server sys)) (\<lambda>sv.
     and_then (TcpConnection_new sockfd has_wc False) (\<lambda>s.
       let conn = last (sv_live sv);
           conns = (ss_conns sys)(conn \<mapsto> s)
       in if in_base_loop conn sv
          then run_task user write (ConnectEstablished_functor conn)
                 (sys\<lparr>ss_server := sv\<lparr>sv_queued := butlast (sv_queued sv)\<rparr>, ss_conns := conns\<rparr>)
          else Inr (sys\<lparr>ss_server := sv, ss_conns := conns\<rparr>)))"

datatype conn_action =
    Do_Send bool "char list"
  | Do_Shutdown bool
  | Do_ForceClose
  | Do_ForceCloseWithDelay double
  | Do_functor
  | Do_event events readv_call timestamp

definition run_action :: "user \<Rightarrow> write_call \<Rightarrow> conn_action \<Rightarrow> conn \<Rightarrow> conn outcome" where
  "run_action user write act s = (case act of
       Do_Send in_loop data \<Rightarrow> Send in_loop write data s
     | Do_Shutdown in_loop \<Rightarrow> Shutdown in_loop s
     | Do_ForceClose \<Rightarrow> Inr (ForceClose s)
     | Do_ForceCloseWithDelay d \<Rightarrow> Inr (ForceCloseWithDelay d s)
     | Do_functor \<Rightarrow> (case loop_functors (snd s) of
           [] \<Rightarrow> Inr s | f # fs \<Rightarrow> run_conn_functor user write f (fst s, snd s\<lparr>loop_functors := fs\<rparr>))
     | Do_event got readv t \<Rightarrow> (if IsNoneEvent (fst s) then Inr s else conn_HandleEvent user write readv t got s))"

definition action_ok :: "conn_action \<Rightarrow> bool" where
  "action_ok act \<longleftrightarrow> (case act of Do_Send _ data \<Rightarrow> length data < 2 ^ 63
     | Do_event got readv _ \<Rightarrow> reported got \<and> readv_fits readv | _ \<Rightarrow> True)"

text \<open>Which functors are bound to a plain \<^verbatim>\<open>this\<close>; the others hold a \<^verbatim>\<open>shared_from_this()\<close>.\<close>

fun plain_pointer :: "conn_functor \<Rightarrow> bool" where
  "plain_pointer (SendInLoop_functor data) = True"
| "plain_pointer ShutdownInLoop_functor = True"
| "plain_pointer _ = False"

text \<open>
  The last reference goes: \<^verbatim>\<open>~TcpConnection\<close> runs, then its member \<^verbatim>\<open>channel_\<close> is destroyed. The poller knows a channel
  as long as it is added to the loop.
\<close>

definition referenced :: "server_conn \<Rightarrow> conn \<Rightarrow> tcp_server \<Rightarrow> bool" where
  "referenced conn s sv \<longleftrightarrow> map_of (sv_connections sv) (sc_name conn) = Some conn
     \<or> (\<exists>(l, f) \<in> set (sv_queued sv). f = ConnectEstablished_functor conn \<or> f = ConnectDestroyed_functor conn
           \<or> f = RemoveConnection_functor conn)
     \<or> \<not> list_all plain_pointer (loop_functors (snd s))"

definition release :: "bool \<Rightarrow> server_conn \<Rightarrow> server_system \<Rightarrow> server_system outcome" where
  "release in_loop conn sys =
     (case ss_conns sys conn of
        None \<Rightarrow> Inr sys
      | Some s \<Rightarrow>
          if referenced conn s (ss_server sys) then Inr sys
          else if loop_functors (snd s) \<noteq> [] then Inl (UndefinedBehaviour ''functor of a destroyed TcpConnection'')
          else and_then (TcpConnection_destroy s) (\<lambda>_.
               and_then (Channel_destroy in_loop (added_to_loop (fst s)) (fst s)) (\<lambda>_.
                 Inr (sys\<lparr>ss_conns := (ss_conns sys)(conn := None)\<rparr>))))"

text \<open>\<^verbatim>\<open>WeakCallback\<close>: the function runs if the object is still there, and otherwise nothing happens.\<close>

definition WeakCallback_call :: "server_conn \<Rightarrow> (conn \<Rightarrow> conn outcome) \<Rightarrow> server_system \<Rightarrow> server_system outcome" where
  "WeakCallback_call conn f sys =
     (case ss_conns sys conn of None \<Rightarrow> Inr sys | Some _ \<Rightarrow> on_conn conn f sys)"

text \<open>The functors that a closed connection gave its loop came before its \<^verbatim>\<open>ConnectDestroyed\<close>, and a loop runs functors in the order they came.\<close>

definition own_functors_run :: "server_functor \<Rightarrow> server_system \<Rightarrow> bool" where
  "own_functors_run f sys \<longleftrightarrow> (case f of
       ConnectDestroyed_functor conn \<Rightarrow> (case ss_conns sys conn of None \<Rightarrow> True | Some s \<Rightarrow> loop_functors (snd s) = [])
     | _ \<Rightarrow> True)"

inductive sys_run :: "server_system outcome \<Rightarrow> bool" where
  sys_begin: "TcpServer_new le loop addr name = Inr sv0 \<Longrightarrow> TcpServer_set_thread_num n sv0 = Inr sv1 \<Longrightarrow>
    TcpServer_Start StartLoop True has_cb sv1 = Inr sv \<Longrightarrow> sys_run (Inr \<lparr>ss_server = sv, ss_conns = Map.empty\<rparr>)"
| sys_accept: "sys_run (Inr sys) \<Longrightarrow> sv_next_conn_id (ss_server sys) < 10 ^ 8 \<Longrightarrow> write_ok write \<Longrightarrow> user_ok user \<Longrightarrow>
    sys_run (system_accept user write sockfd has_wc sys)"
| sys_task: "sys_run (Inr sys) \<Longrightarrow> sv_queued (ss_server sys) = before @ (l, f) # after \<Longrightarrow> l \<notin> fst ` set before \<Longrightarrow>
    own_functors_run f sys \<Longrightarrow> write_ok write \<Longrightarrow> user_ok user \<Longrightarrow>
    sys_run (run_task user write f (sys\<lparr>ss_server := (ss_server sys)\<lparr>sv_queued := before @ after\<rparr>\<rparr>))"
| sys_action: "sys_run (Inr sys) \<Longrightarrow> ss_conns sys conn \<noteq> None \<Longrightarrow> action_ok act \<Longrightarrow> write_ok write \<Longrightarrow> user_ok user \<Longrightarrow>
    sys_run (on_conn conn (run_action user write act) sys)"
| sys_release: "sys_run (Inr sys) \<Longrightarrow> sys_run (release in_loop conn sys)"
| sys_timer: "sys_run (Inr sys) \<Longrightarrow> sys_run (WeakCallback_call conn (\<lambda>s. Inr (ForceClose s)) sys)"

section \<open>The invariant\<close>

abbreviation disconnected :: "conn \<Rightarrow> bool" where
  "disconnected s \<equiv> tc_state (snd s) = kDisconnected"

text \<open>Which functors are waiting for a connection, by its state and whether the server still knows it.\<close>

definition task_phase :: "server_functor list \<Rightarrow> bool \<Rightarrow> server_conn \<Rightarrow> conn \<Rightarrow> bool" where
  "task_phase q known conn s \<longleftrightarrow>
     count_list q (ConnectEstablished_functor conn) = (if tc_state (snd s) = kConnecting then 1 else 0)
     \<and> (known \<longrightarrow> count_list q (RemoveConnection_functor conn) = (if disconnected s then 1 else 0)
          \<and> count_list q (ConnectDestroyed_functor conn) = 0)
     \<and> (\<not> known \<longrightarrow> disconnected s \<and> count_list q (RemoveConnection_functor conn) = 0
          \<and> count_list q (ConnectDestroyed_functor conn) \<le> 1)"

text \<open>Between steps no channel is handling an event; after \<^verbatim>\<open>ConnectDestroyed\<close> the loop does not know it and has no functor of the connection.\<close>

definition chan_ok :: "server_functor list \<Rightarrow> bool \<Rightarrow> server_conn \<Rightarrow> conn \<Rightarrow> bool" where
  "chan_ok q known conn s \<longleftrightarrow> \<not> event_handling (fst s)
     \<and> (\<not> known \<and> count_list q (ConnectDestroyed_functor conn) = 0 \<longrightarrow> \<not> added_to_loop (fst s) \<and> loop_functors (snd s) = [])"

fun task_conn :: "server_functor \<Rightarrow> server_conn option" where
  "task_conn (ConnectEstablished_functor conn) = Some conn"
| "task_conn (ConnectDestroyed_functor conn) = Some conn"
| "task_conn (RemoveConnection_functor conn) = Some conn"
| "task_conn Listen_functor = None"

definition named :: "tcp_server \<Rightarrow> server_conn \<Rightarrow> bool" where
  "named sv conn \<longleftrightarrow> (\<exists>i. 0 < i \<and> i < sv_next_conn_id sv \<and> sc_name conn = conn_name (sv_name sv) (sv_hostport sv) i)"

definition tasks :: "tcp_server \<Rightarrow> server_functor list" where
  "tasks sv = map snd (sv_queued sv)"

definition heap_ok :: "tcp_server \<Rightarrow> (server_conn \<rightharpoonup> conn) \<Rightarrow> bool" where
  "heap_ok sv h \<longleftrightarrow> set (sv_live sv) \<subseteq> dom h \<and> (\<forall>conn \<in> dom h. named sv conn)
     \<and> (\<forall>f \<in> set (tasks sv). \<forall>conn. task_conn f = Some conn \<longrightarrow> conn \<in> dom h)"

definition conn_ok :: "tcp_server \<Rightarrow> server_conn \<Rightarrow> conn \<Rightarrow> bool" where
  "conn_ok sv conn s \<longleftrightarrow> conn_inv s \<and> close_told s \<and> task_phase (tasks sv) (conn \<in> set (sv_live sv)) conn s
     \<and> chan_ok (tasks sv) (conn \<in> set (sv_live sv)) conn s"

definition sys_inv :: "server_system \<Rightarrow> bool" where
  "sys_inv sys \<longleftrightarrow> sv_inv (ss_server sys) \<and> heap_ok (ss_server sys) (ss_conns sys)
     \<and> (\<forall>conn s. ss_conns sys conn = Some s \<longrightarrow> conn_ok (ss_server sys) conn s)"

lemma tasks_simps [simp]:
  "tasks (sv\<lparr>sv_queued := q\<rparr>) = map snd q" "tasks (sv\<lparr>sv_listenning := b\<rparr>) = tasks sv"
  by (simp_all add: tasks_def)

lemma live_distinct: "sv_inv sv \<Longrightarrow> distinct (sv_live sv)"
  unfolding sv_inv_def by (metis distinct_map)

subsection \<open>Server operations\<close>

lemma RemoveConnection_fields:
  assumes "sv_inv sv" "conn \<in> set (sv_live sv)"
  shows "\<exists>sv'. RemoveConnectionInLoop True conn sv = Inr sv' \<and> sv_inv sv' \<and> named sv' = named sv
    \<and> sv_live sv' = remove1 conn (sv_live sv) \<and> tasks sv' = tasks sv @ [ConnectDestroyed_functor conn]"
proof -
  from RemoveConnection_ok [OF assms] obtain sv' where
    "RemoveConnectionInLoop True conn sv = Inr sv'" "sv_inv sv'" by blast
  then show ?thesis
    by (auto simp: RemoveConnectionInLoop_def AssertInLoopThread_def asserting_def tasks_def named_def fun_eq_iff
        split: prod.splits if_splits)
qed

lemma TcpServer_RemoveConnection_fields:
  assumes "sv_inv sv" "conn \<in> set (sv_live sv)"
  shows "\<exists>sv'. TcpServer_RemoveConnection b conn sv = Inr sv' \<and> sv_inv sv' \<and> named sv' = named sv
    \<and> (if b then sv_live sv' = remove1 conn (sv_live sv) \<and> tasks sv' = tasks sv @ [ConnectDestroyed_functor conn]
       else sv_live sv' = sv_live sv \<and> tasks sv' = tasks sv @ [RemoveConnection_functor conn])"
  using RemoveConnection_fields [OF assms] assms(1)
  by (auto simp: TcpServer_RemoveConnection_def tasks_def named_def fun_eq_iff sv_inv_def)

lemma NewConnection_fields:
  assumes "sv_inv sv" "sv_next_conn_id sv < 10 ^ 8"
  shows "\<exists>sv' conn l. TcpServer_NewConnection True sockfd sv = Inr sv' \<and> sv_inv sv' \<and> sv_live sv' = sv_live sv @ [conn]
    \<and> sv_queued sv' = sv_queued sv @ [(l, ConnectEstablished_functor conn)]
    \<and> (\<forall>c. named sv c \<longrightarrow> named sv' c \<and> sc_name c \<noteq> sc_name conn) \<and> named sv' conn"
proof -
  from NewConnection_ok [OF assms] obtain sv' where
    sv': "TcpServer_NewConnection True sockfd sv = Inr sv'" "sv_inv sv'" by blast
  let ?name = "conn_name (sv_name sv) (sv_hostport sv)"
  obtain l pool where f: "sv' = sv\<lparr>sv_pool := pool, sv_next_conn_id := sv_next_conn_id sv + 1,
      sv_connections := map_put (?name (sv_next_conn_id sv)) \<lparr>sc_name = ?name (sv_next_conn_id sv), sc_loop = l, sc_sockfd = sockfd\<rparr> (sv_connections sv),
      sv_queued := sv_queued sv @ [(l, ConnectEstablished_functor \<lparr>sc_name = ?name (sv_next_conn_id sv), sc_loop = l, sc_sockfd = sockfd\<rparr>)],
      sv_live := sv_live sv @ [\<lparr>sc_name = ?name (sv_next_conn_id sv), sc_loop = l, sc_sockfd = sockfd\<rparr>]\<rparr>"
    using sv'(1) by (auto simp: TcpServer_NewConnection_def AssertInLoopThread_def Let_def and_then_Inr_iff split: if_splits)
  have next_id: "0 < sv_next_conn_id sv" using assms(1) by (simp add: sv_inv_def)
  have "?name i \<noteq> ?name (sv_next_conn_id sv)" if "0 < i" "i < sv_next_conn_id sv" for i
    using conn_name_inj [of "sv_hostport sv" i "sv_next_conn_id sv" "sv_name sv"] that assms next_id sv_inv_fits [OF assms(1)] by force
  then show ?thesis using sv' f next_id by (fastforce simp: named_def)
qed

subsection \<open>The channel of a connection\<close>

text \<open>
  What an operation outside \<^verbatim>\<open>HandleEvent\<close> keeps of the channel: whether an event is being handled, and on a closed
  connection also whether the loop knows it and which functors wait.
\<close>

definition chan_kept :: "conn \<Rightarrow> conn \<Rightarrow> bool" where
  "chan_kept s s' \<longleftrightarrow> event_handling (fst s') = event_handling (fst s)
     \<and> (disconnected s \<longrightarrow> disconnected s' \<and> added_to_loop (fst s') = added_to_loop (fst s)
          \<and> loop_functors (snd s') = loop_functors (snd s))"

lemma chan_kept_refl [simp]: "chan_kept s s"
  by (simp add: chan_kept_def)

lemma chan_kept_trans: "chan_kept s t \<Longrightarrow> chan_kept t u \<Longrightarrow> chan_kept s u"
  by (auto simp: chan_kept_def)

lemma with_events_handling [simp]: "event_handling (with_events f ch) = event_handling ch"
  by (simp add: with_events_def)

lemma SendInLoop_kept: "barring UNIV (chan_kept s) (SendInLoop b write data s)"
  by (cases "SendInLoop b write data s")
    (auto simp: SendInLoop_def AssertInLoopThread_def chan_kept_def Let_def outcome_simps split: if_splits prod.splits)

lemma Shutdown_kept: "barring UNIV (chan_kept s) (Shutdown b s)"
  by (auto simp: Shutdown_def ShutdownInLoop_def AssertInLoopThread_def chan_kept_def Let_def)

lemma Send_kept: "barring UNIV (chan_kept s) (Send b write data s)"
  using SendInLoop_kept [of s True] by (simp add: Send_def chan_kept_def)

lemma run_user_call_kept: "barring UNIV (chan_kept s) (run_user_call write u s)"
proof (cases u)
  case (User_Retrieve n)
  then show ?thesis
    by (cases "Retrieve (input_buffer (snd s)) (min n (ReadableBytes (input_buffer (snd s))))")
      (simp_all add: run_user_call_def chan_kept_def)
qed (simp_all add: run_user_call_def Send_kept Shutdown_kept ForceClose_def ForceCloseWithDelay_def chan_kept_def)

lemma call_user_kept: "barring UNIV (chan_kept s) (call_user user write ev s)"
  unfolding call_user_def
proof (rule barring_for_each)
  show "chan_kept s (fst s, snd s\<lparr>callback_log := callback_log (snd s) @ [ev]\<rparr>)" by (simp add: chan_kept_def)
  show "barring UNIV (chan_kept s) (run_user_call write u t)" if "chan_kept s t" for u t
    by (rule barring_mono [OF run_user_call_kept]) (rule chan_kept_trans [OF that])
qed

lemma HandleClose_kept:
  assumes "\<not> disconnected s"
  shows "barring UNIV (chan_kept s) (HandleClose user write s)"
proof -
  let ?s = "(with_events (\<lambda>_. kNoneEvent) (fst s), snd s\<lparr>tc_state := kDisconnected\<rparr>)"
  have "barring UNIV (chan_kept ?s)
      (and_then (call_user user write (Connection_callback kDisconnected) ?s) (call_user user write Close_callback))"
    by (rule barring_and_then [OF call_user_kept]) (rule barring_mono [OF call_user_kept], erule chan_kept_trans)
  then have "barring UNIV (chan_kept s)
      (and_then (call_user user write (Connection_callback kDisconnected) ?s) (call_user user write Close_callback))"
    by (rule barring_mono) (use assms in \<open>simp add: chan_kept_def\<close>)
  then show ?thesis by (simp add: HandleClose_def asserting_def)
qed

lemma run_conn_functor_kept: "barring UNIV (chan_kept s) (run_conn_functor user write f s)"
proof (cases f)
  case ForceCloseInLoop_functor
  have "\<not> disconnected s" if "tc_state (snd s) = kConnected \<or> tc_state (snd s) = kDisconnecting" using that by auto
  with ForceCloseInLoop_functor HandleClose_kept show ?thesis by (simp add: run_conn_functor_def ForceCloseInLoop_def)
qed (simp_all add: run_conn_functor_def SendInLoop_kept call_user_kept ShutdownInLoop_def AssertInLoopThread_def chan_kept_def)

lemma HandleEvent_handled:
  assumes "\<not> event_handling (fst s)"
  shows "barring UNIV (\<lambda>s'. \<not> event_handling (fst s')) (conn_HandleEvent user write readv t got s)"
proof -
  have "barring UNIV (\<lambda>s'. \<not> event_handling (fst s')) (HandleEventWithGuard cbs t u)" for cbs :: "tcp_connection callbacks" and u
    unfolding HandleEventWithGuard_def Let_def
    by (rule barring_and_then [where P = "\<lambda>_. True"], simp add: barring_def split: sum.split)+ simp
  then show ?thesis using assms by (simp add: conn_HandleEvent_def HandleEvent_def)
qed

lemma run_action_kept:
  assumes "conn_inv s" "\<not> event_handling (fst s)"
  shows "barring UNIV (\<lambda>s'. \<not> event_handling (fst s') \<and> (disconnected s \<longrightarrow> added_to_loop (fst s') = added_to_loop (fst s)
      \<and> loop_functors (snd s') = (if act = Do_functor then tl (loop_functors (snd s)) else loop_functors (snd s))))
    (run_action user write act s)"
proof (cases act)
  case (Do_event got readv t)
  have "disconnected s \<Longrightarrow> IsNoneEvent (fst s)" using assms(1) by (cases s) (simp add: conn_inv_def)
  with Do_event assms(2) show ?thesis
    by (auto simp: run_action_def intro: barring_mono [OF HandleEvent_handled])
next
  case Do_functor
  show ?thesis
  proof (cases "loop_functors (snd s)")
    case (Cons f fs)
    have "barring UNIV (chan_kept (fst s, snd s\<lparr>loop_functors := fs\<rparr>)) (run_conn_functor user write f (fst s, snd s\<lparr>loop_functors := fs\<rparr>))"
      by (rule run_conn_functor_kept)
    then show ?thesis using Do_functor Cons assms(2)
      by (auto simp: run_action_def chan_kept_def elim: barring_mono)
  qed (use Do_functor assms in \<open>simp add: run_action_def\<close>)
next
  case (Do_Send b data)
  then show ?thesis using barring_mono [OF Send_kept] assms(2) by (auto simp: run_action_def chan_kept_def)
next
  case (Do_Shutdown b)
  then show ?thesis using barring_mono [OF Shutdown_kept] assms(2) by (auto simp: run_action_def chan_kept_def)
qed (use assms(2) in \<open>simp_all add: run_action_def ForceClose_def ForceCloseWithDelay_def\<close>)

lemma closed_queues_nothing:
  assumes "conn_inv s" "\<not> event_handling (fst s)" "disconnected s" "run_action user w act s = Inr s'"
  shows "loop_functors (snd s') = (if act = Do_functor then tl (loop_functors (snd s)) else loop_functors (snd s))"
  using run_action_kept [OF assms(1,2), of act user w] assms(3,4) by simp

subsection \<open>Functors of one connection\<close>

lemma phase_other:
  assumes "task_conn f = Some conn" "c \<noteq> conn"
  shows "task_phase (a @ f # b) known c s = task_phase (a @ b) known c s"
  using assms by (cases f) (simp_all add: task_phase_def)

lemma chan_other:
  assumes "task_conn f = Some conn" "c \<noteq> conn"
  shows "chan_ok (a @ f # b) known c s = chan_ok (a @ b) known c s"
  using assms by (cases f) (simp_all add: chan_ok_def)

lemma phase_other_new:
  assumes "task_conn f = Some conn" "c \<noteq> conn"
  shows "task_phase (q @ [f]) known c s = task_phase q known c s" "chan_ok (q @ [f]) known c s = chan_ok q known c s"
  using phase_other [OF assms, of q "[]"] chan_other [OF assms, of q "[]"] by simp_all

text \<open>All that the invariant says, but for the functors waiting for one connection.\<close>

definition sys_inv_except :: "server_conn \<Rightarrow> server_system \<Rightarrow> bool" where
  "sys_inv_except conn sys \<longleftrightarrow> sv_inv (ss_server sys) \<and> heap_ok (ss_server sys) (ss_conns sys)
     \<and> (\<forall>c s. ss_conns sys c = Some s \<longrightarrow> c \<noteq> conn \<longrightarrow> conn_ok (ss_server sys) c s)"

lemma sys_inv_exceptI: "sys_inv sys \<Longrightarrow> sys_inv_except conn sys"
  by (simp add: sys_inv_def sys_inv_except_def)

lemma sys_inv_exceptD:
  assumes "sys_inv_except conn sys"
  shows "sv_inv (ss_server sys)" "heap_ok (ss_server sys) (ss_conns sys)"
    "ss_conns sys c = Some t \<Longrightarrow> c \<noteq> conn \<Longrightarrow> conn_ok (ss_server sys) c t"
  using assms unfolding sys_inv_except_def by blast+

lemma sys_inv_put:
  assumes "sys_inv_except conn sys" "conn_ok (ss_server sys) conn s'" "conn \<in> dom (ss_conns sys)"
  shows "sys_inv (sys\<lparr>ss_conns := (ss_conns sys)(conn \<mapsto> s')\<rparr>)"
proof -
  have "dom ((ss_conns sys)(conn \<mapsto> s')) = dom (ss_conns sys)" using assms(3) by auto
  with assms(1,2) show ?thesis by (auto simp: sys_inv_def sys_inv_except_def heap_ok_def)
qed

text \<open>A connection that has called its close callback is on its way out of the map.\<close>

lemma on_conn_closes:
  assumes inv: "sys_inv_except conn sys" and heap: "conn \<in> dom (ss_conns sys)"
    and s': "conn_inv s'" "close_told s'" "disconnected s'" "\<not> event_handling (fst s')"
    and none: "count_list (tasks (ss_server sys)) (ConnectEstablished_functor conn) = 0"
    and o: "conn \<in> set (sv_live (ss_server sys))" "count_list (tasks (ss_server sys)) (RemoveConnection_functor conn) = 0"
      "count_list (tasks (ss_server sys)) (ConnectDestroyed_functor conn) = 0"
  shows "\<exists>sv'. TcpServer_RemoveConnection b conn (ss_server sys) = Inr sv'
    \<and> sys_inv (sys\<lparr>ss_conns := (ss_conns sys)(conn \<mapsto> s'), ss_server := sv'\<rparr>)"
proof -
  let ?sv = "ss_server sys" and ?h = "(ss_conns sys)(conn \<mapsto> s')"
  have svi: "sv_inv ?sv" using inv by (simp add: sys_inv_except_def)
  from TcpServer_RemoveConnection_fields [OF svi o(1), of b] obtain sv' where
    sv': "TcpServer_RemoveConnection b conn ?sv = Inr sv'" "sv_inv sv'" "named sv' = named ?sv"
    and upd: "if b then sv_live sv' = remove1 conn (sv_live ?sv) \<and> tasks sv' = tasks ?sv @ [ConnectDestroyed_functor conn]
       else sv_live sv' = sv_live ?sv \<and> tasks sv' = tasks ?sv @ [RemoveConnection_functor conn]" by auto
  have live: "c \<in> set (sv_live sv') \<longleftrightarrow> c \<in> set (sv_live ?sv)" if "c \<noteq> conn" for c
    using upd that by (auto split: if_splits)
  have me: "conn \<in> set (sv_live sv') \<longleftrightarrow> \<not> b" using upd o(1) live_distinct [OF svi] by (auto split: if_splits)
  have "task_phase (tasks sv') (conn \<in> set (sv_live sv')) conn s'"
    using upd o none s'(3) unfolding me by (auto simp: task_phase_def split: if_splits)
  moreover have "chan_ok (tasks sv') (conn \<in> set (sv_live sv')) conn s'"
    using upd s'(4) unfolding me by (auto simp: chan_ok_def split: if_splits)
  ultimately have mine: "conn_ok sv' conn s'" using s'(1,2) by (simp add: conn_ok_def)
  obtain g where g: "tasks sv' = tasks ?sv @ [g]" "task_conn g = Some conn" using upd by (auto split: if_splits)
  have others: "conn_ok sv' c t" if "ss_conns sys c = Some t" "c \<noteq> conn" for c t
    using sys_inv_exceptD(3) [OF inv that] that(2) by (simp add: conn_ok_def live g(1) phase_other_new [OF g(2)])
  have "set (sv_live sv') \<subseteq> set (sv_live ?sv)" using upd set_remove1_subset by (fastforce split: if_splits)
  then have "heap_ok sv' ?h" using inv sv'(3) g heap by (auto simp: heap_ok_def sys_inv_except_def)
  with sv'(1,2) mine others show ?thesis by (auto simp: sys_inv_def)
qed

lemma on_conn_ok:
  assumes inv: "sys_inv_except conn sys" and heap: "ss_conns sys conn = Some s" "close_told s"
    and f: "barring {LengthError} (\<lambda>s'. conn_live s' \<and> close_told s' \<and> (disconnected s \<longrightarrow> disconnected s')) (f s)"
    and ch: "barring UNIV (\<lambda>s'. \<not> event_handling (fst s')
      \<and> (disconnected s \<longrightarrow> chan_ok (tasks (ss_server sys)) (conn \<in> set (sv_live (ss_server sys))) conn s')) (f s)"
    and none: "count_list (tasks (ss_server sys)) (ConnectEstablished_functor conn) = 0"
    and open_conn: "\<not> disconnected s \<Longrightarrow> conn \<in> set (sv_live (ss_server sys))
      \<and> count_list (tasks (ss_server sys)) (RemoveConnection_functor conn) = 0
      \<and> count_list (tasks (ss_server sys)) (ConnectDestroyed_functor conn) = 0"
    and closed_conn: "disconnected s \<Longrightarrow> task_phase (tasks (ss_server sys)) (conn \<in> set (sv_live (ss_server sys))) conn s"
  shows "barring {LengthError} sys_inv (on_conn conn f sys)"
proof (cases "f s")
  case (Inl e)
  then show ?thesis using f heap by (simp add: on_conn_def)
next
  case (Inr s')
  then have s': "conn_live s'" "close_told s'" "disconnected s \<longrightarrow> disconnected s'" using f by auto
  have handled: "\<not> event_handling (fst s')" using ch Inr by simp
  let ?sv = "ss_server sys" and ?h = "(ss_conns sys)(conn \<mapsto> s')"
  have dom: "conn \<in> dom (ss_conns sys)" using heap(1) by auto
  have same: "closes s' = closes s \<longleftrightarrow> (disconnected s' \<longleftrightarrow> disconnected s)"
    using s'(2,3) heap(2) by (auto simp: close_told_def closes_def)
  have nc: "conn_inv s'" "tc_state (snd s') \<noteq> kConnecting" using s'(1) by (simp_all add: conn_live_def)
  show ?thesis
  proof (cases "closes s' = closes s")
    case True
    then have "task_phase (tasks ?sv) (conn \<in> set (sv_live ?sv)) conn s'"
      using same s'(3) none open_conn closed_conn nc(2) by (auto simp: task_phase_def)
    moreover have "chan_ok (tasks ?sv) (conn \<in> set (sv_live ?sv)) conn s'"
      using ch Inr open_conn by (cases "disconnected s") (simp_all add: chan_ok_def)
    ultimately have "conn_ok ?sv conn s'" using nc(1) s'(2) by (simp add: conn_ok_def)
    from sys_inv_put [OF inv this dom] show ?thesis using True Inr heap(1) by (simp add: on_conn_def)
  next
    case False
    then have d: "\<not> disconnected s" "disconnected s'" using same s'(3) by auto
    from open_conn [OF d(1)] on_conn_closes [OF inv dom nc(1) s'(2) d(2) handled none, of "in_base_loop conn ?sv"] False Inr heap(1)
    show ?thesis by (auto simp: on_conn_def)
  qed
qed

subsection \<open>Steps\<close>

lemma sys_inv_conn:
  assumes "sys_inv sys" "ss_conns sys conn = Some s"
  shows "conn_inv s" "close_told s" "task_phase (tasks (ss_server sys)) (conn \<in> set (sv_live (ss_server sys))) conn s"
    "chan_ok (tasks (ss_server sys)) (conn \<in> set (sv_live (ss_server sys))) conn s"
  using assms unfolding sys_inv_def conn_ok_def by blast+

lemma run_action_connecting:
  assumes "conn_inv s" "tc_state (snd s) = kConnecting"
  shows "run_action user write act s = Inr s"
  using assms idle_while_connecting [OF assms(2)]
  by (cases s, cases act) (auto simp: run_action_def conn_inv_def)

lemma run_action_ok:
  assumes "conn_live s" "action_ok act" "write_ok write" "user_ok user"
  shows "barring {LengthError} (conn_after s) (run_action user write act s)"
proof (cases act)
  case (Do_Send b data)
  then show ?thesis using barring_mono [OF Send_ok [OF assms(3,1), of data b] frame_after] assms(2)
    by (simp add: run_action_def action_ok_def)
next
  case (Do_Shutdown b)
  then show ?thesis using Shutdown_ok [OF assms(1), of b] by (auto simp: run_action_def intro: frame_after)
next
  case Do_functor
  obtain ch c where s: "s = (ch, c)" by (cases s)
  show ?thesis
  proof (cases "loop_functors c")
    case (Cons f fs)
    have "conn_live (ch, c\<lparr>loop_functors := fs\<rparr>)" "functors_small [f]" "f = ShutdownInLoop_functor \<longrightarrow> tc_state c \<noteq> kConnected"
      using assms(1) Cons s by (auto simp: conn_live_def conn_inv_def)
    then have "barring {LengthError} (conn_after (ch, c\<lparr>loop_functors := fs\<rparr>)) (run_conn_functor user write f (ch, c\<lparr>loop_functors := fs\<rparr>))"
      using assms(3,4) by (intro run_conn_functor_ok) simp_all
    then have "barring {LengthError} (conn_after s) (run_conn_functor user write f (ch, c\<lparr>loop_functors := fs\<rparr>))"
      by (rule barring_mono) (simp add: conn_after_def close_told_def s)
    then show ?thesis using Do_functor Cons s by (simp add: run_action_def)
  qed (use Do_functor s assms(1) in \<open>simp add: run_action_def conn_after_def\<close>)
next
  case (Do_event got readv t)
  then show ?thesis using conn_event_ok [OF assms(3,4) _ assms(1), of readv got t] assms(1,2)
    by (cases "IsNoneEvent (fst s)") (simp_all add: run_action_def action_ok_def conn_after_def)
qed (use assms(1) ForceClose_ok ForceCloseWithDelay_ok frame_after in \<open>simp_all add: run_action_def\<close>)

lemma action_step:
  assumes inv: "sys_inv sys" and conn: "ss_conns sys conn \<noteq> None" and ok: "action_ok act" "write_ok write" "user_ok user"
  shows "barring {LengthError} sys_inv (on_conn conn (run_action user write act) sys)"
proof -
  obtain s where s: "ss_conns sys conn = Some s" using conn by blast
  note c = sys_inv_conn [OF inv s]
  show ?thesis
  proof (cases "tc_state (snd s) = kConnecting")
    case True
    then show ?thesis using run_action_connecting [OF c(1)] s inv by (simp add: on_conn_def fun_upd_idem)
  next
    case False
    then have live: "conn_live s" using c(1) by (simp add: conn_live_def)
    show ?thesis
    proof (rule on_conn_ok [OF sys_inv_exceptI [OF inv] s c(2)])
      show "barring {LengthError} (\<lambda>s'. conn_live s' \<and> close_told s' \<and> (disconnected s \<longrightarrow> disconnected s')) (run_action user write act s)"
        by (rule barring_mono [OF run_action_ok [OF live ok]]) (use c(2) in \<open>auto simp: conn_after_def\<close>)
      have "\<not> event_handling (fst s)" using c(4) by (simp add: chan_ok_def)
      then show "barring UNIV (\<lambda>s'. \<not> event_handling (fst s')
          \<and> (disconnected s \<longrightarrow> chan_ok (tasks (ss_server sys)) (conn \<in> set (sv_live (ss_server sys))) conn s')) (run_action user write act s)"
        by (rule barring_mono [OF run_action_kept [OF c(1)]]) (use c(4) in \<open>auto simp: chan_ok_def\<close>)
    qed (use c(3) False in \<open>auto simp: task_phase_def\<close>)
  qed
qed

text \<open>Taking a functor out of the queue leaves the functors of the other connections as they are.\<close>

lemma take_task:
  assumes inv: "sys_inv sys" and q: "sv_queued (ss_server sys) = before @ (l, f) # after" and f: "task_conn f = Some conn"
  shows "sys_inv_except conn (sys\<lparr>ss_server := (ss_server sys)\<lparr>sv_queued := before @ after\<rparr>\<rparr>)" "conn \<in> dom (ss_conns sys)"
proof -
  have t: "tasks (ss_server sys) = map snd before @ f # map snd after" using q by (simp add: tasks_def)
  have "conn_ok ((ss_server sys)\<lparr>sv_queued := before @ after\<rparr>) c s" if "ss_conns sys c = Some s" "c \<noteq> conn" for c s
    using sys_inv_conn [OF inv that(1)] phase_other [OF f that(2)] chan_other [OF f that(2)] by (simp add: conn_ok_def t)
  then show "sys_inv_except conn (sys\<lparr>ss_server := (ss_server sys)\<lparr>sv_queued := before @ after\<rparr>\<rparr>)"
    using inv t by (auto simp: sys_inv_except_def sys_inv_def heap_ok_def named_def sv_inv_def)
  show "conn \<in> dom (ss_conns sys)" using inv t f by (auto simp: sys_inv_def heap_ok_def)
qed

lemma ConnectDestroyed_closed:
  assumes "conn_inv s" "disconnected s"
  shows "ConnectDestroyed user write s = Inr (fst s\<lparr>added_to_loop := False\<rparr>, snd s)"
  using assms by (cases s) (simp add: ConnectDestroyed_def conn_inv_def)

lemma establish_ok:
  assumes inv: "sys_inv_except conn sys" and heap: "ss_conns sys conn = Some s" "conn_inv s" "close_told s" "\<not> event_handling (fst s)"
    and st: "tc_state (snd s) = kConnecting" and live: "conn \<in> set (sv_live (ss_server sys))"
    and none: "\<forall>f \<in> set (tasks (ss_server sys)). task_conn f \<noteq> Some conn" and ok: "write_ok write" "user_ok user"
  shows "barring {LengthError} sys_inv (on_conn conn (ConnectEstablished user write) sys)"
proof (rule on_conn_ok [OF inv heap(1,3)])
  show "barring {LengthError} (\<lambda>s'. conn_live s' \<and> close_told s' \<and> (disconnected s \<longrightarrow> disconnected s')) (ConnectEstablished user write s)"
    by (rule barring_mono [OF ConnectEstablished_ok [OF ok heap(2) st]]) (use heap(3) in \<open>auto simp: conn_after_def\<close>)
  have "barring UNIV (\<lambda>s'. event_handling (fst s') = event_handling (fst s)) (ConnectEstablished user write s)"
    unfolding ConnectEstablished_def using st
    by (simp, intro barring_mono [OF call_user_kept]) (simp add: chan_kept_def Channel_Tie_def)
  then show "barring UNIV (\<lambda>s'. \<not> event_handling (fst s') \<and> (disconnected s \<longrightarrow>
      chan_ok (tasks (ss_server sys)) (conn \<in> set (sv_live (ss_server sys))) conn s')) (ConnectEstablished user write s)"
    by (rule barring_mono) (use heap(4) st in simp)
  have zero: "count_list (tasks (ss_server sys)) g = 0" if "task_conn g = Some conn" for g
    using none that by (auto intro: count_notin)
  show "count_list (tasks (ss_server sys)) (ConnectEstablished_functor conn) = 0" by (simp add: zero)
  show "conn \<in> set (sv_live (ss_server sys)) \<and> count_list (tasks (ss_server sys)) (RemoveConnection_functor conn) = 0
      \<and> count_list (tasks (ss_server sys)) (ConnectDestroyed_functor conn) = 0" using live by (simp add: zero)
qed (use st in simp)

lemma listen_task:
  assumes "sys_inv sys" "sv_queued (ss_server sys) = before @ (l, Listen_functor) # after"
  shows "barring {LengthError} sys_inv (run_task user write Listen_functor (sys\<lparr>ss_server := (ss_server sys)\<lparr>sv_queued := before @ after\<rparr>\<rparr>))"
proof -
  have "task_phase (map snd before @ Listen_functor # map snd after) k c s = task_phase (map snd before @ map snd after) k c s"
    "chan_ok (map snd before @ Listen_functor # map snd after) k c s = chan_ok (map snd before @ map snd after) k c s" for k c s
    by (simp_all add: task_phase_def chan_ok_def)
  then show ?thesis using assms
    by (auto simp: run_task_def sys_inv_def heap_ok_def conn_ok_def tasks_def named_def sv_inv_def)
qed

lemma established_task:
  assumes inv: "sys_inv sys" and q: "sv_queued (ss_server sys) = before @ (l, ConnectEstablished_functor conn) # after"
    and ok: "write_ok write" "user_ok user"
  shows "barring {LengthError} sys_inv
    (on_conn conn (ConnectEstablished user write) (sys\<lparr>ss_server := (ss_server sys)\<lparr>sv_queued := before @ after\<rparr>\<rparr>))"
    (is "barring _ _ (on_conn _ _ ?sys)")
proof -
  from take_task [OF inv q, of conn] obtain s where
    ex: "sys_inv_except conn ?sys" and s: "ss_conns sys conn = Some s" by auto
  note c = sys_inv_conn [OF inv s]
  have t: "tasks (ss_server sys) = map snd before @ ConnectEstablished_functor conn # map snd after"
    "tasks (ss_server ?sys) = map snd before @ map snd after" using q by (simp_all add: tasks_def)
  have st: "tc_state (snd s) = kConnecting" using c(3) t(1) by (auto simp: task_phase_def split: if_splits)
  then have live: "conn \<in> set (sv_live (ss_server sys))" using c(3) by (auto simp: task_phase_def)
  have none: "\<forall>g \<in> set (tasks (ss_server ?sys)). task_conn g \<noteq> Some conn"
  proof
    fix g assume "g \<in> set (tasks (ss_server ?sys))"
    then have "count_list (tasks (ss_server ?sys)) g \<noteq> 0" by (simp add: count_list_0_iff)
    then show "task_conn g \<noteq> Some conn" using c(3) live st t by (cases g) (auto simp: task_phase_def)
  qed
  have "\<not> event_handling (fst s)" using c(4) by (simp add: chan_ok_def)
  from establish_ok [OF ex _ c(1,2) this st _ none ok] s live show ?thesis by simp
qed

lemma destroyed_task:
  assumes inv: "sys_inv sys" and q: "sv_queued (ss_server sys) = before @ (l, ConnectDestroyed_functor conn) # after"
    and own: "own_functors_run (ConnectDestroyed_functor conn) sys"
  shows "barring {LengthError} sys_inv
    (on_conn conn (ConnectDestroyed user write) (sys\<lparr>ss_server := (ss_server sys)\<lparr>sv_queued := before @ after\<rparr>\<rparr>))"
    (is "barring _ _ (on_conn _ _ ?sys)")
proof -
  from take_task [OF inv q, of conn] obtain s where
    ex: "sys_inv_except conn ?sys" and s: "ss_conns sys conn = Some s" by auto
  note c = sys_inv_conn [OF inv s]
  have t: "tasks (ss_server sys) = map snd before @ ConnectDestroyed_functor conn # map snd after"
    "tasks (ss_server ?sys) = map snd before @ map snd after" using q by (simp_all add: tasks_def)
  have p: "conn \<notin> set (sv_live (ss_server sys))" "disconnected s" using c(3) t(1) by (auto simp: task_phase_def)
  have idle: "\<not> event_handling (fst s)" "loop_functors (snd s) = []"
    using c(4) own s by (simp_all add: chan_ok_def own_functors_run_def)
  have "conn_live s" using c(1) p(2) by (simp add: conn_live_def)
  then have live: "conn_live (fst s\<lparr>added_to_loop := False\<rparr>, snd s)" "close_told (fst s\<lparr>added_to_loop := False\<rparr>, snd s)"
    using c(2) by (cases s, simp_all add: conn_live_flags close_told_def)
  have "count_list (tasks (ss_server ?sys)) (ConnectEstablished_functor conn) = 0"
    "count_list (tasks (ss_server ?sys)) (RemoveConnection_functor conn) = 0"
    "count_list (tasks (ss_server ?sys)) (ConnectDestroyed_functor conn) = 0"
    using c(3) p t by (auto simp: task_phase_def)
  moreover from this p have "task_phase (tasks (ss_server ?sys)) (conn \<in> set (sv_live (ss_server ?sys))) conn s"
    by (simp add: task_phase_def)
  ultimately show ?thesis using s live p(2) idle
    by (intro on_conn_ok [OF ex _ c(2)]) (simp_all add: ConnectDestroyed_closed [OF c(1) p(2)] chan_ok_def)
qed

lemma removed_task:
  assumes inv: "sys_inv sys" and q: "sv_queued (ss_server sys) = before @ (l, f) # after" and f: "f = RemoveConnection_functor conn"
  shows "barring {LengthError} sys_inv (run_task user write f (sys\<lparr>ss_server := (ss_server sys)\<lparr>sv_queued := before @ after\<rparr>\<rparr>))"
proof -
  let ?sys = "sys\<lparr>ss_server := (ss_server sys)\<lparr>sv_queued := before @ after\<rparr>\<rparr>"
  from take_task [OF inv q, of conn] f obtain s where
    ex: "sys_inv_except conn ?sys" and s: "ss_conns sys conn = Some s" by auto
  note c = sys_inv_conn [OF inv s]
  have handled: "\<not> event_handling (fst s)" using c(4) by (simp add: chan_ok_def)
  have t: "tasks (ss_server sys) = map snd before @ f # map snd after" "tasks (ss_server ?sys) = map snd before @ map snd after"
    using q by (simp_all add: tasks_def)
  have p: "conn \<in> set (sv_live (ss_server sys))" "disconnected s" "count_list (tasks (ss_server ?sys)) f = 0"
    "count_list (tasks (ss_server ?sys)) (ConnectDestroyed_functor conn) = 0"
    "count_list (tasks (ss_server ?sys)) (ConnectEstablished_functor conn) = 0"
    using c(3) f t by (auto simp: task_phase_def split: if_splits)
  have svi: "sv_inv (ss_server ?sys)" using ex by (simp add: sys_inv_except_def)
  from RemoveConnection_fields [OF svi, of conn] p(1) obtain sv' where
    sv': "RemoveConnectionInLoop True conn (ss_server ?sys) = Inr sv'" "sv_inv sv'" "named sv' = named (ss_server ?sys)"
      "sv_live sv' = remove1 conn (sv_live (ss_server ?sys))" "tasks sv' = tasks (ss_server ?sys) @ [ConnectDestroyed_functor conn]" by auto
  have me: "conn \<notin> set (sv_live sv')" using sv'(4) live_distinct [OF svi] by simp
  have mine: "conn_ok sv' conn s" using c(1,2) me p(2-5) f handled by (simp add: conn_ok_def task_phase_def chan_ok_def sv'(5))
  have others: "conn_ok sv' c t" if "ss_conns sys c = Some t" "c \<noteq> conn" for c t
    using sys_inv_exceptD(3) [OF ex, of c t] that phase_other_new [of "ConnectDestroyed_functor conn" conn c "map snd before @ map snd after"]
    by (simp add: conn_ok_def sv'(4,5))
  have all: "conn_ok sv' c t" if "ss_conns sys c = Some t" for c t
  proof (cases "c = conn")
    case True
    then show ?thesis using that s mine by simp
  qed (rule others [OF that])
  have "heap_ok sv' (ss_conns sys)"
    using ex sv'(3-5) s notin_set_remove1 by (fastforce simp: heap_ok_def sys_inv_except_def)
  with sv'(2) all have "sys_inv (?sys\<lparr>ss_server := sv'\<rparr>)" by (simp add: sys_inv_def)
  then show ?thesis using sv'(1) f by (simp add: run_task_def)
qed

lemma task_step:
  assumes "sys_inv sys" "sv_queued (ss_server sys) = before @ (l, f) # after" "own_functors_run f sys" "write_ok write" "user_ok user"
  shows "barring {LengthError} sys_inv (run_task user write f (sys\<lparr>ss_server := (ss_server sys)\<lparr>sv_queued := before @ after\<rparr>\<rparr>))"
proof (cases f)
  case (ConnectEstablished_functor conn)
  then show ?thesis using established_task [of sys before l conn "after" _ user] assms by (simp add: run_task_def)
next
  case (ConnectDestroyed_functor conn)
  then show ?thesis using destroyed_task [of sys before l conn "after" user] assms by (simp add: run_task_def)
next
  case (RemoveConnection_functor conn)
  then show ?thesis by (rule removed_task [OF assms(1,2)])
next
  case Listen_functor
  then show ?thesis using listen_task [of sys before l "after" user] assms by simp
qed

lemma accept_step:
  assumes inv: "sys_inv sys" and n: "sv_next_conn_id (ss_server sys) < 10 ^ 8" and ok: "write_ok write" "user_ok user"
  shows "barring {LengthError} sys_inv (system_accept user write sockfd has_wc sys)"
proof -
  let ?h = "ss_conns sys"
  have svi: "sv_inv (ss_server sys)" and heap: "heap_ok (ss_server sys) ?h" using inv by (simp_all add: sys_inv_def)
  from NewConnection_fields [OF svi n, of sockfd] obtain sv conn l where
    sv: "TcpServer_NewConnection True sockfd (ss_server sys) = Inr sv" "sv_inv sv" "sv_live sv = sv_live (ss_server sys) @ [conn]"
      "sv_queued sv = sv_queued (ss_server sys) @ [(l, ConnectEstablished_functor conn)]"
    and names: "\<forall>c. named (ss_server sys) c \<longrightarrow> named sv c \<and> sc_name c \<noteq> sc_name conn" "named sv conn" by blast
  have fresh: "conn \<notin> dom ?h" using heap names(1) by (auto simp: heap_ok_def)
  from TcpConnection_new_ok [of sockfd has_wc False] obtain s where
    s: "TcpConnection_new sockfd has_wc False = Inr s" "conn_inv s" "tc_state (snd s) = kConnecting" "callback_log (snd s) = []" by blast
  then have told: "close_told s" by (simp add: close_told_def)
  have handled: "\<not> event_handling (fst s)"
    using s(1) by (auto simp: TcpConnection_new_def Channel_new_def and_then_Inr_iff)
  have none: "\<forall>f \<in> set (tasks (ss_server sys)). task_conn f \<noteq> Some conn" using heap fresh by (auto simp: heap_ok_def)
  then have zero: "count_list (tasks (ss_server sys)) g = 0" if "task_conn g = Some conn" for g
    using that by (auto intro: count_notin)
  have t: "tasks sv = tasks (ss_server sys) @ [ConnectEstablished_functor conn]" by (simp add: tasks_def sv(4))
  have old: "conn_ok (ss_server sys) c u" if "?h c = Some u" for c u using inv that unfolding sys_inv_def by blast
  define sys1 where "sys1 = sys\<lparr>ss_server := sv\<lparr>sv_queued := sv_queued (ss_server sys)\<rparr>, ss_conns := ?h(conn \<mapsto> s)\<rparr>"
  have t1: "tasks (ss_server sys1) = tasks (ss_server sys)" by (simp add: sys1_def tasks_def)
  have ex: "sys_inv_except conn sys1"
  proof -
    have "sv_inv (ss_server sys1)" using sv(2) by (simp add: sys1_def sv_inv_def)
    moreover have "heap_ok (ss_server sys1) (ss_conns sys1)" unfolding heap_ok_def t1
      using heap names sv(3) by (auto simp: sys1_def heap_ok_def named_def)
    moreover have "conn_ok (ss_server sys1) c u" if "ss_conns sys1 c = Some u" "c \<noteq> conn" for c u
      using old [of c u] that unfolding conn_ok_def t1 by (simp add: sys1_def sv(3))
    ultimately show ?thesis unfolding sys_inv_except_def by blast
  qed
  show ?thesis
  proof (cases "in_base_loop conn sv")
    case True
    have "barring {LengthError} sys_inv (on_conn conn (ConnectEstablished user write) sys1)"
      by (rule establish_ok [OF ex _ s(2) told handled s(3) _ _ ok]) (use none t1 sv(3) in \<open>simp_all add: sys1_def\<close>)
    then show ?thesis using True sv s(1) by (simp add: system_accept_def run_task_def sys1_def)
  next
    case False
    have mine: "conn_ok sv conn s" using s(2,3) told handled by (simp add: conn_ok_def task_phase_def chan_ok_def t zero sv(3))
    moreover have "conn_ok sv c u" if "?h c = Some u" "c \<noteq> conn" for c u
      using old [OF that(1)] phase_other_new [of "ConnectEstablished_functor conn" conn c] that(2)
      by (simp add: conn_ok_def t sv(3))
    moreover have "heap_ok sv (?h(conn \<mapsto> s))" using heap names by (auto simp: heap_ok_def t sv(3))
    ultimately have "sys_inv (sys\<lparr>ss_server := sv, ss_conns := ?h(conn \<mapsto> s)\<rparr>)" using sv(2) by (auto simp: sys_inv_def)
    then show ?thesis using False sv s(1) by (simp add: system_accept_def)
  qed
qed

lemma known_iff:
  "sv_inv sv \<Longrightarrow> map_of (sv_connections sv) (sc_name conn) = Some conn \<longleftrightarrow> conn \<in> set (sv_live sv)"
  by (auto simp: sv_inv_def distinct_map map_of_eq_Some_iff comp_def)

lemma not_referenced:
  assumes "sv_inv sv" "\<not> referenced conn s sv"
  shows "conn \<notin> set (sv_live sv)" "task_conn f = Some conn \<Longrightarrow> f \<notin> set (tasks sv)"
  using assms known_iff [OF assms(1)] by (cases f; auto simp: referenced_def tasks_def)+

lemma released_ok:
  assumes "sys_inv sys" "ss_conns sys conn = Some s" "conn \<notin> set (sv_live (ss_server sys))"
    and "ConnectDestroyed_functor conn \<notin> set (tasks (ss_server sys))"
  shows "TcpConnection_destroy s = Inr ()" "Channel_destroy b (added_to_loop (fst s)) (fst s) = Inr ()" "loop_functors (snd s) = []"
proof -
  note c = sys_inv_conn [OF assms(1,2)]
  have "count_list (tasks (ss_server sys)) (ConnectDestroyed_functor conn) = 0" using assms(4) by (rule count_notin)
  then show "TcpConnection_destroy s = Inr ()" "Channel_destroy b (added_to_loop (fst s)) (fst s) = Inr ()" "loop_functors (snd s) = []"
    using c(3,4) assms(3) by (simp_all add: task_phase_def chan_ok_def TcpConnection_destroy_def Channel_destroy_def)
qed

lemma release_step:
  assumes inv: "sys_inv sys"
  shows "barring {LengthError} sys_inv (release b conn sys)"
proof (cases "ss_conns sys conn")
  case (Some s)
  show ?thesis
  proof (cases "referenced conn s (ss_server sys)")
    case False
    have svi: "sv_inv (ss_server sys)" using inv by (simp add: sys_inv_def)
    note n = not_referenced [OF svi False]
    have "sys_inv (sys\<lparr>ss_conns := (ss_conns sys)(conn := None)\<rparr>)"
      using inv n by (auto simp: sys_inv_def heap_ok_def)
    then show ?thesis using Some False released_ok [OF inv Some n(1)] n(2) by (simp add: release_def)
  qed (use Some inv in \<open>simp add: release_def\<close>)
qed (use inv in \<open>simp add: release_def\<close>)

lemma timer_step:
  assumes "sys_inv sys"
  shows "barring {LengthError} sys_inv (WeakCallback_call conn (\<lambda>s. Inr (ForceClose s)) sys)"
proof (cases "ss_conns sys conn")
  case (Some s)
  have "run_action user w Do_ForceClose = (\<lambda>s. Inr (ForceClose s))" for user w by (simp add: run_action_def fun_eq_iff)
  with action_step [OF assms, of conn Do_ForceClose, OF _ _ stub_write_ok silent_user_ok] Some
  show ?thesis by (simp add: WeakCallback_call_def action_ok_def)
qed (use assms in \<open>simp add: WeakCallback_call_def\<close>)

text \<open>A server that is constructed, given threads and started in the thread of its loop listens.\<close>

lemma server_starts:
  assumes "0 \<le> n"
  shows "\<exists>sv0 sv1 sv. TcpServer_new le loop addr name = Inr sv0 \<and> TcpServer_set_thread_num n sv0 = Inr sv1 \<and> (n = 0 \<longrightarrow> sv1 = sv0)
    \<and> TcpServer_Start StartLoop True has_cb sv1 = Inr sv \<and> sv_listenning sv \<and> pool_loops (sv_pool sv) = map StartLoop [0..<nat n]
    \<and> sys_run (Inr \<lparr>ss_server = sv, ss_conns = Map.empty\<rparr>)"
proof -
  obtain hp where "ToIpPort le addr = Inr hp" using ToIpPort_text by blast
  then obtain sv0 where new: "TcpServer_new le loop addr name = Inr sv0"
    and sv0: "\<not> sv_started sv0" "\<not> sv_listenning sv0" "sv_pool sv0 = EventLoopThreadPool_new loop"
    by (simp add: TcpServer_new_def)
  let ?sv1 = "sv0\<lparr>sv_pool := (sv_pool sv0)\<lparr>num_threads := n\<rparr>\<rparr>"
  have set: "TcpServer_set_thread_num n sv0 = Inr ?sv1" and same: "n = 0 \<longrightarrow> ?sv1 = sv0"
    using assms sv0(3) by (auto simp: TcpServer_set_thread_num_def set_thread_num_def EventLoopThreadPool_new_def)
  obtain sv where start: "TcpServer_Start StartLoop True has_cb ?sv1 = Inr sv" "sv_listenning sv"
    "pool_loops (sv_pool sv) = map StartLoop [0..<nat n]"
    using sv0 by (simp add: TcpServer_Start_def pool_Start_def EventLoopThreadPool_new_def Let_def)
  show ?thesis using new set same start sys_begin [OF new set start(1)] by blast
qed

lemma sys_run_inv: "sys_run m \<Longrightarrow> barring {LengthError} sys_inv m"
proof (induction rule: sys_run.induct)
  case (sys_begin le loop addr name sv0 n sv1 StartLoop has_cb sv)
  then have "sv_inv sv" using TcpServer_Start_ok [OF sys_begin(1,2), of StartLoop has_cb] by auto
  moreover have "sv_queued sv = []" "sv_live sv = []" using sys_begin
    by (auto simp: TcpServer_new_def TcpServer_set_thread_num_def TcpServer_Start_def and_then_Inr_iff Let_def split: if_splits)
  ultimately show ?case by (simp add: sys_inv_def heap_ok_def tasks_def)
next
  case (sys_accept sys w user sockfd has_wc)
  then show ?case by (intro accept_step) simp_all
next
  case (sys_task sys before l f "after" w user)
  then show ?case by (intro task_step) simp_all
next
  case (sys_action sys conn act w user)
  then show ?case by (intro action_step) simp_all
qed (simp_all add: release_step timer_step)

section \<open>Properties\<close>



end
