(* ===== verification/Echo_Server.thy ===== *)
theory Echo_Server
  imports Conn_Session Server_System
begin

text \<open>
  \<^verbatim>\<open>examples/echo/echo.h\<close>, \<^verbatim>\<open>echo.cpp\<close>: a server whose message callback sends back what it read and whose connection
  callback only logs. It is a user of a connection in the sense of the locale \<open>session_user\<close>, with an abstract
  server that has nothing but the bytes read so far; so in every run of a connection what is sent is what was read.
\<close>

section \<open>EchoServer\<close>

definition EchoServer_new :: "bool \<Rightarrow> loop_addr \<Rightarrow> sockaddr_in \<Rightarrow> tcp_server outcome" where
  "EchoServer_new le loop listen_addr = TcpServer_new le loop listen_addr ''EchoServer''"

definition EchoServer_Start :: "(nat \<Rightarrow> loop_addr) \<Rightarrow> bool \<Rightarrow> tcp_server \<Rightarrow> tcp_server outcome" where
  "EchoServer_Start StartLoop in_loop server = TcpServer_Start StartLoop in_loop False server"

text \<open>The callbacks: the calls they make on the connection. The string is taken off the buffer before it is sent.\<close>

definition echo_OnConnection :: "bool \<Rightarrow> user_call list" where
  "echo_OnConnection connected = []"

definition echo_OnMessage :: "buffer \<Rightarrow> (user_call list) outcome" where
  "echo_OnMessage buf =
     and_then (RetrieveAllAsString buf) (\<lambda>(msg, _). Inr [User_Retrieve (ReadableBytes buf), User_Send msg])"

definition echo_handler :: "unit message_handler" where
  "echo_handler receive_time buf x = and_then (echo_OnMessage buf) (\<lambda>calls. Inr (calls, x))"

text \<open>
  \<^verbatim>\<open>main\<close> starts such a server on port 2007, on the loop it then runs in the same thread. It gets as far as the loop, with a
  listening server without threads of its own, which is a run of the system theory.
\<close>

definition echo_main :: "bool \<Rightarrow> loop_addr \<Rightarrow> (nat \<Rightarrow> loop_addr) \<Rightarrow> tcp_server outcome" where
  "echo_main le loop StartLoop =
     and_then (EchoServer_new le loop (InetAddress_port le 2007 False)) (EchoServer_Start StartLoop True)"

lemma echo_main_runs:
  "\<exists>sv. echo_main le loop StartLoop = Inr sv \<and> sv_listenning sv \<and> pool_loops (sv_pool sv) = []
     \<and> sys_run (Inr \<lparr>ss_server = sv, ss_conns = Map.empty\<rparr>)"
  using server_starts [of 0 le loop "InetAddress_port le 2007 False" "''EchoServer''" StartLoop False]
  by (auto simp: echo_main_def EchoServer_new_def EchoServer_Start_def)

section \<open>Echoing\<close>

lemma echo_OnMessage_calls:
  assumes "wf_buffer b"
  shows "echo_OnMessage b = Inr [User_Retrieve (length (content b)), User_Send (content b)]"
  using RetrieveAllAsString_content [OF assms] assms by (auto simp: echo_OnMessage_def)

lemma echo_handler_calls:
  assumes "wf_buffer b"
  shows "echo_handler t b x = Inr ([User_Retrieve (length (content b)), User_Send (content b)], x)"
    "length (content b) < 2 ^ 63"
  using assms length_content [OF assms] wf_bounds [OF assms] by (simp_all add: echo_handler_def echo_OnMessage_calls)

interpretation echo: session_user echo_handler "()" "\<lambda>(_, seg) out. out @ seg" "[]" "\<lambda>out. out" "\<lambda>_. True"
  "\<lambda>_ _ pending. pending = []" "\<lambda>_. {}"
  by unfold_locales (auto simp: echo_handler_calls(1) dest: echo_handler_calls(2))

lemma echo_so_far: "echo.so_far reads = concat (map snd reads)"
  by (induction reads rule: rev_induct) (auto simp: echo.so_far_def)

section \<open>Properties\<close>



end
