(* ===== verification/Buffer_Type.thy ===== *)
theory Buffer_Type
  imports Buffer
begin

text \<open>
  Type safety of \<^verbatim>\<open>Buffer\<close> (\<^verbatim>\<open>muduo-cpp11/net/buffer.h\<close>) under its whole public interface. A program that uses a
  buffer is a sequence of calls; \<open>call_ok\<close> says only that the caller's own pointers are good and that lengths
  are lengths of objects, \<open>call_guard\<close> is what the assertions of the operation ask for.
\<close>

section \<open>Calls\<close>

datatype buffer_call =
    Call_swap buffer
  | Call_FindCRLF nat
  | Call_FindEOL nat
  | Call_Retrieve nat
  | Call_RetrieveUntil nat
  | Call_RetrieveInt64
  | Call_RetrieveInt32
  | Call_RetrieveInt16
  | Call_RetrieveInt8
  | Call_RetrieveAll
  | Call_RetrieveAllAsString
  | Call_RetrieveAsString nat
  | Call_AppendPiece string_piece
  | Call_Append "char list" nat
  | Call_EnsureWritableBytes nat
  | Call_HasWritten nat
  | Call_Unwrite nat
  | Call_AppendInt64 "64 word"
  | Call_AppendInt32 "32 word"
  | Call_AppendInt16 "16 word"
  | Call_AppendInt8 "8 word"
  | Call_ReadInt64
  | Call_ReadInt32
  | Call_ReadInt16
  | Call_ReadInt8
  | Call_PeekInt64
  | Call_PeekInt32
  | Call_PeekInt16
  | Call_PeekInt8
  | Call_PrependInt64 "64 word"
  | Call_PrependInt32 "32 word"
  | Call_PrependInt16 "16 word"
  | Call_PrependInt8 "8 word"
  | Call_Prepend "char list" nat
  | Call_Shrink nat
  | Call_ReadFd readv_call

text \<open>The buffer after a call; results other than the buffer are dropped. \<open>le\<close> is the byte order of the host.\<close>

definition keep :: "'a outcome \<Rightarrow> buffer \<Rightarrow> buffer outcome" where
  "keep m b = and_then m (\<lambda>_. Inr b)"

definition buffer_of :: "('a \<times> buffer) outcome \<Rightarrow> buffer outcome" where
  "buffer_of m = and_then m (\<lambda>(_, b). Inr b)"

fun run_buffer_call :: "bool \<Rightarrow> buffer_call \<Rightarrow> buffer \<Rightarrow> buffer outcome" where
  "run_buffer_call le (Call_swap rhs) b = Inr (fst (Buffer_swap b rhs))"
| "run_buffer_call le (Call_FindCRLF start) b = keep (FindCRLF_from b start) b"
| "run_buffer_call le (Call_FindEOL start) b = keep (FindEOL_from b start) b"
| "run_buffer_call le (Call_Retrieve len) b = Retrieve b len"
| "run_buffer_call le (Call_RetrieveUntil p) b = RetrieveUntil b p"
| "run_buffer_call le Call_RetrieveInt64 b = RetrieveInt64 b"
| "run_buffer_call le Call_RetrieveInt32 b = RetrieveInt32 b"
| "run_buffer_call le Call_RetrieveInt16 b = RetrieveInt16 b"
| "run_buffer_call le Call_RetrieveInt8 b = RetrieveInt8 b"
| "run_buffer_call le Call_RetrieveAll b = Inr (RetrieveAll b)"
| "run_buffer_call le Call_RetrieveAllAsString b = buffer_of (RetrieveAllAsString b)"
| "run_buffer_call le (Call_RetrieveAsString len) b = buffer_of (RetrieveAsString b len)"
| "run_buffer_call le (Call_AppendPiece str) b = Append_piece b str"
| "run_buffer_call le (Call_Append data len) b = Append b data len"
| "run_buffer_call le (Call_EnsureWritableBytes len) b = EnsureWritableBytes b len"
| "run_buffer_call le (Call_HasWritten len) b = HasWritten b len"
| "run_buffer_call le (Call_Unwrite len) b = Unwrite b len"
| "run_buffer_call le (Call_AppendInt64 x) b = AppendInt64 le b x"
| "run_buffer_call le (Call_AppendInt32 x) b = AppendInt32 le b x"
| "run_buffer_call le (Call_AppendInt16 x) b = AppendInt16 le b x"
| "run_buffer_call le (Call_AppendInt8 x) b = AppendInt8 le b x"
| "run_buffer_call le Call_ReadInt64 b = buffer_of (ReadInt64 le b)"
| "run_buffer_call le Call_ReadInt32 b = buffer_of (ReadInt32 le b)"
| "run_buffer_call le Call_ReadInt16 b = buffer_of (ReadInt16 le b)"
| "run_buffer_call le Call_ReadInt8 b = buffer_of (ReadInt8 le b)"
| "run_buffer_call le Call_PeekInt64 b = keep (PeekInt64 le b) b"
| "run_buffer_call le Call_PeekInt32 b = keep (PeekInt32 le b) b"
| "run_buffer_call le Call_PeekInt16 b = keep (PeekInt16 le b) b"
| "run_buffer_call le Call_PeekInt8 b = keep (PeekInt8 le b) b"
| "run_buffer_call le (Call_PrependInt64 x) b = PrependInt64 le b x"
| "run_buffer_call le (Call_PrependInt32 x) b = PrependInt32 le b x"
| "run_buffer_call le (Call_PrependInt16 x) b = PrependInt16 le b x"
| "run_buffer_call le (Call_PrependInt8 x) b = PrependInt8 le b x"
| "run_buffer_call le (Call_Prepend data len) b = Prepend b data len"
| "run_buffer_call le (Call_Shrink reserve) b = Shrink b reserve"
| "run_buffer_call le (Call_ReadFd readv) b = and_then (ReadFd readv b) (\<lambda>(_, _, b'). Inr b')"

text \<open>
  What the caller owes: a pointer argument points to as many bytes as the length says, and a length is that of an
  object of its own, hence below \<open>2 ^ 63\<close>. \<^verbatim>\<open>Shrink\<close> takes any \<^verbatim>\<open>size_t\<close>.
\<close>

fun call_ok :: "buffer_call \<Rightarrow> bool" where
  "call_ok (Call_swap rhs) = wf_buffer rhs"
| "call_ok (Call_AppendPiece str) = sp_valid str"
| "call_ok (Call_Append data len) = (len \<le> length data \<and> len < 2 ^ 63)"
| "call_ok (Call_EnsureWritableBytes len) = (len < 2 ^ 63)"
| "call_ok (Call_Prepend data len) = (len \<le> length data)"
| "call_ok (Call_Shrink reserve) = (reserve < 2 ^ 64)"
| "call_ok (Call_ReadFd readv) = readv_fits readv"
| "call_ok _ = True"

text \<open>What the assertions of an operation ask for, in terms of the bytes the buffer holds.\<close>

fun call_guard :: "buffer \<Rightarrow> buffer_call \<Rightarrow> bool" where
  "call_guard b (Call_FindCRLF start) = (reader_index b \<le> start \<and> start \<le> writer_index b)"
| "call_guard b (Call_FindEOL start) = (reader_index b \<le> start \<and> start \<le> writer_index b)"
| "call_guard b (Call_Retrieve len) = (len \<le> length (content b))"
| "call_guard b (Call_RetrieveUntil p) = (reader_index b \<le> p \<and> p \<le> writer_index b)"
| "call_guard b Call_RetrieveInt64 = (8 \<le> length (content b))"
| "call_guard b Call_RetrieveInt32 = (4 \<le> length (content b))"
| "call_guard b Call_RetrieveInt16 = (2 \<le> length (content b))"
| "call_guard b Call_RetrieveInt8 = (1 \<le> length (content b))"
| "call_guard b (Call_RetrieveAsString len) = (len \<le> length (content b))"
| "call_guard b (Call_HasWritten len) = (writer_index b + len \<le> length (buf_bytes b))"
| "call_guard b (Call_Unwrite len) = (len \<le> length (content b))"
| "call_guard b Call_ReadInt64 = (8 \<le> length (content b))"
| "call_guard b Call_ReadInt32 = (4 \<le> length (content b))"
| "call_guard b Call_ReadInt16 = (2 \<le> length (content b))"
| "call_guard b Call_ReadInt8 = (1 \<le> length (content b))"
| "call_guard b Call_PeekInt64 = (8 \<le> length (content b))"
| "call_guard b Call_PeekInt32 = (4 \<le> length (content b))"
| "call_guard b Call_PeekInt16 = (2 \<le> length (content b))"
| "call_guard b Call_PeekInt8 = (1 \<le> length (content b))"
| "call_guard b (Call_PrependInt64 x) = (8 \<le> reader_index b)"
| "call_guard b (Call_PrependInt32 x) = (4 \<le> reader_index b)"
| "call_guard b (Call_PrependInt16 x) = (2 \<le> reader_index b)"
| "call_guard b (Call_PrependInt8 x) = (1 \<le> reader_index b)"
| "call_guard b (Call_Prepend data len) = (len \<le> reader_index b)"
| "call_guard b (Call_Shrink reserve) =
     (size_add (length (content b)) reserve < 2 ^ 64 - 8 \<and> length (content b) mod 2 ^ 32 < 2 ^ 32 - 8)"
| "call_guard b _ = True"

text \<open>
  How a call with guard \<open>g\<close> ends: with a well-formed buffer, then the guard held; with a failed assertion, then it
  did not; or with the vector's \<^verbatim>\<open>length_error\<close>. Nothing else: no access outside the vector.
\<close>

definition ends_well :: "bool \<Rightarrow> buffer outcome \<Rightarrow> bool" where
  "ends_well g m = (case m of
       Inr b \<Rightarrow> g \<and> wf_buffer b
     | Inl (AssertFailed what) \<Rightarrow> \<not> g
     | Inl LengthError \<Rightarrow> True
     | _ \<Rightarrow> False)"

lemma ends_well_simps [simp]:
  "ends_well g (Inr b) \<longleftrightarrow> g \<and> wf_buffer b" "ends_well g (Inl LengthError)"
  "ends_well g (Inl (AssertFailed what)) \<longleftrightarrow> \<not> g"
  by (simp_all add: ends_well_def)

lemma ends_well_cases:
  assumes "ends_well g m"
  obtains b where "m = Inr b" "g" "wf_buffer b" | what where "m = Inl (AssertFailed what)" "\<not> g"
    | "m = Inl LengthError"
  using assms by (auto simp: ends_well_def split: sum.splits abort.splits)

section \<open>Each operation ends well\<close>

lemma Retrieve_ends: "wf_buffer b \<Longrightarrow> ends_well (n \<le> length (content b)) (Retrieve b n)"
  using Retrieve_content [of b n] by (cases "n \<le> length (content b)") (auto simp: Retrieve_def)

lemma RetrieveUntil_ends:
  "wf_buffer b \<Longrightarrow> ends_well (reader_index b \<le> p \<and> p \<le> writer_index b) (RetrieveUntil b p)"
  using RetrieveUntil_content [of b p]
  by (cases "reader_index b \<le> p \<and> p \<le> writer_index b") (auto simp: RetrieveUntil_def Peek_def BeginWrite_def asserting_def)

lemma RetrieveAsString_ends:
  "wf_buffer b \<Longrightarrow> ends_well (n \<le> length (content b)) (buffer_of (RetrieveAsString b n))"
  using RetrieveAsString_content [of b n]
  by (cases "n \<le> length (content b)") (auto simp: RetrieveAsString_def buffer_of_def)

lemma RetrieveAllAsString_ends: "wf_buffer b \<Longrightarrow> ends_well True (buffer_of (RetrieveAllAsString b))"
  using RetrieveAllAsString_content [of b] by (auto simp: buffer_of_def)

lemma Append_ends: "wf_buffer b \<Longrightarrow> n \<le> length data \<Longrightarrow> n < 2 ^ 63 \<Longrightarrow> ends_well True (Append b data n)"
  using Append_outcome [of b n data] by auto

lemma Append_piece_ends: "wf_buffer b \<Longrightarrow> sp_valid str \<Longrightarrow> ends_well True (Append_piece b str)"
  unfolding Append_piece_def by (rule Append_ends) (auto simp: sp_valid_def size_of_int_exact)

lemma Find_ends:
  assumes "wf_buffer b"
  shows "ends_well (reader_index b \<le> s \<and> s \<le> writer_index b) (keep (FindCRLF_from b s) b)"
    and "ends_well (reader_index b \<le> s \<and> s \<le> writer_index b) (keep (FindEOL_from b s) b)"
  using assms
  by (auto simp: keep_def FindCRLF_from_def FindEOL_from_def Peek_def BeginWrite_def asserting_def Let_def)

lemma EnsureWritableBytes_ends:
  assumes "wf_buffer b" "len < 2 ^ 63"
  shows "ends_well True (EnsureWritableBytes b len)"
proof (cases "room b len")
  case True
  from EnsureWritableBytes_content [OF assms(1) this] show ?thesis by auto
next
  case False
  note bd = wf_bounds [OF assms(1)]
  have w: "WritableBytes b < len"
    using False bd by (auto simp: room_def WritableBytes_exact [OF assms(1)] wf_buffer_def)
  show ?thesis
  proof (cases "WritableBytes b + PrependableBytes b < len + kCheapPrepend")
    case True
    have "MakeSpace b len = Inl LengthError"
      using True False bd assms(2)
      by (simp add: MakeSpace_def vector_resize_def machine_simps PrependableBytes_def room_def
          buffer_const_defs WritableBytes_exact [OF assms(1)])
    with w show ?thesis by (simp add: EnsureWritableBytes_def)
  next
    case False
    with MakeSpace_move [OF assms(1) w] w show ?thesis by (auto simp: EnsureWritableBytes_def)
  qed
qed

lemma HasWritten_ends:
  assumes "wf_buffer b"
  shows "ends_well (writer_index b + len \<le> length (buf_bytes b)) (HasWritten b len)"
  using assms wf_bounds [OF assms]
  by (auto simp: HasWritten_def WritableBytes_exact asserting_def size_add_exact wf_buffer_def kCheapPrepend_def)

lemma Unwrite_ends:
  assumes "wf_buffer b"
  shows "ends_well (len \<le> length (content b)) (Unwrite b len)"
  using assms wf_bounds [OF assms] length_content [OF assms]
  by (auto simp: Unwrite_def asserting_def size_sub_exact wf_buffer_def kCheapPrepend_def)

lemma Prepend_ends:
  assumes "wf_buffer b" "len \<le> length data"
  shows "ends_well (len \<le> reader_index b) (Prepend b data len)"
  using assms wf_bounds [OF assms(1)]
  by (auto simp: Prepend_def PrependableBytes_def asserting_def size_sub_exact copy_in_def Let_def wf_buffer_def kCheapPrepend_def)

lemma AppendInt_ends:
  assumes "wf_buffer b"
  shows "ends_well True (AppendInt64 le b x)" "ends_well True (AppendInt32 le b y)"
    "ends_well True (AppendInt16 le b z)" "ends_well True (AppendInt8 le b w)"
  unfolding AppendInt64_def AppendInt32_def AppendInt16_def AppendInt8_def Let_def
  by (rule Append_ends [OF assms]; simp)+

lemma PrependInt_ends:
  assumes "wf_buffer b"
  shows "ends_well (8 \<le> reader_index b) (PrependInt64 le b x)" "ends_well (4 \<le> reader_index b) (PrependInt32 le b y)"
    "ends_well (2 \<le> reader_index b) (PrependInt16 le b z)" "ends_well (1 \<le> reader_index b) (PrependInt8 le b w)"
  unfolding PrependInt64_def PrependInt32_def PrependInt16_def PrependInt8_def Let_def
  by (rule Prepend_ends [OF assms]; simp)+

lemma peek_ends:
  "wf_buffer b \<Longrightarrow> ends_well (n \<le> length (content b))
     (keep (asserting (n \<le> ReadableBytes b) what (and_then (read_bytes b n) (\<lambda>m. Inr (f m)))) b)"
  using read_bytes_content [of b n] by (auto simp: keep_def asserting_def)

lemma read_ends:
  "wf_buffer b \<Longrightarrow> ends_well (n \<le> length (content b))
     (buffer_of (and_then (asserting (n \<le> ReadableBytes b) what (and_then (read_bytes b n) (\<lambda>m. Inr (f m))))
        (\<lambda>r. and_then (Retrieve b n) (\<lambda>b'. Inr (r, b')))))"
  using read_bytes_content [of b n] Retrieve_content [of b n] by (auto simp: buffer_of_def asserting_def)

lemma PeekInt_ends:
  assumes "wf_buffer b"
  shows "ends_well (8 \<le> length (content b)) (keep (PeekInt64 le b) b)"
    "ends_well (4 \<le> length (content b)) (keep (PeekInt32 le b) b)"
    "ends_well (2 \<le> length (content b)) (keep (PeekInt16 le b) b)"
    "ends_well (1 \<le> length (content b)) (keep (PeekInt8 le b) b)"
  unfolding PeekInt64_def PeekInt32_def PeekInt16_def PeekInt8_def by (rule peek_ends [OF assms])+

lemma ReadInt_ends:
  assumes "wf_buffer b"
  shows "ends_well (8 \<le> length (content b)) (buffer_of (ReadInt64 le b))"
    "ends_well (4 \<le> length (content b)) (buffer_of (ReadInt32 le b))"
    "ends_well (2 \<le> length (content b)) (buffer_of (ReadInt16 le b))"
    "ends_well (1 \<le> length (content b)) (buffer_of (ReadInt8 le b))"
  unfolding ReadInt64_def ReadInt32_def ReadInt16_def ReadInt8_def
    PeekInt64_def PeekInt32_def PeekInt16_def PeekInt8_def
    RetrieveInt64_def RetrieveInt32_def RetrieveInt16_def RetrieveInt8_def
  by (rule read_ends [OF assms])+

lemma ReadFd_ends:
  "wf_buffer b \<Longrightarrow> readv_fits readv \<Longrightarrow> ends_well True (and_then (ReadFd readv b) (\<lambda>(_, _, b'). Inr b'))"
  using ReadFd_outcome [of b readv] by auto

subsection \<open>Shrink\<close>

text \<open>
  On an empty buffer with nothing retrieved the sizes of \<^verbatim>\<open>MakeSpace\<close> cannot wrap into a smaller vector: a length
  within eight of \<open>2 ^ 64\<close> fails the assertion, every other one that is too long is refused by the vector.
\<close>

lemma EnsureWritableBytes_fresh:
  assumes "wf_buffer b" "reader_index b = 8" "writer_index b = 8" "len < 2 ^ 64"
  shows "ends_well (len < 2 ^ 64 - 8) (EnsureWritableBytes b len)"
    and "EnsureWritableBytes b len = Inr b' \<Longrightarrow> wf_buffer b' \<and> reader_index b' = 8 \<and> writer_index b' = 8"
    and "2 ^ 63 \<le> len \<Longrightarrow> \<not> returns (EnsureWritableBytes b len)"
proof -
  note bd = wf_bounds [OF assms(1)]
  have W: "WritableBytes b = length (buf_bytes b) - 8" using assms(3) WritableBytes_exact [OF assms(1)] by simp
  have wb: "size_add (length (buf_bytes b) - 8) (PrependableBytes b) = length (buf_bytes b)"
    using bd assms(2) by (simp add: PrependableBytes_def machine_simps)
  consider (fits) "len \<le> WritableBytes b" | (grow) "WritableBytes b < len" "8 + len \<le> vector_max_size"
    | (long) "vector_max_size < 8 + len" "len < 2 ^ 64 - 8" | (wraps) "2 ^ 64 - 8 \<le> len"
    by linarith
  then have "ends_well (len < 2 ^ 64 - 8) (EnsureWritableBytes b len)
    \<and> (\<forall>b'. EnsureWritableBytes b len = Inr b' \<longrightarrow> wf_buffer b' \<and> reader_index b' = 8 \<and> writer_index b' = 8)
    \<and> (2 ^ 63 \<le> len \<longrightarrow> \<not> returns (EnsureWritableBytes b len))"
  proof cases
    case fits
    then show ?thesis using assms bd by (auto simp: EnsureWritableBytes_def W)
  next
    case grow
    let ?b = "b\<lparr>buf_bytes := take (8 + len) (buf_bytes b) @ replicate (8 + len - length (buf_bytes b)) (CHR 0x00)\<rparr>"
    have len: "length (buf_bytes ?b) = 8 + len" using grow bd by (simp add: W)
    then have wf: "wf_buffer ?b" using grow assms by (simp add: wf_buffer_def kCheapPrepend_def)
    have "MakeSpace b len = Inr ?b"
      using grow assms bd by (simp add: MakeSpace_def wb vector_resize_def size_add_exact buffer_const_defs W)
    moreover have "WritableBytes ?b = len" using WritableBytes_exact [OF wf] len assms(3) by simp
    ultimately show ?thesis
      using grow wf assms by (auto simp: EnsureWritableBytes_def vector_max_size_def)
  next
    case long
    then have "MakeSpace b len = Inl LengthError" "WritableBytes b < len"
      using assms bd by (simp_all add: MakeSpace_def wb vector_resize_def size_add_exact buffer_const_defs W)
    then show ?thesis using long by (simp add: EnsureWritableBytes_def)
  next
    case wraps
    then have "size_add len kCheapPrepend < 8" using assms(4) by (simp add: size_add_def kCheapPrepend_def mod_if less_diff_conv2)
    then have "MakeSpace b len = Inl (AssertFailed ''kCheapPrepend < reader_index_'')" "WritableBytes b < len"
      using wraps assms bd by (simp_all add: MakeSpace_def wb kCheapPrepend_def W)
    then show ?thesis using wraps by (simp add: EnsureWritableBytes_def)
  qed
  then show "ends_well (len < 2 ^ 64 - 8) (EnsureWritableBytes b len)"
    and "EnsureWritableBytes b len = Inr b' \<Longrightarrow> wf_buffer b' \<and> reader_index b' = 8 \<and> writer_index b' = 8"
    and "2 ^ 63 \<le> len \<Longrightarrow> \<not> returns (EnsureWritableBytes b len)" by blast+
qed

text \<open>The length a \<^verbatim>\<open>StringPiece\<close> of \<open>n\<close> bytes passes to \<^verbatim>\<open>Append\<close>: \<open>n\<close> modulo \<open>2 ^ 32\<close>, sign-extended.\<close>

lemma narrowed_length:
  "size_of_int (int_of_size n) = (if n mod 2 ^ 32 < 2 ^ 31 then n mod 2 ^ 32 else n mod 2 ^ 32 + 2 ^ 64 - 2 ^ 32)"
proof -
  let ?m = "n mod 2 ^ 32"
  have m: "?m < 2 ^ 32" by simp
  have "int_of_size n = int_of_size ?m" by (simp add: int_of_size_def of_nat_mod mod_add_left_eq)
  moreover have "size_of_int (int_of_size ?m) = ?m" if "?m < 2 ^ 31"
    using that by (simp add: int_of_size_exact size_of_int_exact del: of_nat_mod)
  moreover have "size_of_int (int_of_size ?m) = ?m + 2 ^ 64 - 2 ^ 32" if "2 ^ 31 \<le> ?m"
    using that m by (simp add: int_of_size_negative size_of_int_negative nat_diff_distrib' nat_add_distrib del: of_nat_mod)
  ultimately show ?thesis by (metis not_le)
qed

lemma Shrink_ends:
  assumes "wf_buffer b" "reserve < 2 ^ 64"
  shows "ends_well (size_add (length (content b)) reserve < 2 ^ 64 - 8 \<and> length (content b) mod 2 ^ 32 < 2 ^ 32 - 8)
    (Shrink b reserve)"
proof -
  let ?n = "length (content b)"
  let ?len = "size_of_int (int_of_size ?n)" and ?d = "drop (reader_index b) (buf_bytes b)"
  obtain o1 where o1: "Buffer_new kInitialSize = Inr o1" "wf_buffer o1" "content o1 = []" "writer_index o1 = 8"
    using Buffer_new_empty [of kInitialSize] by (auto simp: buffer_const_defs)
  have "reader_index o1 = 8" using o1(1) by (auto simp: Buffer_new_def outcome_simps Let_def kCheapPrepend_def)
  note fresh = EnsureWritableBytes_fresh [OF o1(2) this o1(4)]
  have len: "size_add ?n reserve < 2 ^ 64" by (simp add: size_add_def)
  have run: "Shrink b reserve = and_then (EnsureWritableBytes o1 (size_add ?n reserve)) (\<lambda>o2. and_then (Append o2 ?d ?len) Inr)"
    using o1(1) assms(1) by (simp add: Shrink_def ToStringPiece_data)
  from fresh(1) [OF len] show ?thesis
  proof (cases rule: ends_well_cases)
    case (1 o2)
    from fresh(2) [OF len 1(1)] have o2: "wf_buffer o2" "reader_index o2 = 8" "writer_index o2 = 8" by simp_all
    show ?thesis
    proof (cases "?n mod 2 ^ 32 < 2 ^ 31")
      case True
      then have l: "?len = ?n mod 2 ^ 32" by (simp add: narrowed_length)
      also have "\<dots> \<le> length ?d"
        using wf_bounds [OF assms(1)] length_content [OF assms(1)] mod_less_eq_dividend [of ?n "2 ^ 32"] by simp
      finally have "ends_well True (Append o2 ?d ?len)" using Append_ends [OF o2(1)] l True by simp
      with True 1 show ?thesis unfolding run by (auto elim!: ends_well_cases)
    next
      case False
      then have l: "?len = ?n mod 2 ^ 32 + 2 ^ 64 - 2 ^ 32" by (simp add: narrowed_length)
      have m: "?n mod 2 ^ 32 < 2 ^ 32" by simp
      have big: "2 ^ 63 \<le> ?len" "?len < 2 ^ 64" unfolding l using m False by simp_all
      note e = EnsureWritableBytes_fresh [OF o2 big(2)]
      have "\<not> returns (EnsureWritableBytes o2 ?len)" by (rule e(3) [OF big(1)])
      moreover have "?len < 2 ^ 64 - 8 \<longleftrightarrow> ?n mod 2 ^ 32 < 2 ^ 32 - 8" unfolding l using m by auto
      ultimately have "EnsureWritableBytes o2 ?len = Inl LengthError
          \<or> (\<exists>what. EnsureWritableBytes o2 ?len = Inl (AssertFailed what)) \<and> \<not> ?n mod 2 ^ 32 < 2 ^ 32 - 8"
        using e(1) by (auto elim!: ends_well_cases)
      with 1 show ?thesis unfolding run by (auto simp: Append_def)
    qed
  qed (auto simp: run)
qed

section \<open>Type safety\<close>

lemma run_buffer_call_ends:
  assumes "wf_buffer b" "call_ok c"
  shows "ends_well (call_guard b c) (run_buffer_call le c b)"
  using assms Retrieve_ends [OF assms(1), of 8] Retrieve_ends [OF assms(1), of 4]
    Retrieve_ends [OF assms(1), of 2] Retrieve_ends [OF assms(1), of 1]
  by (cases c)
    (simp_all add: Retrieve_ends RetrieveUntil_ends RetrieveAsString_ends RetrieveAllAsString_ends Append_ends
      Append_piece_ends Find_ends EnsureWritableBytes_ends HasWritten_ends Unwrite_ends Prepend_ends AppendInt_ends
      PrependInt_ends PeekInt_ends ReadInt_ends ReadFd_ends Shrink_ends [simplified] RetrieveAll_content
      RetrieveInt64_def RetrieveInt32_def RetrieveInt16_def RetrieveInt8_def del: One_nat_def)

lemma run_buffer_calls_wf:
  assumes "for_each (run_buffer_call le) cs b = Inr b'" "wf_buffer b" "list_all call_ok cs"
  shows "wf_buffer b'"
  using assms
proof (induction cs arbitrary: b)
  case (Cons c cs)
  from Cons.prems(1) obtain b1 where b1: "run_buffer_call le c b = Inr b1" "for_each (run_buffer_call le) cs b1 = Inr b'"
    by (auto simp: outcome_simps)
  with run_buffer_call_ends [of b c le] Cons.prems have "wf_buffer b1" by simp
  with b1 Cons show ?case by simp
qed simp

text \<open>
  C6. Type safety of the buffer. Whatever sequence of its public operations is applied to a new buffer, the indices
  stay ordered inside the vector, and a further operation either returns a buffer for which that still
  holds, or stops with the vector's \<^verbatim>\<open>length_error\<close>, or fails an assertion; it fails an assertion exactly when
  the buffer does not hold the bytes (or the space in front) the operation asks for. Reads and writes never leave the vector, on hosts of
  either byte order. The only duty of the caller is that his own pointers and lengths describe an object.
\<close>

theorem Buffer_type_safe:
  assumes "Buffer_new n = Inr b0" "n < 2 ^ 63" "for_each (run_buffer_call le) cs b0 = Inr b"
    and "list_all call_ok cs" "call_ok c"
  shows "reader_index b \<le> writer_index b \<and> writer_index b \<le> length (buf_bytes b)
    \<and> (case run_buffer_call le c b of
         Inr b' \<Rightarrow> call_guard b c \<and> reader_index b' \<le> writer_index b' \<and> writer_index b' \<le> length (buf_bytes b')
       | Inl (AssertFailed what) \<Rightarrow> \<not> call_guard b c
       | Inl LengthError \<Rightarrow> True
       | _ \<Rightarrow> False)"
proof -
  have "n \<le> vector_max_size - kCheapPrepend"
    using assms(1,2) by (auto simp: Buffer_new_def vector_resize_def size_add_exact outcome_simps buffer_const_defs split: if_splits)
  with Buffer_new_empty [of n] assms(1) have "wf_buffer b0" by auto
  from run_buffer_calls_wf [OF assms(3) this assms(4)] have wf: "wf_buffer b" .
  from run_buffer_call_ends [OF this assms(5), of le] show ?thesis
    using wf by (cases rule: ends_well_cases) (auto simp: wf_buffer_def)
qed

theorem Buffer_type_safe_witness:
  "\<exists>b0 b. Buffer_new 2 = Inr b0 \<and> for_each (run_buffer_call True) [Call_AppendInt32 7, Call_Retrieve 1] b0 = Inr b
    \<and> (\<exists>what. run_buffer_call True Call_ReadInt32 b = Inl (AssertFailed what))
    \<and> (\<exists>b'. run_buffer_call True (Call_Append ''xyz'' 3) b = Inr b' \<and> writer_index b' \<le> length (buf_bytes b'))"
proof -
  obtain b0 where b0: "Buffer_new 2 = Inr b0" "wf_buffer b0" "content b0 = []" "writer_index b0 = kCheapPrepend"
    using Buffer_new_empty [of 2] by (auto simp: buffer_const_defs)
  then have "room b0 (4 + 4)" by (simp add: room_def buffer_const_defs)
  from AppendInt_content(2) [OF b0(2) this, of True 7] b0(3) obtain b1 where
    b1: "AppendInt32 True b0 7 = Inr b1" "wf_buffer b1" "content b1 = be_bytes 4 (7 :: 32 word)" "room b1 4" by auto
  from Retrieve_content [OF b1(2), of 1] b1(3) obtain b where
    b: "Retrieve b1 1 = Inr b" "wf_buffer b" "length (content b) = 3" "writer_index b \<le> max kCheapPrepend (writer_index b1)" by auto
  have run: "for_each (run_buffer_call True) [Call_AppendInt32 7, Call_Retrieve 1] b0 = Inr b" using b1(1) b(1) by simp
  have "room b (3 + 0)" using b(4) b1(4) by (auto simp: room_def buffer_const_defs)
  from Append_content [OF b(2) this, of "''xyz''"] obtain b' where b': "Append b ''xyz'' 3 = Inr b'" by auto
  have ok: "list_all call_ok [Call_AppendInt32 7, Call_Retrieve 1]" by simp
  note safe = Buffer_type_safe [OF b0(1) _ run ok, simplified]
  have "writer_index b' \<le> length (buf_bytes b')" using safe [of "Call_Append ''xyz'' 3"] b' by simp
  moreover have "PeekInt32 True b = Inl (AssertFailed ''ReadableBytes() >= sizeof(int32_t)'')"
    using b(2,3) by (simp add: PeekInt32_def)
  ultimately show ?thesis using b0(1) run b' by (intro exI [of _ b0] exI [of _ b]) (simp add: buffer_of_def ReadInt32_def)
qed

section \<open>The bound on lengths is needed\<close>

text \<open>
  \<^verbatim>\<open>EnsureWritableBytes\<close> with a length so large that \<^verbatim>\<open>writer_index_ + len\<close> wraps, but \<^verbatim>\<open>len + kCheapPrepend\<close> does not,
  shrinks the vector below the writer index; \<^verbatim>\<open>WritableBytes()\<close> then wraps as well, so its assertion holds and the broken
  buffer is returned.
\<close>

lemma EnsureWritableBytes_wraps:
  "\<exists>b b'. wf_buffer b \<and> EnsureWritableBytes b (2 ^ 64 - 9) = Inr b' \<and> length (buf_bytes b') < reader_index b'"
proof -
  let ?b = "\<lparr>buf_bytes = replicate 16 (CHR 0x00), reader_index = 10, writer_index = 12\<rparr>"
  let ?b' = "\<lparr>buf_bytes = replicate 3 (CHR 0x00), reader_index = 10, writer_index = 12\<rparr>"
  have "wf_buffer ?b" by (simp add: wf_buffer_def buffer_const_defs)
  moreover have "EnsureWritableBytes ?b (2 ^ 64 - 9) = Inr ?b'"
    by (simp add: EnsureWritableBytes_def MakeSpace_def vector_resize_def size_add_def size_sub_def
        WritableBytes_def PrependableBytes_def buffer_const_defs)
  ultimately show ?thesis by (intro exI [of _ ?b] exI [of _ ?b']) simp
qed

end
