(* ===== verification/Loop_Thread_Life.thy ===== *)
theory Loop_Thread_Life
  imports Loop_Threads Event_Loop
begin

text \<open>
  \<^verbatim>\<open>muduo-cpp11/net/event_loop_thread.h\<close>/\<^verbatim>\<open>.cpp\<close>: a thread that runs one event loop, from its start to the
  destructor of its owner. Owner and loop thread are program counters; \<^verbatim>\<open>loop_\<close> is written under
  the mutex together with \<^verbatim>\<open>notify_one\<close>, but cleared without it when \<^verbatim>\<open>Loop()\<close> returns, and read
  without it by the last line of \<^verbatim>\<open>StartLoop\<close> and by the destructor. A waiting owner may also wake up
  by itself. The loop is the object of the event loop theory; of its activity only \<^verbatim>\<open>quit_\<close> matters.

  Shown: what \<^verbatim>\<open>StartLoop\<close> can return and that it may never return; that the destructor joins the
  thread when the loop has been entered and nobody else ends it; and the three ways in which it
  goes wrong otherwise.
\<close>

section \<open>EventLoopThread\<close>

datatype owner_pc =
    Owner_new
  | Owner_checking
  | Owner_waiting
  | Owner_notified
  | Owner_leaving
  | Owner_returned "loop_addr option"
  | Owner_quitting
  | Owner_joining
  | Owner_gone

datatype thread_pc =
    Thread_unborn
  | Thread_starting
  | Thread_published
  | Thread_looping
  | Thread_returned
  | Thread_cleared
  | Thread_done

record loop_thread =
  elt_loop :: "loop_addr option"
  elt_exiting :: bool
  elt_object :: event_loop
  elt_owner :: owner_pc
  elt_thread :: thread_pc

definition EventLoopThread_new :: loop_thread where
  "EventLoopThread_new =
     \<lparr>elt_loop = None, elt_exiting = False, elt_object = EventLoop_new, elt_owner = Owner_new, elt_thread = Thread_unborn\<rparr>"

subsection \<open>StartLoop\<close>

definition StartLoop_spawn :: "loop_thread \<Rightarrow> loop_thread" where
  "StartLoop_spawn t = t\<lparr>elt_owner := Owner_checking, elt_thread := Thread_starting\<rparr>"

definition StartLoop_check :: "loop_thread \<Rightarrow> loop_thread" where
  "StartLoop_check t = t\<lparr>elt_owner := if elt_loop t = None then Owner_waiting else Owner_leaving\<rparr>"

definition StartLoop_return :: "loop_thread \<Rightarrow> loop_thread" where
  "StartLoop_return t = t\<lparr>elt_owner := Owner_returned (elt_loop t)\<rparr>"

subsection \<open>ThreadFunc\<close>

definition ThreadFunc_publish :: "loop_addr \<Rightarrow> loop_thread \<Rightarrow> loop_thread" where
  "ThreadFunc_publish l t = t\<lparr>elt_loop := Some l, elt_thread := Thread_published,
     elt_owner := (if elt_owner t = Owner_waiting then Owner_notified else elt_owner t)\<rparr>"

text \<open>\<^verbatim>\<open>Loop()\<close> begins by clearing \<^verbatim>\<open>quit_\<close>, and ends when it finds it set.\<close>

definition ThreadFunc_enter :: "loop_thread \<Rightarrow> loop_thread" where
  "ThreadFunc_enter t = t\<lparr>elt_object := (elt_object t)\<lparr>looping := True, quit := False\<rparr>, elt_thread := Thread_looping\<rparr>"

definition ThreadFunc_leave :: "loop_thread \<Rightarrow> loop_thread" where
  "ThreadFunc_leave t = t\<lparr>elt_object := (elt_object t)\<lparr>looping := False\<rparr>, elt_thread := Thread_returned\<rparr>"

definition ThreadFunc_clear :: "loop_thread \<Rightarrow> loop_thread" where
  "ThreadFunc_clear t = t\<lparr>elt_loop := None, elt_thread := Thread_cleared\<rparr>"

definition ThreadFunc_exit :: "loop_thread \<Rightarrow> loop_thread" where
  "ThreadFunc_exit t = t\<lparr>elt_thread := Thread_done\<rparr>"

subsection \<open>The destructor\<close>

text \<open>
  Without a loop the destructor goes on to destroy \<^verbatim>\<open>thread_\<close>, and destroying a \<^verbatim>\<open>std::thread\<close> that was
  not joined ends the program.
\<close>

definition EventLoopThread_destroy :: "loop_thread \<Rightarrow> loop_thread outcome" where
  "EventLoopThread_destroy t =
     (let t1 = t\<lparr>elt_exiting := True\<rparr> in
      if elt_loop t1 \<noteq> None then Inr (t1\<lparr>elt_owner := Owner_quitting\<rparr>)
      else if elt_thread t1 \<noteq> Thread_unborn then Inl StdTerminate
      else Inr (t1\<lparr>elt_owner := Owner_gone\<rparr>))"

definition EventLoopThread_quit :: "loop_thread \<Rightarrow> loop_thread outcome" where
  "EventLoopThread_quit t =
     (case elt_loop t of
        None \<Rightarrow> Inl (UndefinedBehaviour ''loop_->Quit()'')
      | Some _ \<Rightarrow> Inr (t\<lparr>elt_object := Quit False (elt_object t), elt_owner := Owner_joining\<rparr>))"

definition EventLoopThread_joined :: "loop_thread \<Rightarrow> loop_thread" where
  "EventLoopThread_joined t = t\<lparr>elt_owner := Owner_gone\<rparr>"

section \<open>Steps\<close>

text \<open>
  In a \<open>disciplined\<close> program nobody but the destructor ends the loop, and the owner is destroyed only
  after \<^verbatim>\<open>StartLoop\<close> has returned and the thread has entered \<^verbatim>\<open>Loop()\<close>. Otherwise the loop may be told
  to quit at any time while it exists, and the owner may be destroyed whenever it is not inside
  \<^verbatim>\<open>StartLoop\<close>.
\<close>

inductive elt_step :: "bool \<Rightarrow> loop_addr \<Rightarrow> loop_thread \<Rightarrow> loop_thread outcome \<Rightarrow> bool" for disciplined l where
  spawn: "elt_owner t = Owner_new \<Longrightarrow> elt_step disciplined l t (Inr (StartLoop_spawn t))"
| check: "elt_owner t = Owner_checking \<or> elt_owner t = Owner_notified \<Longrightarrow>
    elt_step disciplined l t (Inr (StartLoop_check t))"
| spurious: "elt_owner t = Owner_waiting \<Longrightarrow> elt_step disciplined l t (Inr (t\<lparr>elt_owner := Owner_notified\<rparr>))"
| give_back: "elt_owner t = Owner_leaving \<Longrightarrow> elt_step disciplined l t (Inr (StartLoop_return t))"
| publish: "elt_thread t = Thread_starting \<Longrightarrow> elt_step disciplined l t (Inr (ThreadFunc_publish l t))"
| enter: "elt_thread t = Thread_published \<Longrightarrow> elt_step disciplined l t (Inr (ThreadFunc_enter t))"
| leave: "elt_thread t = Thread_looping \<Longrightarrow> quit (elt_object t) \<Longrightarrow> elt_step disciplined l t (Inr (ThreadFunc_leave t))"
| clear: "elt_thread t = Thread_returned \<Longrightarrow> elt_step disciplined l t (Inr (ThreadFunc_clear t))"
| exit: "elt_thread t = Thread_cleared \<Longrightarrow> elt_step disciplined l t (Inr (ThreadFunc_exit t))"
| others_quit: "\<not> disciplined \<Longrightarrow> elt_thread t \<notin> {Thread_unborn, Thread_done} \<Longrightarrow>
    elt_step disciplined l t (Inr (t\<lparr>elt_object := Quit b (elt_object t)\<rparr>))"
| destroy: "elt_owner t = Owner_new \<or> elt_owner t = Owner_returned r \<Longrightarrow>
    disciplined \<longrightarrow> elt_owner t \<noteq> Owner_new \<and> elt_thread t = Thread_looping \<Longrightarrow>
    elt_step disciplined l t (EventLoopThread_destroy t)"
| tell: "elt_owner t = Owner_quitting \<Longrightarrow> elt_step disciplined l t (EventLoopThread_quit t)"
| join: "elt_owner t = Owner_joining \<Longrightarrow> elt_thread t = Thread_done \<Longrightarrow>
    elt_step disciplined l t (Inr (EventLoopThread_joined t))"

inductive_cases elt_stepE: "elt_step disciplined l t r"

inductive elt_run :: "bool \<Rightarrow> loop_addr \<Rightarrow> loop_thread outcome \<Rightarrow> bool" for disciplined l where
  elt_begin: "elt_run disciplined l (Inr EventLoopThread_new)"
| more: "elt_run disciplined l (Inr t) \<Longrightarrow> elt_step disciplined l t r \<Longrightarrow> elt_run disciplined l r"

lemmas elt_defs = EventLoopThread_new_def StartLoop_spawn_def StartLoop_check_def StartLoop_return_def ThreadFunc_publish_def
  ThreadFunc_enter_def ThreadFunc_leave_def ThreadFunc_clear_def ThreadFunc_exit_def EventLoopThread_destroy_def
  EventLoopThread_quit_def EventLoopThread_joined_def Let_def

lemma quit_simps [simp]: "quit (Quit b l) \<longleftrightarrow> True" "quit EventLoop_new \<longleftrightarrow> False"
  by (simp_all add: Quit_def Wakeup_def EventLoop_new_def Let_def)

section \<open>Invariants\<close>

text \<open>Where the owner can be while the thread is at a given place.\<close>

definition has_loop :: "thread_pc \<Rightarrow> bool" where
  "has_loop p \<longleftrightarrow> p = Thread_published \<or> p = Thread_looping \<or> p = Thread_returned"

fun owner_may :: "loop_addr \<Rightarrow> thread_pc \<Rightarrow> owner_pc \<Rightarrow> bool" where
  "owner_may l p Owner_new \<longleftrightarrow> p = Thread_unborn"
| "owner_may l p (Owner_returned r) \<longleftrightarrow> p \<noteq> Thread_unborn \<and> p \<noteq> Thread_starting
     \<and> (r = Some l \<or> r = None \<and> (p = Thread_cleared \<or> p = Thread_done))"
| "owner_may l p Owner_gone \<longleftrightarrow> p = Thread_unborn \<or> p = Thread_done"
| "owner_may l p Owner_leaving \<longleftrightarrow> p \<noteq> Thread_unborn \<and> p \<noteq> Thread_starting"
| "owner_may l p Owner_quitting \<longleftrightarrow> p \<noteq> Thread_unborn \<and> p \<noteq> Thread_starting"
| "owner_may l p Owner_joining \<longleftrightarrow> p \<noteq> Thread_unborn \<and> p \<noteq> Thread_starting"
| "owner_may l p _ \<longleftrightarrow> p \<noteq> Thread_unborn"

definition elt_inv :: "loop_addr \<Rightarrow> loop_thread \<Rightarrow> bool" where
  "elt_inv l t \<longleftrightarrow> elt_loop t = (if has_loop (elt_thread t) then Some l else None) \<and> owner_may l (elt_thread t) (elt_owner t)"

lemma elt_inv_step:
  assumes "elt_step d l u r" "elt_inv l u"
  shows "barring UNIV (elt_inv l) r"
  using assms
  by (cases rule: elt_step.cases; cases "elt_owner u"; cases "elt_thread u"; simp add: elt_inv_def elt_defs has_loop_def)

lemma elt_run_inv: "elt_run d l r \<Longrightarrow> barring UNIV (elt_inv l) r"
proof (induction rule: elt_run.induct)
  case elt_begin
  then show ?case by (simp add: elt_inv_def elt_defs has_loop_def)
qed (auto intro: elt_inv_step)

text \<open>In a disciplined program the loop runs until the destructor has told it to quit.\<close>

fun owner_must :: "bool \<Rightarrow> thread_pc \<Rightarrow> owner_pc \<Rightarrow> bool" where
  "owner_must q p Owner_joining \<longleftrightarrow> p = Thread_looping \<and> q \<or> p = Thread_returned \<or> p = Thread_cleared \<or> p = Thread_done"
| "owner_must q p Owner_gone \<longleftrightarrow> p = Thread_done"
| "owner_must q p Owner_quitting \<longleftrightarrow> p = Thread_looping \<and> \<not> q"
| "owner_must q p _ \<longleftrightarrow> p = Thread_unborn \<or> p = Thread_starting \<or> p = Thread_published \<or> p = Thread_looping \<and> \<not> q"

definition elt_disciplined :: "loop_addr \<Rightarrow> loop_thread \<Rightarrow> bool" where
  "elt_disciplined l t \<longleftrightarrow> elt_inv l t \<and> owner_must (quit (elt_object t)) (elt_thread t) (elt_owner t)
     \<and> (elt_owner t = Owner_quitting \<or> elt_owner t = Owner_joining \<or> elt_owner t = Owner_gone \<longrightarrow> elt_exiting t)"

lemma elt_disciplined_step:
  assumes "elt_step True l u r" "elt_disciplined l u"
  shows "barring {} (elt_disciplined l) r"
  using assms
  by (cases rule: elt_step.cases; cases "elt_owner u"; cases "elt_thread u";
      simp add: elt_disciplined_def elt_inv_def elt_defs has_loop_def)

lemma elt_run_disciplined: "elt_run True l r \<Longrightarrow> barring {} (elt_disciplined l) r"
proof (induction rule: elt_run.induct)
  case elt_begin
  then show ?case by (simp add: elt_disciplined_def elt_inv_def elt_defs has_loop_def)
qed (auto dest: elt_disciplined_step)

section \<open>Runs that go wrong\<close>

lemma elt_run_published: "elt_run d l (Inr (ThreadFunc_publish l (StartLoop_spawn EventLoopThread_new)))"
proof -
  have "elt_run d l (Inr (StartLoop_spawn EventLoopThread_new))"
    by (rule elt_run.more [OF elt_run.elt_begin elt_step.spawn]) (simp add: elt_defs)
  then show ?thesis by (rule elt_run.more [OF _ elt_step.publish]) (simp add: elt_defs)
qed

lemma elt_run_looping:
  "elt_run d l (Inr (ThreadFunc_enter (ThreadFunc_publish l (StartLoop_spawn EventLoopThread_new))))"
  by (rule elt_run.more [OF elt_run_published elt_step.enter]) (simp add: elt_defs)

lemma elt_run_hand_over:
  assumes "elt_run d l (Inr t)" "elt_owner t = Owner_checking" "elt_loop t = Some l"
  shows "elt_run d l (Inr (t\<lparr>elt_owner := Owner_returned (Some l)\<rparr>))"
proof -
  have "elt_run d l (Inr (StartLoop_check t))" by (rule elt_run.more [OF assms(1) elt_step.check]) (use assms(2) in simp)
  then have "elt_run d l (Inr (StartLoop_return (StartLoop_check t)))"
    by (rule elt_run.more [OF _ elt_step.give_back]) (use assms(3) in \<open>simp add: elt_defs\<close>)
  then show ?thesis using assms(3) by (simp add: elt_defs)
qed

lemma elt_run_loop_ends:
  assumes "elt_run False l (Inr t)" "elt_thread t = Thread_looping"
  shows "elt_run False l (Inr (t\<lparr>elt_object := (Quit True (elt_object t))\<lparr>looping := False\<rparr>, elt_loop := None, elt_thread := Thread_cleared\<rparr>))"
proof -
  let ?t = "t\<lparr>elt_object := Quit True (elt_object t)\<rparr>"
  have "elt_run False l (Inr ?t)" by (rule elt_run.more [OF assms(1) elt_step.others_quit]) (use assms(2) in simp_all)
  then have "elt_run False l (Inr (ThreadFunc_leave ?t))"
    by (rule elt_run.more [OF _ elt_step.leave]) (use assms(2) in simp_all)
  then have "elt_run False l (Inr (ThreadFunc_clear (ThreadFunc_leave ?t)))"
    by (rule elt_run.more [OF _ elt_step.clear]) (simp add: elt_defs)
  then show ?thesis by (simp add: elt_defs)
qed

lemma elt_run_exits:
  "elt_run d l (Inr t) \<Longrightarrow> elt_thread t = Thread_cleared \<Longrightarrow> elt_run d l (Inr (ThreadFunc_exit t))"
  by (rule elt_run.more [OF _ elt_step.exit])

text \<open>A thread that is gone does not publish its loop any more: who waits for it then waits for ever.\<close>

lemma waits_for_ever:
  assumes "(\<lambda>a b. elt_step d l a (Inr b))\<^sup>*\<^sup>* t u" "elt_thread t = Thread_done" "elt_loop t = None"
    "elt_owner t = Owner_waiting \<or> elt_owner t = Owner_notified"
  shows "elt_thread u = Thread_done \<and> elt_loop u = None \<and> (elt_owner u = Owner_waiting \<or> elt_owner u = Owner_notified)"
  using assms(1)
proof (induction rule: rtranclp_induct)
  case (step a b)
  from step(2,3) show ?case by (cases rule: elt_step.cases) (auto simp: elt_defs)
qed (use assms in simp)

section \<open>Properties\<close>

text \<open>
  \<^verbatim>\<open>StartLoop\<close> returns the thread's loop or, because its last line reads \<^verbatim>\<open>loop_\<close> after giving up the
  mutex, a null pointer, and nothing else. It may also never return: if the loop ends before
  the owner has looked at \<^verbatim>\<open>loop_\<close>, the thread clears \<^verbatim>\<open>loop_\<close> without notifying, and whatever happens
  afterwards the owner stays in its waiting loop.
\<close>

lemma StartLoop_result_and_hang:
  "{r. \<exists>t. elt_run False l (Inr t) \<and> elt_owner t = Owner_returned r} = {Some l, None}
   \<and> (\<exists>t. elt_run False l (Inr t) \<and>
        (\<forall>u. (\<lambda>a b. elt_step False l a (Inr b))\<^sup>*\<^sup>* t u \<longrightarrow> elt_owner u = Owner_waiting \<or> elt_owner u = Owner_notified))"
proof
  let ?t = "ThreadFunc_enter (ThreadFunc_publish l (StartLoop_spawn EventLoopThread_new))"
  let ?ended = "\<lambda>t. t\<lparr>elt_object := (Quit True (elt_object t))\<lparr>looping := False\<rparr>, elt_loop := None, elt_thread := Thread_cleared\<rparr>"
  have "elt_run False l (Inr (?t\<lparr>elt_owner := Owner_returned (Some l)\<rparr>))"
    by (rule elt_run_hand_over [OF elt_run_looping]) (simp_all add: elt_defs)
  then have some: "\<exists>t. elt_run False l (Inr t) \<and> elt_owner t = Owner_returned (Some l)" by force
  have "elt_run False l (Inr (StartLoop_check ?t))" by (rule elt_run.more [OF elt_run_looping elt_step.check]) (simp add: elt_defs)
  then have "elt_run False l (Inr (?ended (StartLoop_check ?t)))" by (rule elt_run_loop_ends) (simp add: elt_defs)
  then have "elt_run False l (Inr (StartLoop_return (?ended (StartLoop_check ?t))))"
    by (rule elt_run.more [OF _ elt_step.give_back]) (simp add: elt_defs)
  then have none: "\<exists>t. elt_run False l (Inr t) \<and> elt_owner t = Owner_returned None" by (force simp: StartLoop_return_def)
  have "r = Some l \<or> r = None" if "elt_run False l (Inr t)" "elt_owner t = Owner_returned r" for t r
    using elt_run_inv [OF that(1)] that(2) by (auto simp: elt_inv_def)
  with some none show "{r. \<exists>t. elt_run False l (Inr t) \<and> elt_owner t = Owner_returned r} = {Some l, None}" by blast
  have "elt_run False l (Inr (?ended ?t))" by (rule elt_run_loop_ends [OF elt_run_looping]) (simp add: elt_defs)
  then have "elt_run False l (Inr (StartLoop_check (ThreadFunc_exit (?ended ?t))))"
    by (intro elt_run.more [OF elt_run_exits elt_step.check]) (simp_all add: elt_defs)
  with waits_for_ever [of False l "StartLoop_check (ThreadFunc_exit (?ended ?t))"]
  show "\<exists>t. elt_run False l (Inr t) \<and>
      (\<forall>u. (\<lambda>a b. elt_step False l a (Inr b))\<^sup>*\<^sup>* t u \<longrightarrow> elt_owner u = Owner_waiting \<or> elt_owner u = Owner_notified)"
    by (force simp: elt_defs)
qed

definition elt_rank :: "loop_thread \<Rightarrow> nat" where
  "elt_rank t = (case elt_owner t of Owner_quitting \<Rightarrow> 2 | Owner_joining \<Rightarrow> 1 | _ \<Rightarrow> 0)
     + (case elt_thread t of Thread_looping \<Rightarrow> 3 | Thread_returned \<Rightarrow> 2 | Thread_cleared \<Rightarrow> 1 | _ \<Rightarrow> 0)"

lemma elt_step_rank:
  assumes "elt_step True l t (Inr u)" "elt_disciplined l t" "elt_owner t = Owner_quitting \<or> elt_owner t = Owner_joining"
  shows "elt_rank u < elt_rank t"
  using assms
  by (cases rule: elt_step.cases; cases "elt_thread t"; auto simp: elt_disciplined_def elt_inv_def elt_defs elt_rank_def has_loop_def)

lemma elt_step_enabled:
  assumes "elt_disciplined l t" "elt_owner t = Owner_quitting \<or> elt_owner t = Owner_joining"
  shows "\<exists>r. elt_step True l t r"
  using assms by (cases "elt_owner t"; cases "elt_thread t") (auto simp: elt_disciplined_def intro: elt_step.intros)



text \<open>
  Without that discipline the destructor fails in three ways: if the loop has already ended by itself it
  destroys a thread that was not joined, which ends the program; if the loop ends between the test of
  \<^verbatim>\<open>loop_\<close> and its use, it calls \<^verbatim>\<open>Quit\<close> on a null pointer; and if it calls \<^verbatim>\<open>Quit\<close> before the thread has
  entered \<^verbatim>\<open>Loop()\<close>, which clears \<^verbatim>\<open>quit_\<close>, it waits for a thread that never ends.
\<close>

lemma EventLoopThread_destructor_failures:
  "elt_run False l (Inl StdTerminate) \<and> elt_run False l (Inl (UndefinedBehaviour ''loop_->Quit()''))
   \<and> (\<exists>t. elt_run False l (Inr t) \<and> elt_owner t = Owner_joining \<and> (\<forall>r. \<not> elt_step True l t r))"
proof (intro conjI)
  let ?t = "ThreadFunc_enter (ThreadFunc_publish l (StartLoop_spawn EventLoopThread_new))\<lparr>elt_owner := Owner_returned (Some l)\<rparr>"
  let ?ended = "\<lambda>t. t\<lparr>elt_object := (Quit True (elt_object t))\<lparr>looping := False\<rparr>, elt_loop := None, elt_thread := Thread_cleared\<rparr>"
  have r: "elt_run False l (Inr ?t)" by (rule elt_run_hand_over [OF elt_run_looping]) (simp_all add: elt_defs)
  then have "elt_run False l (Inr (?ended ?t))" by (rule elt_run_loop_ends) (simp add: elt_defs)
  then have "elt_run False l (EventLoopThread_destroy (?ended ?t))" by (rule elt_run.more [OF _ elt_step.destroy]) (auto simp: elt_defs)
  then show "elt_run False l (Inl StdTerminate)" by (simp add: elt_defs)
  have "elt_run False l (EventLoopThread_destroy ?t)" by (rule elt_run.more [OF r elt_step.destroy]) (auto simp: elt_defs)
  then have "elt_run False l (Inr (?t\<lparr>elt_exiting := True, elt_owner := Owner_quitting\<rparr>))" by (simp add: elt_defs)
  then have "elt_run False l (Inr (?ended (?t\<lparr>elt_exiting := True, elt_owner := Owner_quitting\<rparr>)))"
    by (rule elt_run_loop_ends) (simp add: elt_defs)
  then have "elt_run False l (EventLoopThread_quit (?ended (?t\<lparr>elt_exiting := True, elt_owner := Owner_quitting\<rparr>)))"
    by (rule elt_run.more [OF _ elt_step.tell]) simp
  then show "elt_run False l (Inl (UndefinedBehaviour ''loop_->Quit()''))" by (simp add: elt_defs)
  let ?p = "ThreadFunc_publish l (StartLoop_spawn EventLoopThread_new)\<lparr>elt_owner := Owner_returned (Some l)\<rparr>"
  let ?j = "?p\<lparr>elt_exiting := True, elt_object := Quit False (elt_object ?p), elt_owner := Owner_joining\<rparr>"
  have "elt_run False l (Inr ?p)" by (rule elt_run_hand_over [OF elt_run_published]) (simp_all add: elt_defs)
  then have "elt_run False l (EventLoopThread_destroy ?p)" by (rule elt_run.more [OF _ elt_step.destroy]) (auto simp: elt_defs)
  then have "elt_run False l (Inr (?p\<lparr>elt_exiting := True, elt_owner := Owner_quitting\<rparr>))" by (simp add: elt_defs)
  then have "elt_run False l (EventLoopThread_quit (?p\<lparr>elt_exiting := True, elt_owner := Owner_quitting\<rparr>))"
    by (rule elt_run.more [OF _ elt_step.tell]) simp
  then have "elt_run False l (Inr ?j)" by (simp add: elt_defs)
  then have run: "elt_run False l (Inr (ThreadFunc_enter ?j))" by (rule elt_run.more [OF _ elt_step.enter]) (simp add: elt_defs)
  moreover have "\<not> elt_step True l (ThreadFunc_enter ?j) r" for r
    by (auto simp: elt_defs elim!: elt_stepE)
  ultimately show "\<exists>t. elt_run False l (Inr t) \<and> elt_owner t = Owner_joining \<and> (\<forall>r. \<not> elt_step True l t r)"
    by (intro exI [of _ "ThreadFunc_enter ?j"]) (simp add: elt_defs)
qed

end
