(* ===== verification/Sockets.thy ===== *)
theory Sockets
  imports Inet_Address
begin

text \<open>
  The system call wrappers of \<^verbatim>\<open>muduo-cpp11/net/sockets_ops.cpp\<close> and the class \<^verbatim>\<open>Socket\<close> of \<^verbatim>\<open>socket.h\<close>/\<^verbatim>\<open>.cpp\<close>
  (the Linux branch). The system is a parameter: a record of the calls the code makes, each a
  function on the kernel's state \<open>'k\<close>. What callers rely on is \<open>os_law\<close>: a function \<open>fds\<close> reads
  the set of open descriptors, \<^verbatim>\<open>socket\<close>, \<^verbatim>\<open>accept\<close> and \<^verbatim>\<open>open\<close> add a fresh one or fail, \<^verbatim>\<open>close\<close> removes
  one, and the other calls leave the set alone, as the manual pages say.

  Shown: which failures end the program and which are only logged, and that the statistics text of
  a connection always fits its array.
\<close>

section \<open>System calls\<close>

datatype sock_option = TCP_NODELAY | SO_REUSEADDR | SO_REUSEPORT | SO_KEEPALIVE

record tcp_info =
  tcpi_retransmits :: "8 word"
  tcpi_rto :: "32 word"
  tcpi_ato :: "32 word"
  tcpi_snd_mss :: "32 word"
  tcpi_rcv_mss :: "32 word"
  tcpi_lost :: "32 word"
  tcpi_retrans :: "32 word"
  tcpi_rtt :: "32 word"
  tcpi_rttvar :: "32 word"
  tcpi_snd_ssthresh :: "32 word"
  tcpi_snd_cwnd :: "32 word"
  tcpi_total_retrans :: "32 word"

record 'k socket_api =
  sys_socket :: "'k \<Rightarrow> int \<times> 'k"
  sys_bind :: "int \<Rightarrow> sockaddr_in \<Rightarrow> 'k \<Rightarrow> int \<times> 'k"
  sys_listen :: "int \<Rightarrow> 'k \<Rightarrow> int \<times> 'k"
  sys_accept :: "int \<Rightarrow> 'k \<Rightarrow> (int + int \<times> sockaddr_in) \<times> 'k"
  sys_close :: "int \<Rightarrow> 'k \<Rightarrow> int \<times> 'k"
  sys_shutdown_write :: "int \<Rightarrow> 'k \<Rightarrow> int \<times> 'k"
  sys_setsockopt :: "int \<Rightarrow> sock_option \<Rightarrow> int \<Rightarrow> 'k \<Rightarrow> int \<times> 'k"
  sys_open_null :: "'k \<Rightarrow> int \<times> 'k"
  sys_tcp_info :: "int \<Rightarrow> 'k \<Rightarrow> tcp_info option"

definition opens :: "('k \<Rightarrow> int set) \<Rightarrow> int \<Rightarrow> 'k \<Rightarrow> 'k \<Rightarrow> bool" where
  "opens fds fd k k' \<longleftrightarrow> (if fd < 0 then fds k' = fds k else fd \<notin> fds k \<and> fds k' = insert fd (fds k))"

definition os_law :: "'k socket_api \<Rightarrow> ('k \<Rightarrow> int set) \<Rightarrow> bool" where
  "os_law os fds \<longleftrightarrow>
     (\<forall>k fd. fd \<in> fds k \<longrightarrow> 0 \<le> fd)
     \<and> (\<forall>k. opens fds (fst (sys_socket os k)) k (snd (sys_socket os k)))
     \<and> (\<forall>k. opens fds (fst (sys_open_null os k)) k (snd (sys_open_null os k)))
     \<and> (\<forall>fd k. case sys_accept os fd k of
            (Inl _, k') \<Rightarrow> fds k' = fds k
          | (Inr (connfd, _), k') \<Rightarrow> 0 \<le> connfd \<and> connfd \<notin> fds k \<and> fds k' = insert connfd (fds k))
     \<and> (\<forall>fd k. fds (snd (sys_close os fd k)) = fds k - {fd})
     \<and> (\<forall>fd addr k. fds (snd (sys_bind os fd addr k)) = fds k)
     \<and> (\<forall>fd k. fds (snd (sys_listen os fd k)) = fds k)
     \<and> (\<forall>fd k. fds (snd (sys_shutdown_write os fd k)) = fds k)
     \<and> (\<forall>fd opt v k. fds (snd (sys_setsockopt os fd opt v k)) = fds k)"

section \<open>sockets\<close>

definition CreateNonblockingOrDie :: "'k socket_api \<Rightarrow> 'k \<Rightarrow> (int \<times> 'k) outcome" where
  "CreateNonblockingOrDie os k =
     (let (sockfd, k') = sys_socket os k
      in if sockfd < 0 then Inl (LogFatal ''sockets::CreateNonblockingOrDie'') else Inr (sockfd, k'))"

definition BindOrDie :: "'k socket_api \<Rightarrow> int \<Rightarrow> sockaddr_in \<Rightarrow> 'k \<Rightarrow> 'k outcome" where
  "BindOrDie os sockfd addr k =
     (let (ret, k') = sys_bind os sockfd addr k
      in if ret < 0 then Inl (LogFatal ''sockets::BindOrDie'') else Inr k')"

definition ListenOrDie :: "'k socket_api \<Rightarrow> int \<Rightarrow> 'k \<Rightarrow> 'k outcome" where
  "ListenOrDie os sockfd k =
     (let (ret, k') = sys_listen os sockfd k
      in if ret < 0 then Inl (LogFatal ''sockets::ListenOrDie'') else Inr k')"

definition EMFILE :: int where "EMFILE = 24"

text \<open>EAGAIN, ECONNABORTED, EINTR, EPROTO, EPERM, EMFILE are expected; everything else is fatal.\<close>

definition expected_accept_errnos :: "int list" where
  "expected_accept_errnos = [11, 103, 4, 71, 1, EMFILE]"

definition sockets_Accept :: "'k socket_api \<Rightarrow> int \<Rightarrow> 'k \<Rightarrow> ((int + int \<times> sockaddr_in) \<times> 'k) outcome" where
  "sockets_Accept os sockfd k = (case sys_accept os sockfd k of
      (Inr conn, k') \<Rightarrow> Inr (Inr conn, k')
    | (Inl saved_errno, k') \<Rightarrow>
        if saved_errno \<in> set expected_accept_errnos then Inr (Inl saved_errno, k')
        else Inl (LogFatal ''error of ::accept''))"

text \<open>A failing \<^verbatim>\<open>close\<close> or \<^verbatim>\<open>shutdown\<close> is only logged.\<close>

definition sockets_Close :: "'k socket_api \<Rightarrow> int \<Rightarrow> 'k \<Rightarrow> 'k" where
  "sockets_Close os sockfd k = snd (sys_close os sockfd k)"

definition sockets_ShutdownWrite :: "'k socket_api \<Rightarrow> int \<Rightarrow> 'k \<Rightarrow> 'k" where
  "sockets_ShutdownWrite os sockfd k = snd (sys_shutdown_write os sockfd k)"

text \<open>
  The calls on a connected socket are passed on as they are. \<open>Inl\<close> is \<^verbatim>\<open>-1\<close> with its \<^verbatim>\<open>errno\<close>; a read gives the bytes that were
  read, into one array or several. The clients take them as their parameters: \<^verbatim>\<open>readv\<close> in \<^verbatim>\<open>Buffer::ReadFd\<close>, \<^verbatim>\<open>write\<close> in \<^verbatim>\<open>TcpConnection\<close>,
  \<^verbatim>\<open>connect\<close> in \<^verbatim>\<open>Connector\<close>.
\<close>

record 'k stream_api =
  sys_connect :: "int \<Rightarrow> sockaddr_in \<Rightarrow> 'k \<Rightarrow> (int + unit) \<times> 'k"
  sys_read :: "int \<Rightarrow> nat \<Rightarrow> 'k \<Rightarrow> (int + char list) \<times> 'k"
  sys_readv :: "int \<Rightarrow> nat list \<Rightarrow> 'k \<Rightarrow> (int + char list) \<times> 'k"
  sys_write :: "int \<Rightarrow> char list \<Rightarrow> 'k \<Rightarrow> (int + nat) \<times> 'k"

definition sockets_Connect :: "'k stream_api \<Rightarrow> int \<Rightarrow> sockaddr_in \<Rightarrow> 'k \<Rightarrow> (int + unit) \<times> 'k" where
  "sockets_Connect io sockfd addr k = sys_connect io sockfd addr k"

definition sockets_Read :: "'k stream_api \<Rightarrow> int \<Rightarrow> nat \<Rightarrow> 'k \<Rightarrow> (int + char list) \<times> 'k" where
  "sockets_Read io sockfd count k = sys_read io sockfd count k"

definition sockets_Readv :: "'k stream_api \<Rightarrow> int \<Rightarrow> nat list \<Rightarrow> 'k \<Rightarrow> (int + char list) \<times> 'k" where
  "sockets_Readv io sockfd iov k = sys_readv io sockfd iov k"

definition sockets_Write :: "'k stream_api \<Rightarrow> int \<Rightarrow> char list \<Rightarrow> 'k \<Rightarrow> (int + nat) \<times> 'k" where
  "sockets_Write io sockfd buf k = sys_write io sockfd buf k"

section \<open>Socket\<close>

definition Socket_destroy :: "'k socket_api \<Rightarrow> int \<Rightarrow> 'k \<Rightarrow> 'k" where
  "Socket_destroy os sockfd k = sockets_Close os sockfd k"

definition BindAddress :: "'k socket_api \<Rightarrow> int \<Rightarrow> sockaddr_in \<Rightarrow> 'k \<Rightarrow> 'k outcome" where
  "BindAddress os sockfd addr k = BindOrDie os sockfd addr k"

definition Socket_Listen :: "'k socket_api \<Rightarrow> int \<Rightarrow> 'k \<Rightarrow> 'k outcome" where
  "Socket_Listen os sockfd k = ListenOrDie os sockfd k"

text \<open>The peer's address is assigned on success and untouched on failure.\<close>

definition Socket_Accept ::
  "'k socket_api \<Rightarrow> int \<Rightarrow> sockaddr_in \<Rightarrow> 'k \<Rightarrow> ((int + int) \<times> sockaddr_in \<times> 'k) outcome" where
  "Socket_Accept os sockfd peeraddr k =
     and_then (sockets_Accept os sockfd k) (\<lambda>(r, k'). case r of
        Inr (connfd, addr) \<Rightarrow> Inr (Inr connfd, addr, k')
      | Inl saved_errno \<Rightarrow> Inr (Inl saved_errno, peeraddr, k'))"

definition Socket_ShutdownWrite :: "'k socket_api \<Rightarrow> int \<Rightarrow> 'k \<Rightarrow> 'k" where
  "Socket_ShutdownWrite os sockfd k = sockets_ShutdownWrite os sockfd k"

definition set_option :: "'k socket_api \<Rightarrow> sock_option \<Rightarrow> int \<Rightarrow> bool \<Rightarrow> 'k \<Rightarrow> 'k" where
  "set_option os opt sockfd on k = (let optval = (if on then 1 else 0) in snd (sys_setsockopt os sockfd opt optval k))"

definition set_tcpnodelay :: "'k socket_api \<Rightarrow> int \<Rightarrow> bool \<Rightarrow> 'k \<Rightarrow> 'k" where
  "set_tcpnodelay os = set_option os TCP_NODELAY"

definition set_reuseaddr :: "'k socket_api \<Rightarrow> int \<Rightarrow> bool \<Rightarrow> 'k \<Rightarrow> 'k" where
  "set_reuseaddr os = set_option os SO_REUSEADDR"

definition set_reuseport :: "'k socket_api \<Rightarrow> int \<Rightarrow> bool \<Rightarrow> 'k \<Rightarrow> 'k" where
  "set_reuseport os = set_option os SO_REUSEPORT"

definition set_keepalive :: "'k socket_api \<Rightarrow> int \<Rightarrow> bool \<Rightarrow> 'k \<Rightarrow> 'k" where
  "set_keepalive os = set_option os SO_KEEPALIVE"

definition TcpConnection_SetTcpNoDelay :: "'k socket_api \<Rightarrow> int \<Rightarrow> bool \<Rightarrow> 'k \<Rightarrow> 'k" where
  "TcpConnection_SetTcpNoDelay os sockfd on k = set_tcpnodelay os sockfd on k"

text \<open>The structure is zeroed first and stays so when the call fails.\<close>

definition zero_tcp_info :: tcp_info where
  "zero_tcp_info = \<lparr>tcpi_retransmits = 0, tcpi_rto = 0, tcpi_ato = 0, tcpi_snd_mss = 0, tcpi_rcv_mss = 0, tcpi_lost = 0,
     tcpi_retrans = 0, tcpi_rtt = 0, tcpi_rttvar = 0, tcpi_snd_ssthresh = 0, tcpi_snd_cwnd = 0, tcpi_total_retrans = 0\<rparr>"

definition Socket_GetTcpInfo :: "'k socket_api \<Rightarrow> int \<Rightarrow> 'k \<Rightarrow> bool \<times> tcp_info" where
  "Socket_GetTcpInfo os sockfd k =
     (case sys_tcp_info os sockfd k of None \<Rightarrow> (False, zero_tcp_info) | Some tcpi \<Rightarrow> (True, tcpi))"

definition TcpConnection_GetTcpInfo :: "'k socket_api \<Rightarrow> int \<Rightarrow> 'k \<Rightarrow> bool \<times> tcp_info" where
  "TcpConnection_GetTcpInfo os sockfd k = Socket_GetTcpInfo os sockfd k"

definition udecimal :: "'a::len word \<Rightarrow> string" where
  "udecimal w = decimal_nat (unat w)"

definition tcp_info_text :: "tcp_info \<Rightarrow> string" where
  "tcp_info_text i =
     ''unrecovered='' @ udecimal (tcpi_retransmits i) @
     '' rto='' @ udecimal (tcpi_rto i) @ '' ato='' @ udecimal (tcpi_ato i) @
     '' snd_mss='' @ udecimal (tcpi_snd_mss i) @ '' rcv_mss='' @ udecimal (tcpi_rcv_mss i) @
     '' lost='' @ udecimal (tcpi_lost i) @ '' retrans='' @ udecimal (tcpi_retrans i) @
     '' rtt='' @ udecimal (tcpi_rtt i) @ '' rttvar='' @ udecimal (tcpi_rttvar i) @
     '' sshthresh='' @ udecimal (tcpi_snd_ssthresh i) @ '' cwnd='' @ udecimal (tcpi_snd_cwnd i) @
     '' total_retrans='' @ udecimal (tcpi_total_retrans i)"

text \<open>The text left in the array of \<open>len\<close> characters, or nothing when the call fails.\<close>

definition Socket_GetTcpInfoString :: "'k socket_api \<Rightarrow> int \<Rightarrow> nat \<Rightarrow> 'k \<Rightarrow> string option" where
  "Socket_GetTcpInfoString os sockfd len k =
     (let (ok, tcpi) = Socket_GetTcpInfo os sockfd k
      in if ok then Some (snprintf_trunc len (tcp_info_text tcpi)) else None)"

definition TcpConnection_GetTcpInfoString :: "'k socket_api \<Rightarrow> int \<Rightarrow> 'k \<Rightarrow> string" where
  "TcpConnection_GetTcpInfoString os sockfd k =
     (case Socket_GetTcpInfoString os sockfd 1024 k of None \<Rightarrow> [] | Some buf \<Rightarrow> buf)"

section \<open>Lemmas\<close>

named_theorems os_simps \<open>what the system calls do to the set of open descriptors\<close>

lemma os_lawD:
  assumes "os_law os fds"
  shows "fd \<in> fds k \<Longrightarrow> 0 \<le> fd"
    "sys_socket os k = (fd, k') \<Longrightarrow> opens fds fd k k'"
    "sys_open_null os k = (fd, k') \<Longrightarrow> opens fds fd k k'"
    "sys_accept os sockfd k = (Inl err, k') \<Longrightarrow> fds k' = fds k"
    "sys_accept os sockfd k = (Inr (connfd, addr), k') \<Longrightarrow> 0 \<le> connfd \<and> connfd \<notin> fds k \<and> fds k' = insert connfd (fds k)"
proof -
  show "fd \<in> fds k \<Longrightarrow> 0 \<le> fd" using assms by (simp add: os_law_def)
  show "sys_socket os k = (fd, k') \<Longrightarrow> opens fds fd k k'" "sys_open_null os k = (fd, k') \<Longrightarrow> opens fds fd k k'"
    using assms unfolding os_law_def by (metis fst_conv snd_conv)+
  have acc: "case sys_accept os sockfd k of
            (Inl _, k') \<Rightarrow> fds k' = fds k
          | (Inr (connfd, _), k') \<Rightarrow> 0 \<le> connfd \<and> connfd \<notin> fds k \<and> fds k' = insert connfd (fds k)"
    using assms by (simp add: os_law_def)
  then show "sys_accept os sockfd k = (Inl err, k') \<Longrightarrow> fds k' = fds k"
    "sys_accept os sockfd k = (Inr (connfd, addr), k') \<Longrightarrow> 0 \<le> connfd \<and> connfd \<notin> fds k \<and> fds k' = insert connfd (fds k)"
    by simp_all
qed

lemma os_law_fds [os_simps]:
  assumes "os_law os fds"
  shows "fds (sockets_Close os fd k) = fds k - {fd}" "fds (set_option os opt fd on k) = fds k"
    "fds (sockets_ShutdownWrite os fd k) = fds k"
  using assms by (simp_all add: os_law_def sockets_Close_def set_option_def sockets_ShutdownWrite_def Let_def)

lemma BindOrDie_fds: "os_law os fds \<Longrightarrow> BindOrDie os fd addr k = Inr k' \<Longrightarrow> fds k' = fds k"
  by (auto simp: os_law_def BindOrDie_def Let_def split: prod.splits if_splits) (metis snd_conv)+

lemma ListenOrDie_fds: "os_law os fds \<Longrightarrow> ListenOrDie os fd k = Inr k' \<Longrightarrow> fds k' = fds k"
  by (auto simp: os_law_def ListenOrDie_def Let_def split: prod.splits if_splits) (metis snd_conv)+

lemma length_udecimal: "length (udecimal (w :: 32 word)) \<le> 10" "length (udecimal (v :: 8 word)) \<le> 3"
proof -
  have "unat w < 10 ^ 10" "unat v < 10 ^ 3"
    using unsigned_less [of w, where ?'a = nat] unsigned_less [of v, where ?'a = nat] by simp_all
  then show "length (udecimal w) \<le> 10" "length (udecimal v) \<le> 3"
    by (simp_all add: udecimal_def length_decimal_nat)
qed

text \<open>The statistics of a connection are never cut off.\<close>

lemma tcp_info_fits:
  assumes "sys_tcp_info os sockfd k = Some tcpi"
  shows "TcpConnection_GetTcpInfoString os sockfd k = tcp_info_text tcpi"
proof -
  note u = length_udecimal(1) [of "tcpi_rto tcpi"] length_udecimal(1) [of "tcpi_ato tcpi"] length_udecimal(1) [of "tcpi_snd_mss tcpi"]
    length_udecimal(1) [of "tcpi_rcv_mss tcpi"] length_udecimal(1) [of "tcpi_lost tcpi"] length_udecimal(1) [of "tcpi_retrans tcpi"]
    length_udecimal(1) [of "tcpi_rtt tcpi"] length_udecimal(1) [of "tcpi_rttvar tcpi"] length_udecimal(1) [of "tcpi_snd_ssthresh tcpi"]
    length_udecimal(1) [of "tcpi_snd_cwnd tcpi"] length_udecimal(1) [of "tcpi_total_retrans tcpi"]
    length_udecimal(2) [of "tcpi_retransmits tcpi"]
  have "length (tcp_info_text tcpi) < 1024" unfolding tcp_info_text_def using u by simp
  then show ?thesis using assms
    by (simp add: TcpConnection_GetTcpInfoString_def Socket_GetTcpInfoString_def Socket_GetTcpInfo_def snprintf_fits)
qed

end
