(* ===== verification/Loop_Registry.thy ===== *)
theory Loop_Registry
  imports Sockets Event_Loop Loop_Threads
begin

text \<open>
  Construction and destruction of event loops (\<^verbatim>\<open>muduo-cpp11/net/event_loop.cpp\<close>, with the descriptors of
  \<^verbatim>\<open>timer_queue.cpp\<close>, \<^verbatim>\<open>poller/epoll_poller.cpp\<close> and the choice of \<^verbatim>\<open>poller/default_poller.cpp\<close>): every thread has a
  slot \<^verbatim>\<open>t_loop_in_this_thread\<close>, a loop takes up to three descriptors from the system, and what its wakeup and timer
  channels do to the poller is the subject of the poller theories.

  Shown: however threads create and destroy loops, a thread has at most one, its slot points to it, and every
  descriptor a loop took is given back when it is destroyed.
\<close>

section \<open>System and choice of poller\<close>

type_synonym thread_id = int

record 'k loop_api =
  sys_epoll_create1 :: "'k \<Rightarrow> int \<times> 'k"
  sys_timerfd_create :: "'k \<Rightarrow> int \<times> 'k"
  sys_eventfd :: "'k \<Rightarrow> int \<times> 'k"
  sys_close_fd :: "int \<Rightarrow> 'k \<Rightarrow> 'k"

definition loop_law :: "'k loop_api \<Rightarrow> ('k \<Rightarrow> int set) \<Rightarrow> bool" where
  "loop_law os fds \<longleftrightarrow>
     (\<forall>k. opens fds (fst (sys_epoll_create1 os k)) k (snd (sys_epoll_create1 os k)))
     \<and> (\<forall>k. opens fds (fst (sys_timerfd_create os k)) k (snd (sys_timerfd_create os k)))
     \<and> (\<forall>k. opens fds (fst (sys_eventfd os k)) k (snd (sys_eventfd os k)))
     \<and> (\<forall>fd k. fds (sys_close_fd os fd k) = fds k - {fd})"

datatype poller_kind = Kind_PollPoller | Kind_EPollPoller

text \<open>\<open>env\<close> is the value of the variable \<^verbatim>\<open>MUDUO_CPP11_USE_POLL\<close>, if it is set.\<close>

definition NewDefaultPoller :: "string option \<Rightarrow> poller_kind" where
  "NewDefaultPoller env = (if env \<noteq> None then Kind_PollPoller else Kind_EPollPoller)"

definition EPollPoller_open :: "'k loop_api \<Rightarrow> 'k \<Rightarrow> (int \<times> 'k) outcome" where
  "EPollPoller_open os k =
     (let (epollfd, k') = sys_epoll_create1 os k
      in if epollfd < 0 then Inl (LogFatal ''EPollPoller::EPollPoller'') else Inr (epollfd, k'))"

definition EPollPoller_destroy :: "'k loop_api \<Rightarrow> int \<Rightarrow> 'k \<Rightarrow> 'k" where
  "EPollPoller_destroy os epollfd k = sys_close_fd os epollfd k"

definition Poller_open :: "'k loop_api \<Rightarrow> poller_kind \<Rightarrow> 'k \<Rightarrow> (int option \<times> 'k) outcome" where
  "Poller_open os kind k = (case kind of
       Kind_PollPoller \<Rightarrow> Inr (None, k)
     | Kind_EPollPoller \<Rightarrow> and_then (EPollPoller_open os k) (\<lambda>(fd, k'). Inr (Some fd, k')))"

definition Poller_close :: "'k loop_api \<Rightarrow> int option \<Rightarrow> 'k \<Rightarrow> 'k" where
  "Poller_close os epollfd k = (case epollfd of None \<Rightarrow> k | Some fd \<Rightarrow> EPollPoller_destroy os fd k)"

definition CreateTimerfd :: "'k loop_api \<Rightarrow> 'k \<Rightarrow> (int \<times> 'k) outcome" where
  "CreateTimerfd os k =
     (let (timerfd, k') = sys_timerfd_create os k
      in if timerfd < 0 then Inl (LogFatal ''Failed in timerfd_create'') else Inr (timerfd, k'))"

definition CreateEventfd :: "'k loop_api \<Rightarrow> 'k \<Rightarrow> (int \<times> 'k) outcome" where
  "CreateEventfd os k =
     (let (evtfd, k') = sys_eventfd os k in if evtfd < 0 then Inl AbortCalled else Inr (evtfd, k'))"

section \<open>Loops and threads\<close>

record loop_object =
  lo_thread :: thread_id
  lo_epollfd :: "int option"
  lo_timerfd :: int
  lo_timer_channel :: channel
  lo_wakeup_fd :: int
  lo_wakeup_channel :: channel

record 'k process =
  t_loop_in_thread :: "thread_id \<rightharpoonup> loop_addr"
  p_loops :: "loop_addr \<rightharpoonup> loop_object"
  p_kernel :: 'k

definition GetEventLoopOfCurrentThread :: "thread_id \<Rightarrow> 'k process \<Rightarrow> loop_addr option" where
  "GetEventLoopOfCurrentThread tid p = t_loop_in_thread p tid"

definition IsInLoopThread :: "thread_id \<Rightarrow> loop_object \<Rightarrow> bool" where
  "IsInLoopThread tid lo \<longleftrightarrow> lo_thread lo = tid"

text \<open>The members in their order, then the body of the constructor. \<open>l\<close> is the address of the new object.\<close>

definition EventLoop_construct ::
  "'k loop_api \<Rightarrow> string option \<Rightarrow> thread_id \<Rightarrow> loop_addr \<Rightarrow> 'k process \<Rightarrow> 'k process outcome" where
  "EventLoop_construct os env tid l p =
     and_then (Poller_open os (NewDefaultPoller env) (p_kernel p)) (\<lambda>(epollfd, k1).
     and_then (CreateTimerfd os k1) (\<lambda>(timerfd, k2).
     let timer_channel = with_events (\<lambda>ev. ev OR kReadEvent) (Channel_new timerfd) in
     and_then (CreateEventfd os k2) (\<lambda>(wakeup_fd, k3).
     case t_loop_in_thread p tid of
       Some _ \<Rightarrow> Inl (LogFatal ''Another EventLoop exists in this thread'')
     | None \<Rightarrow>
         let wakeup_channel = with_events (\<lambda>ev. ev OR kReadEvent) (Channel_new wakeup_fd)
         in Inr \<lparr>t_loop_in_thread = (t_loop_in_thread p)(tid \<mapsto> l),
                 p_loops = (p_loops p)(l \<mapsto> \<lparr>lo_thread = tid, lo_epollfd = epollfd, lo_timerfd = timerfd,
                    lo_timer_channel = timer_channel, lo_wakeup_fd = wakeup_fd, lo_wakeup_channel = wakeup_channel\<rparr>),
                 p_kernel = k3\<rparr>)))"

text \<open>\<^verbatim>\<open>DisableAll(); Remove();\<close> on a channel of the loop, both of which ask for the loop's thread.\<close>

definition take_out :: "bool \<Rightarrow> channel \<Rightarrow> channel outcome" where
  "take_out in_loop_thread ch =
     AssertInLoopThread in_loop_thread
     (let ch1 = with_events (\<lambda>_. kNoneEvent) ch
      in asserting (IsNoneEvent ch1) ''IsNoneEvent()'' (Inr (ch1\<lparr>added_to_loop := False\<rparr>)))"

text \<open>
  The body of the destructor, then the members in reverse order: the wakeup channel, the timer queue with its own
  destructor, the poller.
\<close>

definition EventLoop_destroy :: "'k loop_api \<Rightarrow> thread_id \<Rightarrow> loop_addr \<Rightarrow> 'k process \<Rightarrow> 'k process outcome" where
  "EventLoop_destroy os tid l p =
     (case p_loops p l of
        None \<Rightarrow> Inl (UndefinedBehaviour ''no such EventLoop'')
      | Some lo \<Rightarrow>
          let here = IsInLoopThread tid lo in
          and_then (take_out here (lo_wakeup_channel lo)) (\<lambda>wakeup_channel.
          let k1 = sys_close_fd os (lo_wakeup_fd lo) (p_kernel p);
              slots = (t_loop_in_thread p)(tid := None)
          in and_then (Channel_destroy here False wakeup_channel) (\<lambda>_.
             and_then (take_out here (lo_timer_channel lo)) (\<lambda>timer_channel.
             let k2 = sys_close_fd os (lo_timerfd lo) k1
             in and_then (Channel_destroy here False timer_channel) (\<lambda>_.
                Inr \<lparr>t_loop_in_thread = slots, p_loops = (p_loops p)(l := None),
                     p_kernel = Poller_close os (lo_epollfd lo) k2\<rparr>)))))"

section \<open>Runs\<close>

text \<open>
  Any thread creates and destroys loops; \<open>held\<close> are the descriptors of the rest of the program, which opens and closes
  its own.
\<close>

inductive reg_run :: "'k loop_api \<Rightarrow> ('k \<Rightarrow> int set) \<Rightarrow> ('k process \<times> int set) outcome \<Rightarrow> bool" for os fds where
  reg_begin: "reg_run os fds (Inr (\<lparr>t_loop_in_thread = Map.empty, p_loops = Map.empty, p_kernel = k\<rparr>, fds k))"
| reg_construct: "reg_run os fds (Inr (p, held)) \<Longrightarrow> p_loops p l = None \<Longrightarrow>
    reg_run os fds (and_then (EventLoop_construct os env tid l p) (\<lambda>p'. Inr (p', held)))"
| reg_destroy: "reg_run os fds (Inr (p, held)) \<Longrightarrow> p_loops p l \<noteq> None \<Longrightarrow>
    reg_run os fds (and_then (EventLoop_destroy os tid l p) (\<lambda>p'. Inr (p', held)))"
| reg_close: "reg_run os fds (Inr (p, held)) \<Longrightarrow> fd \<in> held \<Longrightarrow>
    reg_run os fds (Inr (p\<lparr>p_kernel := sys_close_fd os fd (p_kernel p)\<rparr>, held - {fd}))"
| reg_open: "reg_run os fds (Inr (p, held)) \<Longrightarrow> opens fds fd (p_kernel p) k' \<Longrightarrow> 0 \<le> fd \<Longrightarrow>
    reg_run os fds (Inr (p\<lparr>p_kernel := k'\<rparr>, insert fd held))"

section \<open>Invariant\<close>

definition opt_fd :: "int option \<Rightarrow> int set" where
  "opt_fd fd = (case fd of None \<Rightarrow> {} | Some n \<Rightarrow> {n})"

lemma opt_fd_simps [simp]: "opt_fd None = {}" "opt_fd (Some n) = {n}"
  by (simp_all add: opt_fd_def)

definition lo_own :: "loop_object \<Rightarrow> int set" where
  "lo_own lo = {lo_timerfd lo, lo_wakeup_fd lo} \<union> opt_fd (lo_epollfd lo)"

definition owned :: "'k process \<Rightarrow> int set" where
  "owned p = (\<Union>lo \<in> ran (p_loops p). lo_own lo)"

definition slots_exact :: "'k process \<Rightarrow> bool" where
  "slots_exact p \<longleftrightarrow> (\<forall>tid l. t_loop_in_thread p tid = Some l \<longleftrightarrow> (\<exists>lo. p_loops p l = Some lo \<and> lo_thread lo = tid))"

definition own_apart :: "'k process \<Rightarrow> bool" where
  "own_apart p \<longleftrightarrow> (\<forall>l l' lo lo'. p_loops p l = Some lo \<longrightarrow> p_loops p l' = Some lo' \<longrightarrow> l \<noteq> l' \<longrightarrow> lo_own lo \<inter> lo_own lo' = {})"

definition reg_inv :: "('k \<Rightarrow> int set) \<Rightarrow> 'k process \<times> int set \<Rightarrow> bool" where
  "reg_inv fds = (\<lambda>(p, held). slots_exact p \<and> own_apart p \<and> fds (p_kernel p) = held \<union> owned p \<and> held \<inter> owned p = {}
     \<and> (\<forall>l lo. p_loops p l = Some lo \<longrightarrow> \<not> event_handling (lo_timer_channel lo) \<and> \<not> event_handling (lo_wakeup_channel lo)))"

definition starts_or_dies :: "('x \<Rightarrow> bool) \<Rightarrow> 'x outcome \<Rightarrow> bool" where
  "starts_or_dies P m = (case m of Inr x \<Rightarrow> P x | Inl e \<Rightarrow> (\<exists>msg. e = LogFatal msg) \<or> e = AbortCalled)"

lemma starts_or_dies_simps [simp]:
  "starts_or_dies P (Inr x) \<longleftrightarrow> P x" "starts_or_dies P (Inl e) \<longleftrightarrow> (\<exists>msg. e = LogFatal msg) \<or> e = AbortCalled"
  by (simp_all add: starts_or_dies_def)

lemma starts_and_then:
  "starts_or_dies P m \<Longrightarrow> (\<And>x. P x \<Longrightarrow> starts_or_dies Q (f x)) \<Longrightarrow> starts_or_dies Q (and_then m f)"
  by (cases m) auto

text \<open>Opening a descriptor adds a fresh one.\<close>

definition adds :: "('k \<Rightarrow> int set) \<Rightarrow> 'k \<Rightarrow> int set \<Rightarrow> 'k \<Rightarrow> bool" where
  "adds fds k new k' \<longleftrightarrow> new \<inter> fds k = {} \<and> fds k' = fds k \<union> new"

lemma loop_lawD:
  assumes "loop_law os fds"
  shows "sys_epoll_create1 os k = (fd, k') \<Longrightarrow> opens fds fd k k'" "sys_timerfd_create os k = (fd, k') \<Longrightarrow> opens fds fd k k'"
    "sys_eventfd os k = (fd, k') \<Longrightarrow> opens fds fd k k'" "fds (sys_close_fd os fd k) = fds k - {fd}"
  using assms unfolding loop_law_def by (metis fst_conv snd_conv)+

lemma open_ok:
  assumes "loop_law os fds"
  shows "starts_or_dies (\<lambda>(fd, k'). adds fds k {fd} k') (CreateTimerfd os k)"
    and "starts_or_dies (\<lambda>(fd, k'). adds fds k {fd} k') (CreateEventfd os k)"
    and "starts_or_dies (\<lambda>(fd, k'). adds fds k (opt_fd fd) k') (Poller_open os kind k)"
  using loop_lawD(1-3) [OF assms, of k]
  by (auto simp: CreateTimerfd_def CreateEventfd_def Poller_open_def EPollPoller_open_def opens_def adds_def Let_def
      split: prod.split poller_kind.split)

text \<open>A new loop in a thread without one.\<close>

lemma construct_inv:
  assumes law: "loop_law os fds" and inv: "reg_inv fds (p, held)" and l: "p_loops p l = None"
  shows "starts_or_dies (\<lambda>p'. reg_inv fds (p', held) \<and> t_loop_in_thread p tid = None
    \<and> t_loop_in_thread p' = (t_loop_in_thread p)(tid \<mapsto> l)) (EventLoop_construct os env tid l p)"
  unfolding EventLoop_construct_def Let_def
proof (rule starts_and_then [OF open_ok(3) [OF law]], clarify, rule starts_and_then [OF open_ok(1) [OF law]], clarify,
    rule starts_and_then [OF open_ok(2) [OF law]], clarify)
  fix e k1 t k2 w k3
  assume k: "adds fds (p_kernel p) (opt_fd e) k1" "adds fds k1 {t} k2" "adds fds k2 {w} k3"
  let ?lo = "\<lparr>lo_thread = tid, lo_epollfd = e, lo_timerfd = t, lo_timer_channel = with_events (\<lambda>ev. ev OR kReadEvent) (Channel_new t),
      lo_wakeup_fd = w, lo_wakeup_channel = with_events (\<lambda>ev. ev OR kReadEvent) (Channel_new w)\<rparr>"
  let ?p = "\<lparr>t_loop_in_thread = (t_loop_in_thread p)(tid \<mapsto> l), p_loops = (p_loops p)(l \<mapsto> ?lo), p_kernel = k3\<rparr>"
  have i: "slots_exact p" "own_apart p" "fds (p_kernel p) = held \<union> owned p" "held \<inter> owned p = {}"
    "\<And>l lo. p_loops p l = Some lo \<Longrightarrow> \<not> event_handling (lo_timer_channel lo) \<and> \<not> event_handling (lo_wakeup_channel lo)"
    using inv by (auto simp: reg_inv_def)
  have new: "lo_own ?lo \<inter> fds (p_kernel p) = {}" "fds k3 = fds (p_kernel p) \<union> lo_own ?lo"
    using k by (auto simp: adds_def lo_own_def)
  have own: "owned ?p = owned p \<union> lo_own ?lo" using l by (auto simp: owned_def ran_map_upd)
  have "reg_inv fds (?p, held)" if "t_loop_in_thread p tid = None"
    unfolding reg_inv_def
  proof (clarify, intro conjI)
    have "lo_thread lo \<noteq> tid" if "p_loops p l' = Some lo" for l' lo
      using i(1) that \<open>t_loop_in_thread p tid = None\<close> unfolding slots_exact_def by (metis option.distinct(1))
    then show "slots_exact ?p" using i(1) l by (auto simp: slots_exact_def)
    have "lo_own lo \<inter> lo_own ?lo = {}" if "p_loops p l' = Some lo" for l' lo
      using new(1) i(3) that by (auto simp: owned_def ran_def)
    then show "own_apart ?p" using i(2) by (auto simp: own_apart_def)
    show "fds (p_kernel ?p) = held \<union> owned ?p" using new(2) i(3) own by auto
    show "held \<inter> owned ?p = {}" using new(1) i(3,4) own by auto
    show "\<forall>l' lo. p_loops ?p l' = Some lo \<longrightarrow> \<not> event_handling (lo_timer_channel lo) \<and> \<not> event_handling (lo_wakeup_channel lo)"
      using i(5) by (auto simp: with_events_def Channel_new_def)
  qed
  then show "starts_or_dies (\<lambda>p'. reg_inv fds (p', held) \<and> t_loop_in_thread p tid = None
      \<and> t_loop_in_thread p' = (t_loop_in_thread p)(tid \<mapsto> l))
    (case t_loop_in_thread p tid of None \<Rightarrow> Inr ?p | Some _ \<Rightarrow> Inl (LogFatal ''Another EventLoop exists in this thread''))"
    by (cases "t_loop_in_thread p tid") simp_all
qed

lemma take_out_ok:
  "\<not> event_handling ch \<Longrightarrow> take_out True ch = Inr (ch\<lparr>ch_events := kNoneEvent, added_to_loop := False\<rparr>)"
  by (simp add: take_out_def AssertInLoopThread_def with_events_def IsNoneEvent_def)

lemma Poller_close_fds: "loop_law os fds \<Longrightarrow> fds (Poller_close os fd k) = fds k - opt_fd fd"
  by (cases fd) (simp_all add: Poller_close_def EPollPoller_destroy_def loop_lawD(4))

text \<open>Only the thread of a loop can destroy it, and then everything it had is given back.\<close>

text \<open>What is left when the loop of a thread is taken out.\<close>

lemma owned_without:
  assumes "own_apart p" "p_loops p l = Some lo"
  shows "\<Union> (lo_own ` ran ((p_loops p)(l := None))) = owned p - lo_own lo"
proof (rule set_eqI)
  fix fd
  have others: "lo_own x \<inter> lo_own lo = {}" if "p_loops p l' = Some x" "l' \<noteq> l" for l' x
    using assms that by (auto simp: own_apart_def)
  have "fd \<in> \<Union> (lo_own ` ran ((p_loops p)(l := None))) \<longleftrightarrow> (\<exists>l' x. l' \<noteq> l \<and> p_loops p l' = Some x \<and> fd \<in> lo_own x)"
    by (auto simp: ran_def split: if_splits)
  also have "\<dots> \<longleftrightarrow> (\<exists>l' x. p_loops p l' = Some x \<and> fd \<in> lo_own x) \<and> fd \<notin> lo_own lo"
    using others assms(2) by (metis disjoint_iff option.inject)
  finally show "fd \<in> \<Union> (lo_own ` ran ((p_loops p)(l := None))) \<longleftrightarrow> fd \<in> owned p - lo_own lo" by (auto simp: owned_def ran_def)
qed

lemma slots_without:
  assumes exact: "slots_exact p" and lo: "p_loops p l = Some lo" "lo_thread lo = tid"
    and p': "t_loop_in_thread p' = (t_loop_in_thread p)(tid := None)" "p_loops p' = (p_loops p)(l := None)"
  shows "slots_exact p'"
  unfolding slots_exact_def
proof (intro allI)
  fix t l'
  have S: "t_loop_in_thread p t = Some l' \<longleftrightarrow> (\<exists>x. p_loops p l' = Some x \<and> lo_thread x = t)" for t l'
    using exact unfolding slots_exact_def by blast
  have uniq: "l' = l" if "p_loops p l' = Some x" "lo_thread x = tid" for l' x
  proof -
    have "t_loop_in_thread p tid = Some l'" "t_loop_in_thread p tid = Some l" using S that lo by blast+
    then show ?thesis by simp
  qed
  show "t_loop_in_thread p' t = Some l' \<longleftrightarrow> (\<exists>x. p_loops p' l' = Some x \<and> lo_thread x = t)"
  proof (cases "t = tid")
    case False
    then show ?thesis using S [of t l'] lo p' by simp
  qed (use uniq p' in auto)
qed

lemma destroy_inv:
  assumes law: "loop_law os fds" and inv: "reg_inv fds (p, held)" and lo: "p_loops p l = Some lo"
  shows "if lo_thread lo = tid
    then \<exists>p'. EventLoop_destroy os tid l p = Inr p' \<and> reg_inv fds (p', held) \<and> t_loop_in_thread p' tid = None
      \<and> fds (p_kernel p') = fds (p_kernel p) - lo_own lo
    else EventLoop_destroy os tid l p = Inl (LogFatal ''EventLoop::AbortNotInLoopThread'')"
proof (cases "lo_thread lo = tid")
  case False
  then show ?thesis using lo by (simp add: EventLoop_destroy_def IsInLoopThread_def take_out_def AssertInLoopThread_def)
next
  case True
  let ?k = "Poller_close os (lo_epollfd lo) (sys_close_fd os (lo_timerfd lo) (sys_close_fd os (lo_wakeup_fd lo) (p_kernel p)))"
  let ?p = "\<lparr>t_loop_in_thread = (t_loop_in_thread p)(tid := None), p_loops = (p_loops p)(l := None), p_kernel = ?k\<rparr>"
  have i: "slots_exact p" "own_apart p" "fds (p_kernel p) = held \<union> owned p" "held \<inter> owned p = {}"
    "\<And>l lo. p_loops p l = Some lo \<Longrightarrow> \<not> event_handling (lo_timer_channel lo) \<and> \<not> event_handling (lo_wakeup_channel lo)"
    using inv by (auto simp: reg_inv_def)
  have run: "EventLoop_destroy os tid l p = Inr ?p"
    using lo True i(5) [OF lo] by (simp add: EventLoop_destroy_def IsInLoopThread_def take_out_ok Channel_destroy_def)
  have k: "fds ?k = fds (p_kernel p) - lo_own lo"
    by (auto simp: Poller_close_fds [OF law] loop_lawD(4) [OF law] lo_own_def)
  have own: "owned ?p = owned p - lo_own lo" using owned_without [OF i(2) lo] by (simp add: owned_def)
  have "reg_inv fds (?p, held)" unfolding reg_inv_def
  proof (clarify, intro conjI)
    show "slots_exact ?p" by (rule slots_without [OF i(1) lo True]) simp_all
    show "own_apart ?p" using i(2) by (auto simp: own_apart_def)
    have "lo_own lo \<subseteq> owned p" using lo by (auto simp: owned_def ran_def)
    then show "fds (p_kernel ?p) = held \<union> owned ?p" using k i(3,4) own by auto
    show "held \<inter> owned ?p = {}" using i(4) own by auto
    show "\<forall>l' x. p_loops ?p l' = Some x \<longrightarrow> \<not> event_handling (lo_timer_channel x) \<and> \<not> event_handling (lo_wakeup_channel x)"
      using i(5) by simp
  qed
  then show ?thesis using True run k by simp
qed

lemma reg_run_inv:
  assumes "reg_run os fds m" "loop_law os fds"
  shows "starts_or_dies (reg_inv fds) m"
  using assms(1)
proof (induction rule: reg_run.induct)
  case (reg_begin k)
  then show ?case by (simp add: reg_inv_def slots_exact_def own_apart_def owned_def)
next
  case (reg_construct p held l env tid)
  then show ?case using construct_inv [OF assms(2), of p held l tid env]
    by (cases "EventLoop_construct os env tid l p") auto
next
  case (reg_destroy p held l tid)
  then obtain lo where "p_loops p l = Some lo" by blast
  then show ?case using destroy_inv [OF assms(2), of p held l lo tid] reg_destroy by (auto split: if_splits)
next
  case (reg_close p held fd)
  then show ?case by (auto simp: reg_inv_def loop_lawD(4) [OF assms(2)] slots_exact_def own_apart_def owned_def)
next
  case (reg_open p held fd k')
  then show ?case by (auto simp: reg_inv_def opens_def slots_exact_def own_apart_def owned_def)
qed

section \<open>Properties\<close>

text \<open>
  C24. One loop per thread, and no descriptor lost. However threads create and destroy loops, the only failures are those the
  code asks for: a system call that gives no descriptor, a second loop in a thread, and a loop destroyed by
  another thread. Otherwise the slot of a thread points exactly to the loop that was created in it, a loop
  is created only in a thread without one, and the open descriptors are those of the rest of the program together with
  those of the loops; destroying a loop gives back all of its own and no other.
\<close>

theorem One_loop_per_thread:
  assumes "loop_law os fds" "reg_run os fds m"
  shows "(\<exists>msg. m = Inl (LogFatal msg)) \<or> m = Inl AbortCalled \<or> (\<exists>p held. m = Inr (p, held)
    \<and> (\<forall>tid l. GetEventLoopOfCurrentThread tid p = Some l \<longleftrightarrow> (\<exists>lo. p_loops p l = Some lo \<and> IsInLoopThread tid lo))
    \<and> fds (p_kernel p) = held \<union> (\<Union>lo \<in> ran (p_loops p). lo_own lo) \<and> held \<inter> (\<Union>lo \<in> ran (p_loops p). lo_own lo) = {}
    \<and> (\<forall>env tid l p'. p_loops p l = None \<longrightarrow> EventLoop_construct os env tid l p = Inr p' \<longrightarrow>
         GetEventLoopOfCurrentThread tid p = None \<and> GetEventLoopOfCurrentThread tid p' = Some l)
    \<and> (\<forall>tid l lo. p_loops p l = Some lo \<longrightarrow>
         (if IsInLoopThread tid lo
          then \<exists>p'. EventLoop_destroy os tid l p = Inr p' \<and> GetEventLoopOfCurrentThread tid p' = None
            \<and> fds (p_kernel p') = fds (p_kernel p) - lo_own lo
          else EventLoop_destroy os tid l p = Inl (LogFatal ''EventLoop::AbortNotInLoopThread''))))"
proof (cases m)
  case (Inl e)
  then show ?thesis using reg_run_inv [OF assms(2,1)] by auto
next
  case (Inr r)
  obtain p held where r: "r = (p, held)" by (cases r)
  then have inv: "reg_inv fds (p, held)" using reg_run_inv [OF assms(2,1)] Inr by simp
  have slots: "GetEventLoopOfCurrentThread tid p = Some l \<longleftrightarrow> (\<exists>lo. p_loops p l = Some lo \<and> IsInLoopThread tid lo)" for tid l
    using inv by (simp add: reg_inv_def slots_exact_def GetEventLoopOfCurrentThread_def IsInLoopThread_def)
  have fds: "fds (p_kernel p) = held \<union> (\<Union>lo \<in> ran (p_loops p). lo_own lo)" "held \<inter> (\<Union>lo \<in> ran (p_loops p). lo_own lo) = {}"
    using inv by (auto simp: reg_inv_def owned_def)
  have make: "GetEventLoopOfCurrentThread tid p = None \<and> GetEventLoopOfCurrentThread tid p' = Some l"
    if "p_loops p l = None" "EventLoop_construct os env tid l p = Inr p'" for env tid l p'
    using construct_inv [OF assms(1) inv that(1), of tid env] that(2) by (simp add: GetEventLoopOfCurrentThread_def)
  have gone: "if IsInLoopThread tid lo
          then \<exists>p'. EventLoop_destroy os tid l p = Inr p' \<and> GetEventLoopOfCurrentThread tid p' = None
            \<and> fds (p_kernel p') = fds (p_kernel p) - lo_own lo
          else EventLoop_destroy os tid l p = Inl (LogFatal ''EventLoop::AbortNotInLoopThread'')"
    if "p_loops p l = Some lo" for tid l lo
    using destroy_inv [OF assms(1) inv that, of tid] by (auto simp: IsInLoopThread_def GetEventLoopOfCurrentThread_def)
  show ?thesis unfolding Inr r using slots fds make gone
    by (intro disjI2 exI [of _ p] exI [of _ held] conjI allI impI) (simp_all only: refl)
qed

text \<open>A system that hands out the smallest free descriptor.\<close>

definition small_open :: "int list \<Rightarrow> int \<times> int list" where
  "small_open k = (let fd = (if k = [] then 3 else Max (set k) + 1) in if fd < 0 then (-1, k) else (fd, fd # k))"

definition small_loop_system :: "int list loop_api" where
  "small_loop_system = \<lparr>sys_epoll_create1 = small_open, sys_timerfd_create = small_open, sys_eventfd = small_open,
     sys_close_fd = (\<lambda>fd k. filter (\<lambda>n. n \<noteq> fd) k)\<rparr>"

lemma small_open_opens: "opens set (fst (small_open k)) k (snd (small_open k))"
proof (cases k)
  case (Cons a as)
  have "Max (set k) + 1 \<notin> set k" using Max_ge [of "set k" "Max (set k) + 1"] by auto
  then show ?thesis using Cons by (simp add: small_open_def opens_def Let_def)
qed (simp add: small_open_def opens_def)

lemma small_loop_law: "loop_law small_loop_system set"
  by (auto simp: loop_law_def small_loop_system_def small_open_opens)

theorem One_loop_per_thread_witness:
  "loop_law small_loop_system set \<and> (\<exists>p held. reg_run small_loop_system set (Inr (p, held))
    \<and> GetEventLoopOfCurrentThread 7 p = Some 1 \<and> set (p_kernel p) = {3, 4, 5} \<and> held = {}
    \<and> EventLoop_destroy small_loop_system 8 1 p = Inl (LogFatal ''EventLoop::AbortNotInLoopThread''))"
proof -
  let ?p0 = "\<lparr>t_loop_in_thread = Map.empty, p_loops = Map.empty, p_kernel = []\<rparr> :: int list process"
  have r0: "reg_run small_loop_system set (Inr (?p0, {}))" using reg_run.reg_begin [of _ set "[]"] by simp
  obtain p lo where p: "EventLoop_construct small_loop_system None 7 1 ?p0 = Inr p" "p_kernel p = [5, 4, 3]"
    "p_loops p 1 = Some lo" "lo_thread lo = 7"
    by (simp add: EventLoop_construct_def NewDefaultPoller_def Poller_open_def EPollPoller_open_def CreateTimerfd_def
        CreateEventfd_def small_loop_system_def small_open_def Let_def)
  have r1: "reg_run small_loop_system set (Inr (p, {}))"
    using reg_run.reg_construct [OF r0, of 1 None 7] p(1) by simp
  from One_loop_per_thread [OF small_loop_law r1] p(3,4)
  have "GetEventLoopOfCurrentThread 7 p = Some 1
      \<and> EventLoop_destroy small_loop_system 8 1 p = Inl (LogFatal ''EventLoop::AbortNotInLoopThread'')"
    by (auto simp: IsInLoopThread_def split: if_splits)
  with r1 p(2) small_loop_law show ?thesis by (intro conjI exI [of _ p] exI [of _ "{}"]) auto
qed

end
