(* ===== verification/Acceptor.thy ===== *)
theory Acceptor
  imports Sockets Event_Loop
begin

text \<open>
  \<^verbatim>\<open>muduo-cpp11/net/acceptor.h\<close>/\<^verbatim>\<open>.cpp\<close>: the listening socket, its channel, and the reserve descriptor that is
  given up for a moment when the process has run out of descriptors. The effect of the channel's
  operations on the poller is the subject of the poller theories.

  Shown: between construction and destruction the acceptor owns exactly its socket and the
  reserve, never closes a descriptor of somebody else, and gives everything back.
\<close>

section \<open>Acceptor\<close>

record acceptor =
  ac_sockfd :: int
  ac_channel :: channel
  ac_has_callback :: bool
  ac_listenning :: bool
  ac_idle_fd :: int

definition Acceptor_new :: "'k socket_api \<Rightarrow> sockaddr_in \<Rightarrow> bool \<Rightarrow> 'k \<Rightarrow> (acceptor \<times> 'k) outcome" where
  "Acceptor_new os listen_addr reuseport k =
     and_then (CreateNonblockingOrDie os k) (\<lambda>(sockfd, k1).
       let (idle_fd, k2) = sys_open_null os k1 in
       if idle_fd < 0 then Inl (LogFatal ''Failed to check idle_fd_'')
       else
         let k3 = set_reuseaddr os sockfd True k2;
             k4 = set_reuseport os sockfd reuseport k3
         in and_then (BindAddress os sockfd listen_addr k4) (\<lambda>k5.
              Inr (\<lparr>ac_sockfd = sockfd, ac_channel = Channel_new sockfd, ac_has_callback = False, ac_listenning = False,
                    ac_idle_fd = idle_fd\<rparr>, k5)))"

definition set_new_connection_callback :: "acceptor \<Rightarrow> acceptor" where
  "set_new_connection_callback a = a\<lparr>ac_has_callback := True\<rparr>"

definition Acceptor_Listen :: "'k socket_api \<Rightarrow> bool \<Rightarrow> acceptor \<Rightarrow> 'k \<Rightarrow> (acceptor \<times> 'k) outcome" where
  "Acceptor_Listen os in_loop a k =
     AssertInLoopThread in_loop
     (let a1 = a\<lparr>ac_listenning := True\<rparr>
      in and_then (Socket_Listen os (ac_sockfd a1) k) (\<lambda>k'.
           Inr (a1\<lparr>ac_channel := with_events (\<lambda>ev. ev OR kReadEvent) (ac_channel a1)\<rparr>, k')))"

text \<open>
  The result says which connection is passed to the callback, if any. When descriptors have run out
  the reserve is closed, the connection accepted and closed at once, and the reserve opened again;
  the result of the second \<^verbatim>\<open>accept\<close> goes to \<^verbatim>\<open>close\<close> unchecked.
\<close>

definition Acceptor_HandleRead ::
  "'k socket_api \<Rightarrow> bool \<Rightarrow> acceptor \<Rightarrow> 'k \<Rightarrow> ((int \<times> sockaddr_in) option \<times> acceptor \<times> 'k) outcome" where
  "Acceptor_HandleRead os in_loop a k =
     AssertInLoopThread in_loop
     (and_then (Socket_Accept os (ac_sockfd a) zero_addr k) (\<lambda>(r, peer_addr, k1). case r of
        Inr connfd \<Rightarrow>
          if ac_has_callback a then Inr (Some (connfd, peer_addr), a, k1)
          else Inr (None, a, sockets_Close os connfd k1)
      | Inl err \<Rightarrow>
          if err = EMFILE then
            let k2 = snd (sys_close os (ac_idle_fd a) k1);
                (r2, k3) = sys_accept os (ac_sockfd a) k2;
                k4 = snd (sys_close os (case r2 of Inr (fd, _) \<Rightarrow> fd | Inl _ \<Rightarrow> -1) k3);
                (fd, k5) = sys_open_null os k4
            in Inr (None, a\<lparr>ac_idle_fd := fd\<rparr>, k5)
          else Inr (None, a, k1)))"

text \<open>
  The destructor, then the members: the channel, with its assertions, and the socket. The loop
  has forgotten the channel after \<^verbatim>\<open>Remove\<close>.
\<close>

definition Acceptor_destroy :: "'k socket_api \<Rightarrow> bool \<Rightarrow> acceptor \<Rightarrow> 'k \<Rightarrow> 'k outcome" where
  "Acceptor_destroy os in_loop a k =
     AssertInLoopThread in_loop
     (let ch = with_events (\<lambda>_. kNoneEvent) (ac_channel a)
      in asserting (IsNoneEvent ch) ''IsNoneEvent()''
         (let ch1 = ch\<lparr>added_to_loop := False\<rparr>;
              k1 = snd (sys_close os (ac_idle_fd a) k)
          in and_then (Channel_destroy in_loop False ch1) (\<lambda>_. Inr (Socket_destroy os (ac_sockfd a) k1))))"

section \<open>Descriptors\<close>

text \<open>
  A run of an acceptor among other users of descriptors: \<open>held\<close> is what the rest of the program holds.
  A connection passed to the callback belongs to the rest, which may close what it holds and
  open more at any time.
\<close>

definition ac_own :: "acceptor \<Rightarrow> int set" where
  "ac_own a = insert (ac_sockfd a) (if ac_idle_fd a < 0 then {} else {ac_idle_fd a})"

inductive ac_run :: "'k socket_api \<Rightarrow> ('k \<Rightarrow> int set) \<Rightarrow> (acceptor \<times> 'k \<times> int set) outcome \<Rightarrow> bool" for os fds where
  ac_begin: "ac_run os fds (and_then (Acceptor_new os addr reuseport k) (\<lambda>(a, k'). Inr (a, k', fds k)))"
| ac_callback: "ac_run os fds (Inr (a, k, held)) \<Longrightarrow> ac_run os fds (Inr (set_new_connection_callback a, k, held))"
| ac_listen: "ac_run os fds (Inr (a, k, held)) \<Longrightarrow>
    ac_run os fds (and_then (Acceptor_Listen os True a k) (\<lambda>(a', k'). Inr (a', k', held)))"
| ac_read: "ac_run os fds (Inr (a, k, held)) \<Longrightarrow>
    ac_run os fds (and_then (Acceptor_HandleRead os True a k)
      (\<lambda>(conn, a', k'). Inr (a', k', case conn of None \<Rightarrow> held | Some (fd, _) \<Rightarrow> insert fd held)))"
| others_close: "ac_run os fds (Inr (a, k, held)) \<Longrightarrow> fd \<in> held \<Longrightarrow> ac_run os fds (Inr (a, snd (sys_close os fd k), held - {fd}))"
| others_open: "ac_run os fds (Inr (a, k, held)) \<Longrightarrow> opens fds fd k k' \<Longrightarrow> 0 \<le> fd \<Longrightarrow> ac_run os fds (Inr (a, k', insert fd held))"

definition ac_inv :: "('k \<Rightarrow> int set) \<Rightarrow> acceptor \<times> 'k \<times> int set \<Rightarrow> bool" where
  "ac_inv fds = (\<lambda>(a, k, held). 0 \<le> ac_sockfd a \<and> ac_sockfd a \<noteq> ac_idle_fd a \<and> ac_own a \<inter> held = {}
     \<and> fds k = ac_own a \<union> held \<and> \<not> event_handling (ac_channel a))"

definition only_fatal :: "('x \<Rightarrow> bool) \<Rightarrow> 'x outcome \<Rightarrow> bool" where
  "only_fatal P r = (case r of Inl e \<Rightarrow> (\<exists>msg. e = LogFatal msg) | Inr x \<Rightarrow> P x)"

lemma only_fatal_simps [simp]:
  "only_fatal P (Inr x) \<longleftrightarrow> P x" "only_fatal P (Inl e) \<longleftrightarrow> (\<exists>msg. e = LogFatal msg)"
  by (simp_all add: only_fatal_def)

lemma Acceptor_new_inv:
  assumes law: "os_law os fds"
  shows "only_fatal (\<lambda>(a, k'). ac_inv fds (a, k', fds k)) (Acceptor_new os addr reuseport k)"
proof (cases "CreateNonblockingOrDie os k")
  case (Inl e)
  then show ?thesis by (auto simp: Acceptor_new_def CreateNonblockingOrDie_def split: prod.splits if_splits)
next
  case (Inr r)
  obtain sockfd k1 where s: "CreateNonblockingOrDie os k = Inr (sockfd, k1)" using Inr by (cases r) simp
  then have sock: "0 \<le> sockfd" "sockfd \<notin> fds k" "fds k1 = insert sockfd (fds k)"
    using os_lawD(2) [OF law, of k sockfd k1]
    by (auto simp: CreateNonblockingOrDie_def opens_def split: prod.splits if_splits)
  obtain idle k2 where i: "sys_open_null os k1 = (idle, k2)" by (cases "sys_open_null os k1")
  let ?k4 = "set_reuseport os sockfd reuseport (set_reuseaddr os sockfd True k2)"
  have k4: "fds ?k4 = fds k2" by (simp add: set_reuseport_def set_reuseaddr_def os_law_fds [OF law])
  show ?thesis
  proof (cases "idle < 0")
    case True
    then show ?thesis using s i by (simp add: Acceptor_new_def)
  next
    case False
    then have idle: "idle \<notin> fds k1" "fds k2 = insert idle (fds k1)" using os_lawD(3) [OF law i] by (simp_all add: opens_def)
    show ?thesis
    proof (cases "BindAddress os sockfd addr ?k4")
      case (Inl e)
      then show ?thesis using s i False
        by (auto simp: Acceptor_new_def BindAddress_def BindOrDie_def Let_def split: prod.splits if_splits)
    next
      case (Inr k5)
      then have "fds k5 = fds ?k4" using BindOrDie_fds [OF law] by (simp add: BindAddress_def)
      then show ?thesis using s i False Inr sock idle k4
        by (auto simp: Acceptor_new_def ac_inv_def ac_own_def Channel_new_def)
    qed
  qed
qed

lemma ac_own_update [simp]:
  "ac_own (a\<lparr>ac_channel := c\<rparr>) = ac_own a" "ac_own (a\<lparr>ac_listenning := b\<rparr>) = ac_own a" "ac_own (a\<lparr>ac_has_callback := b\<rparr>) = ac_own a"
  by (simp_all add: ac_own_def)

lemma own_bounds: "os_law os fds \<Longrightarrow> ac_inv fds (a, k, held) \<Longrightarrow> fd \<in> held \<Longrightarrow> 0 \<le> fd \<and> fd \<notin> ac_own a"
  using os_lawD(1) [of os fds fd k] by (auto simp: ac_inv_def)

text \<open>The detour through the reserve: afterwards only the reserve's number may have changed.\<close>

lemma reserve_detour:
  assumes law: "os_law os fds" and inv: "ac_inv fds (a, k, held)"
    and acc: "sys_accept os (ac_sockfd a) (snd (sys_close os (ac_idle_fd a) k)) = (r, k3)"
    and op: "sys_open_null os (snd (sys_close os (case r of Inr (fd, _) \<Rightarrow> fd | Inl _ \<Rightarrow> -1) k3)) = (fd, k5)"
  shows "ac_inv fds (a\<lparr>ac_idle_fd := fd\<rparr>, k5, held)"
proof -
  note cl = os_law_fds(1) [OF law, unfolded sockets_Close_def]
  have held: "\<forall>x \<in> held. 0 \<le> x" and sock: "0 \<le> ac_sockfd a" using own_bounds [OF law inv] inv by (auto simp: ac_inv_def)
  have k2: "fds (snd (sys_close os (ac_idle_fd a) k)) = insert (ac_sockfd a) held"
    using inv held by (auto simp: cl ac_inv_def ac_own_def split: if_splits)
  have k4: "fds (snd (sys_close os (case r of Inr (fd, _) \<Rightarrow> fd | Inl _ \<Rightarrow> -1) k3)) = insert (ac_sockfd a) held"
  proof (cases r)
    case (Inl e)
    then have "fds k3 = insert (ac_sockfd a) held" using os_lawD(4) [OF law acc [unfolded Inl]] k2 by simp
    then show ?thesis using Inl held sock by (auto simp: cl)
  next
    case (Inr c)
    obtain connfd addr where c: "c = (connfd, addr)" by (cases c)
    then have "connfd \<notin> insert (ac_sockfd a) held" "fds k3 = insert connfd (insert (ac_sockfd a) held)"
      using os_lawD(5) [OF law acc [unfolded Inr c]] k2 by simp_all
    then show ?thesis using Inr c by (auto simp: cl)
  qed
  from os_lawD(3) [OF law op] have k5: "if fd < 0 then fds k5 = insert (ac_sockfd a) held
      else fd \<notin> insert (ac_sockfd a) held \<and> fds k5 = insert fd (insert (ac_sockfd a) held)"
    unfolding opens_def k4 .
  have "ac_sockfd a \<notin> held" "\<not> event_handling (ac_channel a)" using inv by (auto simp: ac_inv_def ac_own_def)
  with k5 sock show ?thesis by (cases "fd < 0") (auto simp: ac_inv_def ac_own_def)
qed

lemma HandleRead_inv:
  assumes law: "os_law os fds" and inv: "ac_inv fds (a, k, held)"
  shows "only_fatal (\<lambda>(conn, a', k'). ac_inv fds (a', k', case conn of None \<Rightarrow> held | Some (fd, _) \<Rightarrow> insert fd held))
    (Acceptor_HandleRead os True a k)"
proof (cases "sys_accept os (ac_sockfd a) k")
  case (Pair r k1)
  show ?thesis
  proof (cases r)
    case (Inr c)
    obtain connfd addr where c: "c = (connfd, addr)" by (cases c)
    from os_lawD(5) [OF law, of "ac_sockfd a" k connfd addr k1] Pair Inr c
    have new: "connfd \<notin> fds k" "fds k1 = insert connfd (fds k)" by simp_all
    show ?thesis using Pair Inr c new inv
      by (auto simp: Acceptor_HandleRead_def AssertInLoopThread_def Socket_Accept_def sockets_Accept_def ac_inv_def
          os_law_fds [OF law])
  next
    case (Inl err)
    have k1: "fds k1 = fds k" using os_lawD(4) [OF law, of "ac_sockfd a" k err k1] Pair Inl by simp
    then have inv1: "ac_inv fds (a, k1, held)" using inv by (simp add: ac_inv_def)
    show ?thesis
    proof (cases "err = EMFILE")
      case True
      obtain r2 k3 where acc: "sys_accept os (ac_sockfd a) (snd (sys_close os (ac_idle_fd a) k1)) = (r2, k3)"
        by (cases "sys_accept os (ac_sockfd a) (snd (sys_close os (ac_idle_fd a) k1))")
      obtain fd k5 where op: "sys_open_null os (snd (sys_close os (case r2 of Inr (fd, _) \<Rightarrow> fd | Inl _ \<Rightarrow> -1) k3)) = (fd, k5)"
        by (cases "sys_open_null os (snd (sys_close os (case r2 of Inr (fd, _) \<Rightarrow> fd | Inl _ \<Rightarrow> -1) k3))")
      from reserve_detour [OF law inv1 acc op] True Pair Inl acc op show ?thesis
        by (simp add: Acceptor_HandleRead_def AssertInLoopThread_def Socket_Accept_def sockets_Accept_def expected_accept_errnos_def)
    next
      case False
      then show ?thesis using Pair Inl inv1
        by (auto simp: Acceptor_HandleRead_def AssertInLoopThread_def Socket_Accept_def sockets_Accept_def)
    qed
  qed
qed

lemma Listen_inv:
  assumes law: "os_law os fds" and inv: "ac_inv fds (a, k, held)"
  shows "only_fatal (\<lambda>(a', k'). ac_inv fds (a', k', held)) (Acceptor_Listen os True a k)"
proof (cases "ListenOrDie os (ac_sockfd a) k")
  case (Inl e)
  then show ?thesis
    by (auto simp: Acceptor_Listen_def AssertInLoopThread_def Socket_Listen_def ListenOrDie_def Let_def split: prod.splits if_splits)
next
  case (Inr k')
  then show ?thesis using ListenOrDie_fds [OF law Inr] inv
    by (simp add: Acceptor_Listen_def AssertInLoopThread_def Socket_Listen_def ac_inv_def with_events_def)
qed

lemma only_fatal_and_then: "only_fatal P r \<Longrightarrow> (\<And>x. P x \<Longrightarrow> only_fatal Q (f x)) \<Longrightarrow> only_fatal Q (and_then r f)"
  by (cases r) auto

lemma ac_run_inv: "ac_run os fds r \<Longrightarrow> os_law os fds \<Longrightarrow> only_fatal (ac_inv fds) r"
proof (induction rule: ac_run.induct)
  case (ac_begin addr reuseport k)
  show ?case by (rule only_fatal_and_then [OF Acceptor_new_inv [OF ac_begin]]) auto
next
  case (ac_callback a k held)
  then show ?case by (simp add: ac_inv_def set_new_connection_callback_def)
next
  case (ac_listen a k held)
  then have inv: "ac_inv fds (a, k, held)" by simp
  show ?case by (rule only_fatal_and_then [OF Listen_inv [OF ac_listen(3) inv]]) auto
next
  case (ac_read a k held)
  then have inv: "ac_inv fds (a, k, held)" by simp
  show ?case by (rule only_fatal_and_then [OF HandleRead_inv [OF ac_read(3) inv]]) auto
next
  case (others_close a k held fd)
  then show ?case using os_law_fds(1) [OF others_close(4), unfolded sockets_Close_def] by (auto simp: ac_inv_def)
next
  case (others_open a k held fd k')
  then show ?case by (auto simp: ac_inv_def opens_def)
qed

lemma Acceptor_destroy_inv:
  assumes law: "os_law os fds" and inv: "ac_inv fds (a, k, held)"
  shows "\<exists>k'. Acceptor_destroy os True a k = Inr k' \<and> fds k' = held"
proof -
  note cl = os_law_fds(1) [OF law, unfolded sockets_Close_def]
  have "fds (snd (sys_close os (ac_sockfd a) (snd (sys_close os (ac_idle_fd a) k)))) = (ac_own a \<union> held) - {ac_idle_fd a} - {ac_sockfd a}"
    using inv by (simp add: cl ac_inv_def)
  also have "\<dots> = held - {ac_idle_fd a} - {ac_sockfd a}" by (auto simp: ac_own_def)
  also have "\<dots> = held"
    using own_bounds [OF law inv, of "ac_idle_fd a"] own_bounds [OF law inv, of "ac_sockfd a"] by (auto simp: ac_own_def split: if_splits)
  finally have "fds (snd (sys_close os (ac_sockfd a) (snd (sys_close os (ac_idle_fd a) k)))) = held" .
  then show ?thesis using inv
    by (simp add: Acceptor_destroy_def AssertInLoopThread_def IsNoneEvent_def with_events_def Channel_destroy_def
        Socket_destroy_def sockets_Close_def ac_inv_def)
qed

section \<open>Properties\<close>

text \<open>
  C27. No descriptor is leaked or stolen: whatever the system calls return, an acceptor either ends the program with a
  fatal message or owns exactly its listening socket and, when it could be opened, the reserve; these
  are different from everything the rest of the program holds, including the connections it was
  given. Running out of descriptors does not change that, and after the destructor, which fails
  no assertion, exactly the descriptors of the others are open.
\<close>

theorem Acceptor_keeps_descriptors:
  assumes "os_law os fds" "ac_run os fds r"
  shows "(\<exists>msg. r = Inl (LogFatal msg)) \<or> (\<exists>a k held. r = Inr (a, k, held) \<and> ac_own a \<inter> held = {} \<and> fds k = ac_own a \<union> held
    \<and> (\<exists>k'. Acceptor_destroy os True a k = Inr k' \<and> fds k' = held))"
proof (cases r)
  case (Inl e)
  then show ?thesis using ac_run_inv [OF assms(2,1)] by simp
next
  case (Inr x)
  obtain a k held where x: "x = (a, k, held)" by (cases x)
  have "ac_inv fds (a, k, held)" using ac_run_inv [OF assms(2,1)] Inr x by simp
  with Acceptor_destroy_inv [OF assms(1) this] Inr x show ?thesis by (auto simp: ac_inv_def)
qed

text \<open>A system with at most \<open>n\<close> open descriptors, on which one connection is always waiting.\<close>

definition small_system :: "nat \<Rightarrow> int list socket_api" where
  "small_system n =
     (let new = (\<lambda>k. if length k < n then (fold max k 2 + 1, (fold max k 2 + 1) # k) else (-1, k))
      in \<lparr>sys_socket = new, sys_bind = (\<lambda>fd addr k. (0, k)), sys_listen = (\<lambda>fd k. (0, k)),
          sys_accept = (\<lambda>fd k. case new k of (c, k') \<Rightarrow> if c < 0 then (Inl EMFILE, k') else (Inr (c, zero_addr), k')),
          sys_close = (\<lambda>fd k. (0, filter (\<lambda>x. x \<noteq> fd) k)), sys_shutdown_write = (\<lambda>fd k. (0, k)),
          sys_setsockopt = (\<lambda>fd opt v k. (0, k)), sys_open_null = new, sys_tcp_info = (\<lambda>fd k. None)\<rparr>)"

definition small_fds :: "int list \<Rightarrow> int set" where
  "small_fds k = {fd \<in> set k. 0 \<le> fd}"

lemma fold_max_ge: "fold max k (m :: int) \<ge> m \<and> (\<forall>x \<in> set k. x \<le> fold max k m)"
proof (induction k arbitrary: m)
  case (Cons y k)
  from Cons [of "max y m"] show ?case by auto
qed simp

lemma small_system_law: "os_law (small_system n) small_fds"
proof -
  have "0 \<le> fold max k 2 + (1 :: int) \<and> fold max k 2 + 1 \<notin> set k" for k using fold_max_ge [of 2 k] by force
  then show ?thesis by (auto simp: os_law_def small_system_def small_fds_def opens_def Let_def)
qed

theorem Acceptor_keeps_descriptors_witness:
  "\<exists>a k k'. ac_run (small_system 2) small_fds (Inr (a, k, {})) \<and> ac_own a = {3, 4} \<and> small_fds k = {3, 4}
    \<and> Acceptor_destroy (small_system 2) True a k = Inr k' \<and> small_fds k' = {}"
proof -
  let ?os = "small_system 2"
  define a k where "a = \<lparr>ac_sockfd = 3, ac_channel = Channel_new 3, ac_has_callback = False, ac_listenning = False, ac_idle_fd = 4\<rparr>"
    and "k = [4, 3 :: int]"
  have "Acceptor_new ?os zero_addr False [] = Inr (a, k)"
    by (simp add: Acceptor_new_def CreateNonblockingOrDie_def small_system_def set_reuseaddr_def set_reuseport_def set_option_def
        BindAddress_def BindOrDie_def Let_def a_def k_def)
  then have "ac_run ?os small_fds (Inr (a, k, {}))"
    using ac_run.ac_begin [of ?os small_fds zero_addr False "[]"] by (simp add: small_fds_def)
  moreover have "Acceptor_HandleRead ?os True a k = Inr (None, a, k)"
    by (simp add: Acceptor_HandleRead_def AssertInLoopThread_def Socket_Accept_def sockets_Accept_def small_system_def Let_def a_def k_def
        expected_accept_errnos_def)
  ultimately have r: "ac_run ?os small_fds (Inr (a, k, {}))" using ac_run.ac_read [of ?os small_fds a k "{}"] by simp
  have own: "ac_own a = {3, 4}" by (auto simp: ac_own_def a_def)
  from Acceptor_keeps_descriptors [OF small_system_law r] r own show ?thesis by auto
qed

end
