(* ===== verification/Thread_Pool_Stop.thy ===== *)
theory Thread_Pool_Stop
  imports Thread_Pool
begin

text \<open>
  The end of a thread pool (\<^verbatim>\<open>muduo-cpp11/base/thread_pool.h\<close>/\<^verbatim>\<open>.cpp\<close>): \<^verbatim>\<open>Stop\<close> with its joins, the destructor, the
  initialisation callback and tasks that throw. The pool itself is the record of \<open>Thread_Pool\<close>; added are which
  \<^verbatim>\<open>std::thread\<close>s are still joinable, which workers have yet to run the initialisation callback, and where the owner is.

  Shown: in a program that stops the pool once and destroys it only when nobody is inside \<^verbatim>\<open>Run\<close>, \<^verbatim>\<open>Stop\<close> and the
  destructor return, each worker running at most one more task; and how the pool ends the program otherwise.
\<close>

section \<open>Owner and threads\<close>

datatype pool_owner = Pool_in_use | Pool_joining nat bool | Pool_destroyed

record 'a pool_life =
  pl_pool :: "'a thread_pool"
  pl_joinable :: "bool list"
  pl_init :: "bool list"
  pl_owner :: pool_owner

text \<open>\<^verbatim>\<open>Start\<close>: with no threads the initialisation callback runs in the caller.\<close>

definition Pool_Start :: "bool \<Rightarrow> int \<Rightarrow> 'a pool_life \<Rightarrow> 'a pool_life outcome" where
  "Pool_Start has_init num_threads l =
     and_then (ThreadPool_Start num_threads (pl_pool l)) (\<lambda>p.
       Inr (l\<lparr>pl_pool := p, pl_joinable := replicate (nat num_threads) True,
              pl_init := replicate (nat num_threads) has_init\<rparr>))"

datatype call_end = Call_returns | Call_throws_std_exception | Call_throws_other

text \<open>How \<^verbatim>\<open>RunInThread\<close> takes the end of the initialisation callback and of a task.\<close>

definition RunInThread_called :: "call_end \<Rightarrow> 'l \<Rightarrow> 'l outcome" where
  "RunInThread_called e l = (case e of
       Call_returns \<Rightarrow> Inr l
     | Call_throws_std_exception \<Rightarrow> Inl AbortCalled
     | Call_throws_other \<Rightarrow> Inl StdTerminate)"

definition RunInThread_init :: "nat \<Rightarrow> call_end \<Rightarrow> 'a pool_life \<Rightarrow> 'a pool_life outcome" where
  "RunInThread_init i e l = RunInThread_called e (l\<lparr>pl_init := (pl_init l)[i := False]\<rparr>)"

definition RunInThread_ran :: "nat \<Rightarrow> call_end \<Rightarrow> 'a pool_life \<Rightarrow> 'a pool_life outcome" where
  "RunInThread_ran i e l =
     RunInThread_called e (l\<lparr>pl_pool := (pl_pool l)\<lparr>tp_workers := (tp_workers (pl_pool l))[i := Worker_loop]\<rparr>\<rparr>)"

definition Stop_begin :: "bool \<Rightarrow> 'a pool_life \<Rightarrow> 'a pool_life" where
  "Stop_begin destroying l = l\<lparr>pl_pool := Stop_notify (pl_pool l), pl_owner := Pool_joining 0 destroying\<rparr>"

text \<open>
  The members go: a \<^verbatim>\<open>std::thread\<close> that is still joinable ends the program, and a condition variable
  must not be destroyed while a thread waits on it.
\<close>

definition destroy_members :: "'a pool_life \<Rightarrow> 'a pool_life outcome" where
  "destroy_members l =
     (if True \<in> set (pl_joinable l) then Inl StdTerminate
      else if \<not> set (tp_producers (pl_pool l)) \<subseteq> {Producer_away} then Inl (UndefinedBehaviour ''~ThreadPool() during Run()'')
      else Inr (l\<lparr>pl_owner := Pool_destroyed\<rparr>))"

definition ThreadPool_destroy :: "'a pool_life \<Rightarrow> 'a pool_life outcome" where
  "ThreadPool_destroy l = (if tp_running (pl_pool l) then Inr (Stop_begin True l) else destroy_members l)"

text \<open>One round of the loop over \<^verbatim>\<open>threads_\<close>; a thread that was joined before cannot be joined again.\<close>

definition Stop_join :: "nat \<Rightarrow> bool \<Rightarrow> 'a pool_life \<Rightarrow> 'a pool_life outcome" where
  "Stop_join k destroying l =
     (if k < length (tp_workers (pl_pool l)) then
        if pl_joinable l ! k
        then Inr (l\<lparr>pl_joinable := (pl_joinable l)[k := False], pl_owner := Pool_joining (Suc k) destroying\<rparr>)
        else Inl SystemError
      else if destroying then destroy_members l
      else Inr (l\<lparr>pl_owner := Pool_in_use\<rparr>))"

section \<open>Steps\<close>

text \<open>
  \<open>pl_work\<close>: workers and the owner. In a \<open>disciplined\<close> program the callback and the tasks return, the owner
  stops the pool only while it runs and destroys it only when no caller is inside \<^verbatim>\<open>Run\<close>. \<open>pl_call\<close>: callers of \<^verbatim>\<open>Run\<close>.
  \<^verbatim>\<open>join\<close> waits for the end of the thread.
\<close>

inductive pl_work :: "bool \<Rightarrow> 'a pool_life \<Rightarrow> 'a pool_life outcome \<Rightarrow> bool" for disciplined where
  w_init: "i < length (tp_workers (pl_pool l)) \<Longrightarrow> tp_workers (pl_pool l) ! i = Worker_loop \<Longrightarrow> pl_init l ! i \<Longrightarrow>
    disciplined \<longrightarrow> e = Call_returns \<Longrightarrow> pl_work disciplined l (RunInThread_init i e l)"
| w_check: "i < length (tp_workers (pl_pool l)) \<Longrightarrow> tp_workers (pl_pool l) ! i = Worker_loop \<Longrightarrow> \<not> pl_init l ! i \<Longrightarrow>
    pl_work disciplined l (Inr (l\<lparr>pl_pool := RunInThread_check i (pl_pool l)\<rparr>))"
| w_take: "i < length (tp_workers (pl_pool l)) \<Longrightarrow> tp_workers (pl_pool l) ! i = Worker_take \<Longrightarrow>
    pl_work disciplined l (Inr (l\<lparr>pl_pool := Take_pass choice i (pl_pool l)\<rparr>))"
| w_ran: "i < length (tp_workers (pl_pool l)) \<Longrightarrow> tp_workers (pl_pool l) ! i = Worker_run task \<Longrightarrow>
    disciplined \<longrightarrow> e = Call_returns \<Longrightarrow> pl_work disciplined l (RunInThread_ran i e l)"
| w_spurious: "i < length (tp_workers (pl_pool l)) \<Longrightarrow> tp_workers (pl_pool l) ! i = Worker_waiting \<Longrightarrow>
    pl_work disciplined l (Inr (l\<lparr>pl_pool := (pl_pool l)\<lparr>tp_workers := (tp_workers (pl_pool l))[i := Worker_take]\<rparr>\<rparr>))"
| o_stop: "pl_owner l = Pool_in_use \<Longrightarrow> disciplined \<longrightarrow> tp_running (pl_pool l) \<Longrightarrow>
    pl_work disciplined l (Inr (Stop_begin False l))"
| o_destroy: "pl_owner l = Pool_in_use \<Longrightarrow> disciplined \<longrightarrow> set (tp_producers (pl_pool l)) \<subseteq> {Producer_away} \<Longrightarrow>
    pl_work disciplined l (ThreadPool_destroy l)"
| o_join: "pl_owner l = Pool_joining k d \<Longrightarrow>
    k < length (tp_workers (pl_pool l)) \<longrightarrow> tp_workers (pl_pool l) ! k = Worker_done \<Longrightarrow>
    pl_work disciplined l (Stop_join k d l)"

inductive pl_call :: "'a pool_life \<Rightarrow> 'a pool_life outcome \<Rightarrow> bool" where
  c_call: "i < length (tp_producers (pl_pool l)) \<Longrightarrow> tp_producers (pl_pool l) ! i = Producer_away \<Longrightarrow>
    pl_owner l = Pool_in_use \<Longrightarrow> tp_running (pl_pool l) \<Longrightarrow>
    pl_call l (and_then (Run_enter i task (pl_pool l)) (\<lambda>p. Inr (l\<lparr>pl_pool := p\<rparr>)))"
| c_check: "i < length (tp_producers (pl_pool l)) \<Longrightarrow> tp_producers (pl_pool l) ! i = Producer_checking task \<Longrightarrow>
    pl_call l (and_then (Run_check choice i task (pl_pool l)) (\<lambda>p. Inr (l\<lparr>pl_pool := p\<rparr>)))"
| c_spurious: "i < length (tp_producers (pl_pool l)) \<Longrightarrow> tp_producers (pl_pool l) ! i = Producer_waiting task \<Longrightarrow>
    pl_call l (Inr (l\<lparr>pl_pool := (pl_pool l)\<lparr>tp_producers := (tp_producers (pl_pool l))[i := Producer_checking task]\<rparr>\<rparr>))"

inductive pl_run :: "bool \<Rightarrow> 'a pool_life outcome \<Rightarrow> bool" for disciplined where
  pl_begin: "0 \<le> n \<Longrightarrow> 0 < max_size \<Longrightarrow> max_size < 2 ^ 31 \<Longrightarrow>
    pl_run disciplined (Pool_Start has_init n
      \<lparr>pl_pool = set_max_queue_size max_size (ThreadPool_new callers), pl_joinable = [], pl_init = [], pl_owner = Pool_in_use\<rparr>)"
| pl_works: "pl_run disciplined (Inr l) \<Longrightarrow> pl_work disciplined l r \<Longrightarrow> pl_run disciplined r"
| pl_calls: "pl_run disciplined (Inr l) \<Longrightarrow> pl_call l r \<Longrightarrow> pl_run disciplined r"

lemmas life_defs = Pool_Start_def RunInThread_called_def RunInThread_init_def RunInThread_ran_def Stop_begin_def
  destroy_members_def ThreadPool_destroy_def Stop_join_def

section \<open>Invariant\<close>

definition all_away :: "'a pool_life \<Rightarrow> bool" where
  "all_away l \<longleftrightarrow> set (tp_producers (pl_pool l)) \<subseteq> {Producer_away}"

text \<open>The first \<open>k\<close> threads have ended and been joined, the others have not been joined.\<close>

definition joined_upto :: "nat \<Rightarrow> 'a pool_life \<Rightarrow> bool" where
  "joined_upto k l \<longleftrightarrow> k \<le> length (tp_workers (pl_pool l))
     \<and> (\<forall>i < length (tp_workers (pl_pool l)). (pl_joinable l ! i \<longleftrightarrow> k \<le> i)
         \<and> (i < k \<longrightarrow> tp_workers (pl_pool l) ! i = Worker_done))"

definition pl_inv :: "'a pool_life \<Rightarrow> bool" where
  "pl_inv l \<longleftrightarrow> length (pl_joinable l) = length (tp_workers (pl_pool l)) \<and> length (pl_init l) = length (tp_workers (pl_pool l))
     \<and> (\<not> tp_running (pl_pool l) \<longrightarrow> Worker_waiting \<notin> set (tp_workers (pl_pool l)))
     \<and> (case pl_owner l of
          Pool_in_use \<Rightarrow> joined_upto (if tp_running (pl_pool l) then 0 else length (tp_workers (pl_pool l))) l
        | Pool_joining k d \<Rightarrow> \<not> tp_running (pl_pool l) \<and> joined_upto k l \<and> (d \<longrightarrow> all_away l)
        | Pool_destroyed \<Rightarrow> \<not> tp_running (pl_pool l) \<and> joined_upto (length (tp_workers (pl_pool l))) l \<and> all_away l)"

lemma pl_invD:
  assumes "pl_inv l"
  shows "length (pl_joinable l) = length (tp_workers (pl_pool l))" "length (pl_init l) = length (tp_workers (pl_pool l))"
    "\<not> tp_running (pl_pool l) \<Longrightarrow> Worker_waiting \<notin> set (tp_workers (pl_pool l))"
    "pl_owner l = Pool_in_use \<Longrightarrow> joined_upto (if tp_running (pl_pool l) then 0 else length (tp_workers (pl_pool l))) l"
    "pl_owner l = Pool_joining k d \<Longrightarrow> \<not> tp_running (pl_pool l) \<and> joined_upto k l \<and> (d \<longrightarrow> all_away l)"
    "pl_owner l = Pool_destroyed \<Longrightarrow> \<not> tp_running (pl_pool l) \<and> joined_upto (length (tp_workers (pl_pool l))) l \<and> all_away l"
  using assms by (simp_all add: pl_inv_def)

text \<open>A worker that has not ended moves on; it parks only while the pool runs.\<close>

lemma worker_move_joined:
  assumes "joined_upto k l" "tp_workers p = (tp_workers (pl_pool l))[i := w]" "i < length (tp_workers (pl_pool l))"
    and "tp_workers (pl_pool l) ! i \<noteq> Worker_done"
  shows "joined_upto k (l\<lparr>pl_pool := p\<rparr>)"
  using assms by (auto simp: joined_upto_def nth_list_update)

lemma worker_move:
  assumes inv: "pl_inv l" and p: "tp_workers p = (tp_workers (pl_pool l))[i := w]" "tp_running p = tp_running (pl_pool l)"
    and away: "all_away l \<Longrightarrow> set (tp_producers p) \<subseteq> {Producer_away}"
    and i: "i < length (tp_workers (pl_pool l))" "tp_workers (pl_pool l) ! i \<noteq> Worker_done"
    and w: "w = Worker_waiting \<Longrightarrow> tp_running p"
  shows "pl_inv (l\<lparr>pl_pool := p\<rparr>)"
proof -
  note j = worker_move_joined [OF _ p(1) i]
  have "\<not> tp_running p \<Longrightarrow> Worker_waiting \<notin> set (tp_workers p)"
    using pl_invD(3) [OF inv] p w set_update_subset_insert [of "tp_workers (pl_pool l)" i w] by auto
  with inv away p j show ?thesis by (cases "pl_owner l") (auto simp: pl_inv_def all_away_def)
qed

lemma same_workers:
  assumes "pl_inv l" "tp_workers p = tp_workers (pl_pool l)" "tp_running p = tp_running (pl_pool l)"
    and "all_away l \<Longrightarrow> set (tp_producers p) \<subseteq> {Producer_away}"
  shows "pl_inv (l\<lparr>pl_pool := p\<rparr>)"
  using assms by (cases "pl_owner l") (auto simp: pl_inv_def all_away_def joined_upto_def)

lemma away_notify: "set ps \<subseteq> {Producer_away} \<Longrightarrow> notify_one producer_parked producer_wake c ps = ps"
  by (rule notify_one_cases [of producer_parked ps producer_wake c]) (auto dest: nth_mem)

lemma Take_pass_life:
  assumes "pl_inv l" "i < length (tp_workers (pl_pool l))" "tp_workers (pl_pool l) ! i = Worker_take"
  shows "pl_inv (l\<lparr>pl_pool := Take_pass c i (pl_pool l)\<rparr>)"
  using assms away_notify [of "tp_producers (pl_pool l)" c]
  by (intro worker_move [where i = i and w = "if tp_queue (pl_pool l) = [] \<and> tp_running (pl_pool l) then Worker_waiting
        else if tp_queue (pl_pool l) \<noteq> [] then Worker_run (hd (tp_queue (pl_pool l))) else Worker_loop"])
    (auto simp: Take_pass_def all_away_def split: if_splits)

lemma call_life:
  assumes "pl_call l r" "pl_inv l"
  shows "\<exists>l'. r = Inr l' \<and> pl_inv l'"
  using assms
proof (cases rule: pl_call.cases)
  case (c_call i task)
  have "pl_inv (l\<lparr>pl_pool := (pl_pool l)\<lparr>tp_accepted := a, tp_taken := t\<rparr>\<rparr>)" for a t
    using assms(2) by (intro same_workers) (auto simp: all_away_def)
  moreover have "pl_inv (l\<lparr>pl_pool := (pl_pool l)\<lparr>tp_producers := (tp_producers (pl_pool l))[i := Producer_checking task]\<rparr>\<rparr>)"
    using assms(2) c_call by (auto simp: pl_inv_def joined_upto_def)
  ultimately show ?thesis using c_call by (simp add: Run_enter_def)
next
  case (c_check i task c)
  let ?p = "pl_pool l"
  have not_away: "\<not> all_away l" using c_check(2,3) nth_mem [of i "tp_producers ?p"] by (auto simp: all_away_def)
  show ?thesis
  proof (cases "IsFull ?p")
    case True
    have "pl_inv (l\<lparr>pl_pool := ?p\<lparr>tp_producers := (tp_producers ?p)[i := Producer_waiting task]\<rparr>\<rparr>)"
      using assms(2) not_away by (intro same_workers) auto
    then show ?thesis using c_check(1) True by (simp add: Run_check_def)
  next
    case False
    let ?p' = "?p\<lparr>tp_queue := tp_queue ?p @ [task], tp_accepted := tp_accepted ?p @ [task],
                tp_workers := notify_one worker_parked (\<lambda>_. Worker_take) c (tp_workers ?p),
                tp_producers := (tp_producers ?p)[i := Producer_away]\<rparr>"
    have "pl_inv (l\<lparr>pl_pool := ?p'\<rparr>)"
    proof (rule notify_one_cases [of worker_parked "tp_workers ?p" "\<lambda>_. Worker_take" c])
      assume "notify_one worker_parked (\<lambda>_. Worker_take) c (tp_workers ?p) = tp_workers ?p"
      then show ?thesis using assms(2) not_away by (intro same_workers) auto
    next
      fix j assume j: "j < length (tp_workers ?p)" "tp_workers ?p ! j = Worker_waiting"
        "notify_one worker_parked (\<lambda>_. Worker_take) c (tp_workers ?p) = (tp_workers ?p)[j := Worker_take]"
      then show ?thesis using assms(2) not_away by (intro worker_move [where i = j and w = Worker_take]) auto
    qed
    then show ?thesis using c_check(1) False by (simp add: Run_check_def)
  qed
next
  case (c_spurious i task)
  have "\<not> all_away l" using c_spurious(2,3) nth_mem [of i "tp_producers (pl_pool l)"] by (auto simp: all_away_def)
  then show ?thesis using c_spurious(1) assms(2) by (auto intro!: same_workers)
qed

lemma joined_all: "joined_upto (length (tp_workers (pl_pool l))) l \<Longrightarrow> pl_inv l \<Longrightarrow> True \<notin> set (pl_joinable l)"
  by (auto simp: joined_upto_def pl_inv_def in_set_conv_nth)

lemma Stop_begin_life:
  assumes "pl_inv l" "pl_owner l = Pool_in_use" "tp_running (pl_pool l)" "d \<longrightarrow> all_away l"
  shows "pl_inv (Stop_begin d l)"
proof -
  let ?ws = "tp_workers (pl_pool l)"
  have "\<forall>i < length ?ws. pl_joinable l ! i" using pl_invD(4) [OF assms(1,2)] assms(3) by (simp add: joined_upto_def)
  moreover have "Worker_waiting \<notin> set (notify_all worker_parked (\<lambda>_. Worker_take) ?ws)"
    "length (notify_all worker_parked (\<lambda>_. Worker_take) ?ws) = length ?ws" by (auto simp: notify_all_def)
  ultimately show ?thesis using assms pl_invD(1,2) [OF assms(1)]
    by (auto simp: pl_inv_def Stop_begin_def Stop_notify_def joined_upto_def all_away_def)
qed

lemma destroy_members_life:
  assumes "pl_inv l" "\<not> tp_running (pl_pool l)" "joined_upto (length (tp_workers (pl_pool l))) l" "all_away l"
  shows "\<exists>l'. destroy_members l = Inr l' \<and> pl_inv l'"
  using assms joined_all [OF assms(3,1)] by (auto simp: destroy_members_def all_away_def pl_inv_def joined_upto_def)

lemma Stop_join_life:
  assumes "pl_inv l" "pl_owner l = Pool_joining k d"
    and "k < length (tp_workers (pl_pool l)) \<longrightarrow> tp_workers (pl_pool l) ! k = Worker_done"
  shows "\<exists>l'. Stop_join k d l = Inr l' \<and> pl_inv l'"
proof -
  have j: "\<not> tp_running (pl_pool l)" "joined_upto k l" "d \<longrightarrow> all_away l" using pl_invD(5) [OF assms(1,2)] by auto
  show ?thesis
  proof (cases "k < length (tp_workers (pl_pool l))")
    case True
    then show ?thesis using j assms pl_invD(1,2,3) [OF assms(1)]
      by (auto simp: Stop_join_def pl_inv_def joined_upto_def all_away_def nth_list_update less_Suc_eq)
  next
    case False
    then have "k = length (tp_workers (pl_pool l))" using j(2) by (simp add: joined_upto_def)
    then show ?thesis using j assms(1) destroy_members_life [OF assms(1) j(1)]
      by (cases d) (auto simp: Stop_join_def pl_inv_def joined_upto_def)
  qed
qed

lemma work_life:
  assumes "pl_work True l r" "pl_inv l"
  shows "\<exists>l'. r = Inr l' \<and> pl_inv l'"
  using assms
proof (cases rule: pl_work.cases)
  case (w_init i e)
  then show ?thesis using assms(2) by (auto simp: life_defs pl_inv_def joined_upto_def all_away_def split: pool_owner.split)
next
  case (w_check i)
  then show ?thesis using assms(2)
    by (auto intro!: worker_move [where i = i] simp: RunInThread_check_def all_away_def)
next
  case (w_take i c)
  then show ?thesis using Take_pass_life [OF assms(2)] by simp
next
  case (w_ran i task e)
  then have "pl_inv (l\<lparr>pl_pool := (pl_pool l)\<lparr>tp_workers := (tp_workers (pl_pool l))[i := Worker_loop]\<rparr>\<rparr>)"
    using assms(2) by (intro worker_move [where i = i and w = Worker_loop]) (auto simp: all_away_def)
  then show ?thesis using w_ran by (simp add: life_defs)
next
  case (w_spurious i)
  then have "pl_inv (l\<lparr>pl_pool := (pl_pool l)\<lparr>tp_workers := (tp_workers (pl_pool l))[i := Worker_take]\<rparr>\<rparr>)"
    using assms(2) by (intro worker_move [where i = i and w = Worker_take]) (auto simp: all_away_def)
  then show ?thesis using w_spurious by simp
next
  case o_stop
  then show ?thesis using Stop_begin_life [OF assms(2)] by simp
next
  case o_destroy
  then show ?thesis
    using Stop_begin_life [OF assms(2), of True] destroy_members_life [OF assms(2)] pl_invD(4) [OF assms(2)]
    by (auto simp: ThreadPool_destroy_def all_away_def)
next
  case (o_join k d)
  then show ?thesis using Stop_join_life [OF assms(2)] by simp
qed

lemma pl_run_inv: "pl_run True r \<Longrightarrow> \<exists>l. r = Inr l \<and> pl_inv l"
proof (induction rule: pl_run.induct)
  case (pl_begin n max_size has_init callers)
  then have "size_of_int max_size = nat max_size" by (simp add: size_of_int_def)
  then show ?case using pl_begin
    by (simp add: Pool_Start_def ThreadPool_Start_def set_max_queue_size_def ThreadPool_new_def pl_inv_def joined_upto_def)
next
  case (pl_works l r)
  then show ?case using work_life by blast
next
  case (pl_calls l r)
  then show ?case using call_life by blast
qed

section \<open>Progress\<close>

fun worker_rank :: "'a worker \<Rightarrow> nat" where
  "worker_rank Worker_done = 0"
| "worker_rank Worker_loop = 1"
| "worker_rank (Worker_run _) = 2"
| "worker_rank Worker_take = 3"
| "worker_rank Worker_waiting = 4"

definition pl_rank :: "'a pool_life \<Rightarrow> nat" where
  "pl_rank l = sum_list (map worker_rank (tp_workers (pl_pool l))) + length (filter id (pl_init l))
     + (case pl_owner l of Pool_joining k d \<Rightarrow> Suc (length (tp_workers (pl_pool l))) - k | _ \<Rightarrow> 0)"

lemma rank_update:
  assumes "i < length ws" "worker_rank w < worker_rank (ws ! i)"
  shows "sum_list (map worker_rank (ws[i := w])) < sum_list (map worker_rank ws)"
proof -
  have "worker_rank (ws ! i) \<le> sum_list (map worker_rank ws)"
    using assms(1) by (metis elem_le_sum_list length_map nth_map)
  then show ?thesis using assms by (simp add: map_update sum_list_update)
qed

lemma filter_update_less: "i < length bs \<Longrightarrow> bs ! i \<Longrightarrow> length (filter id (bs[i := False])) < length (filter id bs)"
proof (induction bs arbitrary: i)
  case (Cons b bs)
  then show ?case by (cases i) auto
qed simp

lemma rank_worker_move:
  assumes "tp_workers p = (tp_workers (pl_pool l))[i := w]" "i < length (tp_workers (pl_pool l))"
    and "worker_rank w < worker_rank (tp_workers (pl_pool l) ! i)"
  shows "pl_rank (l\<lparr>pl_pool := p\<rparr>) < pl_rank l"
  using rank_update [OF assms(2,3)] assms(1) by (simp add: pl_rank_def split: pool_owner.split)

lemma work_rank:
  assumes "pl_work True l (Inr u)" "pl_inv l" "pl_owner l = Pool_joining k d"
  shows "pl_rank u < pl_rank l"
proof -
  have stopped: "\<not> tp_running (pl_pool l)" "joined_upto k l" using pl_invD(5) [OF assms(2,3)] by auto
  have waiting: "tp_workers (pl_pool l) ! i \<noteq> Worker_waiting" if "i < length (tp_workers (pl_pool l))" for i
    using pl_invD(3) [OF assms(2) stopped(1)] nth_mem [OF that] by metis
  from assms(1) show ?thesis
  proof (cases rule: pl_work.cases)
    case (w_init i e)
    then show ?thesis using filter_update_less [of i "pl_init l"] pl_invD(2) [OF assms(2)] assms(3) by (simp add: life_defs pl_rank_def)
  next
    case (w_check i)
    then show ?thesis using stopped by (auto simp: RunInThread_check_def intro!: rank_worker_move [where w = Worker_done])
  next
    case (w_take i c)
    then show ?thesis using stopped by (auto simp: Take_pass_def intro: rank_worker_move)
  next
    case (w_ran i task e)
    then show ?thesis by (auto simp: life_defs intro!: rank_worker_move [where w = Worker_loop])
  next
    case (o_join k' d')
    then have [simp]: "k' = k" "d' = d" using assms(3) by simp_all
    have "k \<le> length (tp_workers (pl_pool l))" using stopped(2) by (simp add: joined_upto_def)
    then show ?thesis using o_join assms(3)
      by (auto simp: Stop_join_def destroy_members_def pl_rank_def split: if_splits)
  qed (use assms(3) waiting in auto)
qed

lemma call_rank:
  assumes "pl_call l (Inr u)" "pl_inv l" "pl_owner l = Pool_joining k d"
  shows "pl_rank u = pl_rank l"
proof -
  have "Worker_waiting \<notin> set (tp_workers (pl_pool l))" using pl_invD(3,5) [OF assms(2)] assms(3) by blast
  then have same: "notify_one worker_parked (\<lambda>_. Worker_take) c (tp_workers (pl_pool l)) = tp_workers (pl_pool l)" for c
    by (rule_tac notify_one_cases [of worker_parked "tp_workers (pl_pool l)" "\<lambda>_. Worker_take" c]) (auto dest: nth_mem)
  from assms(1) show ?thesis
    by (cases rule: pl_call.cases) (use assms(3) in \<open>auto simp: pl_rank_def Run_check_def same split: if_splits\<close>)
qed

lemma work_enabled:
  assumes "pl_inv l" "pl_owner l = Pool_joining k d"
  shows "\<exists>r. pl_work True l r"
proof (cases "k < length (tp_workers (pl_pool l)) \<longrightarrow> tp_workers (pl_pool l) ! k = Worker_done")
  case False
  then have k: "k < length (tp_workers (pl_pool l))" "tp_workers (pl_pool l) ! k \<noteq> Worker_done" by auto
  have "tp_workers (pl_pool l) ! k \<noteq> Worker_waiting"
    using pl_invD(3,5) [OF assms(1)] assms(2) nth_mem [OF k(1)] by metis
  then show ?thesis using k
    by (cases "tp_workers (pl_pool l) ! k"; cases "pl_init l ! k")
      (blast intro: pl_work.w_init [where e = Call_returns] pl_work.w_check pl_work.w_take pl_work.w_ran [where e = Call_returns])+
qed (use assms pl_work.o_join in blast)

section \<open>Properties\<close>

text \<open>
  C28. \<^verbatim>\<open>Stop\<close> and the destructor of a thread pool return. If the tasks return, the pool is stopped while it runs
  and destroyed when nobody is inside \<^verbatim>\<open>Run\<close>, then nothing goes wrong in any interleaving; while the owner
  joins the threads some step of a worker or of the owner is possible, each such step brings the
  end nearer, and callers cannot postpone it; afterwards every worker has ended and every thread was joined.
\<close>

theorem ThreadPool_Stop_joins:
  assumes "pl_run True r"
  shows "\<exists>l. r = Inr l \<and>
    (case pl_owner l of
       Pool_in_use \<Rightarrow> tp_running (pl_pool l) \<or> set (tp_workers (pl_pool l)) \<subseteq> {Worker_done} \<and> True \<notin> set (pl_joinable l)
     | Pool_joining k d \<Rightarrow> (\<exists>r. pl_work True l r) \<and> (\<forall>u. pl_work True l (Inr u) \<longrightarrow> pl_rank u < pl_rank l)
         \<and> (\<forall>u. pl_call l (Inr u) \<longrightarrow> pl_rank u = pl_rank l)
     | Pool_destroyed \<Rightarrow> set (tp_workers (pl_pool l)) \<subseteq> {Worker_done} \<and> True \<notin> set (pl_joinable l)
         \<and> set (tp_producers (pl_pool l)) \<subseteq> {Producer_away})"
proof -
  obtain l where l: "r = Inr l" "pl_inv l" using pl_run_inv [OF assms] by blast
  have ended: "set (tp_workers (pl_pool l)) \<subseteq> {Worker_done} \<and> True \<notin> set (pl_joinable l)"
    if "joined_upto (length (tp_workers (pl_pool l))) l"
    using that joined_all [OF that l(2)] by (auto simp: joined_upto_def in_set_conv_nth)
  show ?thesis
  proof (cases "pl_owner l")
    case Pool_in_use
    then show ?thesis using l ended pl_invD(4) [OF l(2)] by auto
  next
    case (Pool_joining k d)
    then show ?thesis using l work_enabled [OF l(2)] work_rank [OF _ l(2)] call_rank [OF _ l(2)] by auto
  next
    case Pool_destroyed
    then show ?thesis using l ended pl_invD(6) [OF l(2)] by (auto simp: all_away_def)
  qed
qed

text \<open>A pool of one worker with nothing to do, and its run up to a given worker and owner.\<close>

definition idle_pool :: "nat worker \<Rightarrow> bool \<Rightarrow> bool \<Rightarrow> pool_owner \<Rightarrow> nat pool_life" where
  "idle_pool w running j ow =
     \<lparr>pl_pool = \<lparr>tp_queue = [], tp_max = 1, tp_running = running, tp_workers = [w], tp_producers = [Producer_away],
        tp_accepted = [], tp_taken = []\<rparr>, pl_joinable = [j], pl_init = [False], pl_owner = ow\<rparr>"

lemma idle_run:
  "pl_run b (Inr (idle_pool Worker_loop True True Pool_in_use))"
  "pl_run b (Inr (idle_pool Worker_done False True (Pool_joining 0 d)))"
  "pl_run b (Inr (idle_pool Worker_done False False (Pool_joining 1 d)))"
proof -
  have "pl_run b (Pool_Start False 1
      \<lparr>pl_pool = set_max_queue_size 1 (ThreadPool_new 1) :: nat thread_pool, pl_joinable = [], pl_init = [], pl_owner = Pool_in_use\<rparr>)"
    by (rule pl_run.pl_begin) simp_all
  then show r0: "pl_run b (Inr (idle_pool Worker_loop True True Pool_in_use))"
    by (simp add: Pool_Start_def ThreadPool_Start_def set_max_queue_size_def ThreadPool_new_def size_of_int_def idle_pool_def)
  have "pl_work b (idle_pool Worker_loop True True Pool_in_use) (Inr (idle_pool Worker_loop False True (Pool_joining 0 d)))"
    using pl_work.o_stop [of "idle_pool Worker_loop True True Pool_in_use" b] pl_work.o_destroy [of "idle_pool Worker_loop True True Pool_in_use" b]
    by (cases d) (simp_all add: idle_pool_def Stop_begin_def ThreadPool_destroy_def Stop_notify_def notify_all_def)
  moreover have "pl_work b (idle_pool Worker_loop False True (Pool_joining 0 d)) (Inr (idle_pool Worker_done False True (Pool_joining 0 d)))"
    using pl_work.w_check [of 0 "idle_pool Worker_loop False True (Pool_joining 0 d)" b] by (simp add: idle_pool_def RunInThread_check_def)
  ultimately show r1: "pl_run b (Inr (idle_pool Worker_done False True (Pool_joining 0 d)))" using r0 by (meson pl_run.pl_works)
  have "pl_work b (idle_pool Worker_done False True (Pool_joining 0 d)) (Inr (idle_pool Worker_done False False (Pool_joining 1 d)))"
    using pl_work.o_join [of "idle_pool Worker_done False True (Pool_joining 0 d)" 0 d b] by (simp add: idle_pool_def Stop_join_def)
  then show "pl_run b (Inr (idle_pool Worker_done False False (Pool_joining 1 d)))" using r1 by (rule pl_run.pl_works [rotated])
qed

theorem ThreadPool_Stop_joins_witness:
  "\<exists>l :: nat pool_life. pl_run True (Inr l) \<and> pl_owner l = Pool_destroyed \<and> tp_workers (pl_pool l) = [Worker_done]
    \<and> True \<notin> set (pl_joinable l)"
proof -
  let ?l = "idle_pool Worker_done False False (Pool_joining 1 True)"
  have "pl_run True (Stop_join 1 True ?l)"
    by (rule pl_run.pl_works [OF idle_run(3) pl_work.o_join]) (simp_all add: idle_pool_def)
  then have run: "pl_run True (Inr (?l\<lparr>pl_owner := Pool_destroyed\<rparr>))"
    by (simp add: Stop_join_def destroy_members_def idle_pool_def)
  from ThreadPool_Stop_joins [OF this] have "True \<notin> set (pl_joinable (?l\<lparr>pl_owner := Pool_destroyed\<rparr>))" by simp
  with run show ?thesis by (intro exI [of _ "?l\<lparr>pl_owner := Pool_destroyed\<rparr>"]) (simp add: idle_pool_def)
qed

text \<open>
  Without that discipline: stopping a pool twice throws, because the threads cannot be joined again; a stopped
  pool cannot be started again, because \<^verbatim>\<open>threads_\<close> is never cleared; a task that throws ends the program.
\<close>

lemma ThreadPool_failures:
  shows "pl_run False (Inl SystemError :: nat pool_life outcome)"
    and "\<exists>l :: nat pool_life. pl_run False (Inr l) \<and> pl_owner l = Pool_in_use \<and> \<not> tp_running (pl_pool l)
      \<and> Pool_Start b 1 l = Inl (AssertFailed ''threads_.empty()'')"
    and "i < length (tp_workers (pl_pool l)) \<Longrightarrow> tp_workers (pl_pool l) ! i = Worker_run task \<Longrightarrow>
      pl_work False l (Inl AbortCalled) \<and> pl_work False l (Inl StdTerminate)"
proof -
  let ?l = "idle_pool Worker_done False False Pool_in_use"
  have "pl_run False (Stop_join 1 False (idle_pool Worker_done False False (Pool_joining 1 False)))"
    by (rule pl_run.pl_works [OF idle_run(3) pl_work.o_join]) (simp_all add: idle_pool_def)
  then have r: "pl_run False (Inr ?l)" by (simp add: Stop_join_def idle_pool_def)
  then show "\<exists>l :: nat pool_life. pl_run False (Inr l) \<and> pl_owner l = Pool_in_use \<and> \<not> tp_running (pl_pool l)
      \<and> Pool_Start b 1 l = Inl (AssertFailed ''threads_.empty()'')"
    by (intro exI [of _ ?l]) (simp add: idle_pool_def Pool_Start_def ThreadPool_Start_def)
  have "pl_run False (Inr (Stop_begin False ?l))"
    by (rule pl_run.pl_works [OF r pl_work.o_stop]) (simp_all add: idle_pool_def)
  then have "pl_run False (Inr (idle_pool Worker_done False False (Pool_joining 0 False)))"
    by (simp add: Stop_begin_def Stop_notify_def notify_all_def idle_pool_def)
  then have "pl_run False (Stop_join 0 False (idle_pool Worker_done False False (Pool_joining 0 False)))"
    by (rule pl_run.pl_works [OF _ pl_work.o_join]) (simp_all add: idle_pool_def)
  then show "pl_run False (Inl SystemError :: nat pool_life outcome)" by (simp add: Stop_join_def idle_pool_def)
  show "i < length (tp_workers (pl_pool l)) \<Longrightarrow> tp_workers (pl_pool l) ! i = Worker_run task \<Longrightarrow>
      pl_work False l (Inl AbortCalled) \<and> pl_work False l (Inl StdTerminate)"
    using pl_work.w_ran [of i l task False Call_throws_std_exception] pl_work.w_ran [of i l task False Call_throws_other]
    by (simp add: life_defs)
qed

end
