(* ===== verification/Timer_Timeout.thy ===== *)
theory Timer_Timeout
  imports Timer_Queue Event_Loop
begin

text \<open>
  Timers on systems without \<^verbatim>\<open>timerfd\<close> (the \<^verbatim>\<open>__MACH__\<close> branch of \<^verbatim>\<open>muduo-cpp11/net/timer_queue.cpp\<close>): the loop asks the
  queue how long it may block in \<^verbatim>\<open>poll\<close> and calls \<^verbatim>\<open>ProcessTimers\<close> in every iteration; nothing is armed.

  Shown: the answer is the time to the earliest timer, in whole milliseconds and at least one, as long as it fits
  an \<^verbatim>\<open>int\<close>; 25 days ahead it becomes negative, and \<^verbatim>\<open>poll\<close> then blocks without a limit. Under the same operations and
  times the queues of the two builds stay the same, so everything shown of the other build's queue holds here.
\<close>

section \<open>The timeout\<close>

definition HowMuchTimeFromNow_ms :: "timestamp \<Rightarrow> timestamp \<Rightarrow> int" where
  "HowMuchTimeFromNow_ms t now =
     (let microseconds = microseconds_since_epoch t - microseconds_since_epoch now;
          us = (if microseconds < 1000 then 1000 else microseconds)
      in int_of_size (nat (us div 1000)))"

definition GetTimeout :: "(nat \<Rightarrow> timestamp) \<Rightarrow> bool \<Rightarrow> timer_queue \<Rightarrow> (int \<times> timer_queue) outcome" where
  "GetTimeout clock in_loop_thread q =
     AssertInLoopThread in_loop_thread
     (case timers q of
        [] \<Rightarrow> Inr (10000, q)
      | e # _ \<Rightarrow> and_then (deref q (snd e)) (\<lambda>t.
          let (now, q') = Now clock q in Inr (HowMuchTimeFromNow_ms (expiration t) now, q')))"

lemma HowMuchTimeFromNow_ms_rounds:
  assumes "d = microseconds_since_epoch t - microseconds_since_epoch now" "d < 2 ^ 31 * 1000"
  shows "1 \<le> HowMuchTimeFromNow_ms t now" "HowMuchTimeFromNow_ms t now * 1000 \<le> max 1000 d"
    "max 1000 d < (HowMuchTimeFromNow_ms t now + 1) * 1000"
proof -
  let ?us = "max 1000 d"
  have us: "(if d < 1000 then 1000 else d) = ?us" by simp
  have "1 \<le> ?us div 1000" by (simp add: pos_imp_zdiv_pos_iff)
  have "?us div 1000 < 2 ^ 31" using assms(2) by simp
  then have "nat (?us div 1000) < 2 ^ 31" by simp
  then have h: "HowMuchTimeFromNow_ms t now = ?us div 1000"
    using \<open>1 \<le> ?us div 1000\<close> unfolding HowMuchTimeFromNow_ms_def Let_def assms(1) [symmetric] us
    by (simp add: int_of_size_exact)
  show "1 \<le> HowMuchTimeFromNow_ms t now" using \<open>1 \<le> ?us div 1000\<close> h by simp
  show "HowMuchTimeFromNow_ms t now * 1000 \<le> ?us" "?us < (HowMuchTimeFromNow_ms t now + 1) * 1000"
    unfolding h using mult_div_mod_eq [of 1000 ?us] pos_mod_bound [of 1000 ?us] by simp_all
qed

text \<open>In a run the first element of \<^verbatim>\<open>timers_\<close> is the earliest timer, so no timer is late by more than the rounding.\<close>

lemma GetTimeout_earliest:
  assumes "tq_inv q" "(t, a) \<in> set (timers q)"
    and "\<And>t' a'. (t', a') \<in> set (timers q) \<Longrightarrow> microseconds_since_epoch t' - microseconds_since_epoch (clock (clock_reads q)) < 2 ^ 31 * 1000"
  shows "\<exists>ms q'. GetTimeout clock True q = Inr (ms, q') \<and> 1 \<le> ms
    \<and> ms * 1000 \<le> max 1000 (microseconds_since_epoch t - microseconds_since_epoch (clock (clock_reads q)))"
proof -
  have core: "tq_core q" using assms(1) by (simp add: tq_inv_def)
  obtain e es where q: "timers q = e # es" using assms(2) by (cases "timers q") auto
  obtain t0 a0 where e: "e = (t0, a0)" by (cases e)
  from tq_coreD(5) [OF core, of t0 a0] q e obtain tm where tm: "tq_heap q a0 = Some tm" "expiration tm = t0" by auto
  have "sorted (timers q)" using tq_coreD(1) [OF core] by (simp add: std_set_def strict_sorted_iff)
  then have "(t0, a0) \<le> (t, a)" using assms(2) q e by auto
  then have le: "t0 \<le> t" by (auto simp: less_eq_prod_def)
  let ?now = "clock (clock_reads q)"
  have "microseconds_since_epoch t0 - microseconds_since_epoch ?now < 2 ^ 31 * 1000" using assms(3) [of t0 a0] q e by simp
  note h = HowMuchTimeFromNow_ms_rounds [OF refl this]
  have "microseconds_since_epoch t0 \<le> microseconds_since_epoch t" using le by (cases t0; cases t) (simp add: less_eq_timestamp_def)
  then show ?thesis using h q e tm
    by (auto simp: GetTimeout_def AssertInLoopThread_def deref_def Now_def intro: order_trans)
qed

text \<open>With no timer the loop blocks for ten seconds at most; a timer 25 days ahead gives a negative timeout.\<close>

lemma GetTimeout_empty: "timers q = [] \<Longrightarrow> GetTimeout clock True q = Inr (10000, q)"
  by (simp add: GetTimeout_def AssertInLoopThread_def)

lemma GetTimeout_overflows:
  "HowMuchTimeFromNow_ms (Timestamp (25 * 24 * 3600 * 1000000)) (Timestamp 0) = - 2134967296"
  by (simp add: HowMuchTimeFromNow_ms_def int_of_size_def Let_def)

section \<open>The queue without a timerfd\<close>

definition portable_AddTimerInLoop :: "timer_queue \<Rightarrow> addr \<Rightarrow> timer_queue outcome" where
  "portable_AddTimerInLoop q a = and_then (Insert q a) (\<lambda>(q', _). Inr q')"

definition portable_run_functor :: "tq_functor \<Rightarrow> timer_queue \<Rightarrow> timer_queue outcome" where
  "portable_run_functor f q = (case f of
       AddTimerInLoop_functor a \<Rightarrow> portable_AddTimerInLoop q a
     | CancelInLoop_functor tid \<Rightarrow> CancelInLoop q tid)"

definition portable_RunInLoop :: "bool \<Rightarrow> tq_functor \<Rightarrow> timer_queue \<Rightarrow> timer_queue outcome" where
  "portable_RunInLoop in_loop_thread f q =
     (if in_loop_thread then portable_run_functor f q else Inr (q\<lparr>loop_pending := loop_pending q @ [f]\<rparr>))"

definition portable_AddTimer_post ::
  "((addr \<Rightarrow> bool) \<Rightarrow> addr option) \<Rightarrow> bool \<Rightarrow> timer_queue \<Rightarrow> callback \<Rightarrow> timestamp \<Rightarrow> double \<Rightarrow> (timer_queue \<times> addr) outcome" where
  "portable_AddTimer_post alloc in_loop_thread q cb when dt =
     (case alloc (\<lambda>a. tq_heap q a \<noteq> None) of
        None \<Rightarrow> Inl BadAlloc
      | Some a \<Rightarrow>
          let t = Timer_new (num_created q) cb when dt;
              q1 = q\<lparr>tq_heap := (tq_heap q)(a \<mapsto> t), num_created := num_created q + 1\<rparr>
          in and_then (portable_RunInLoop in_loop_thread (AddTimerInLoop_functor a) q1) (\<lambda>q2. Inr (q2, a)))"

definition portable_AddTimer ::
  "((addr \<Rightarrow> bool) \<Rightarrow> addr option) \<Rightarrow> bool \<Rightarrow> timer_queue \<Rightarrow> callback \<Rightarrow> timestamp \<Rightarrow> double \<Rightarrow> (timer_queue \<times> timer_id) outcome" where
  "portable_AddTimer alloc in_loop_thread q cb when dt =
     and_then (portable_AddTimer_post alloc in_loop_thread q cb when dt) (\<lambda>(q', a).
     and_then (AddTimer_result q' a) (\<lambda>tid. Inr (q', tid)))"

definition portable_run_call :: "((addr \<Rightarrow> bool) \<Rightarrow> addr option) \<Rightarrow> tq_call \<Rightarrow> timer_queue \<Rightarrow> timer_queue outcome" where
  "portable_run_call alloc c q = (case c of
       Call_AddTimer cb when dt \<Rightarrow> and_then (portable_AddTimer alloc True q cb when dt) (\<lambda>(q', _). Inr q')
     | Call_Cancel tid \<Rightarrow> portable_RunInLoop True (CancelInLoop_functor tid) q)"

definition portable_Reset :: "timer_queue \<Rightarrow> entry list \<Rightarrow> timestamp \<Rightarrow> timer_queue outcome" where
  "portable_Reset q expired now =
     and_then
       (for_each (\<lambda>e q. and_then (deref q (snd e)) (\<lambda>t.
           if repeat t \<and> (snd e, sequence t) \<notin> set (canceling_timers q)
           then and_then (Insert (q\<lparr>tq_heap := (tq_heap q)(snd e \<mapsto> Timer_Restart t now)\<rparr>) (snd e))
                  (\<lambda>(q', _). Inr q')
           else Inr (q\<lparr>tq_heap := (tq_heap q)(snd e := None)\<rparr>)))
         expired q)
       (\<lambda>q1. if timers q1 = [] then Inr q1 else and_then (deref q1 (snd (hd (timers q1)))) (\<lambda>_. Inr q1))"

definition ProcessTimers ::
  "((addr \<Rightarrow> bool) \<Rightarrow> addr option) \<Rightarrow> (callback \<Rightarrow> tq_call list) \<Rightarrow> timestamp \<Rightarrow> timer_queue \<Rightarrow> timer_queue outcome" where
  "ProcessTimers alloc script now q =
     and_then (GetExpired q now) (\<lambda>(q1, expired).
       let q2 = q1\<lparr>calling_expired_timers := True, canceling_timers := []\<rparr>
       in and_then (for_each (\<lambda>e q. and_then (deref q (snd e)) (\<lambda>t.
                      for_each (portable_run_call alloc) (script (timer_callback t)) q)) expired q2)
            (\<lambda>q3. portable_Reset (q3\<lparr>calling_expired_timers := False\<rparr>) expired now))"

section \<open>The two builds agree\<close>

text \<open>Queues that differ only in what the other build knows about its \<^verbatim>\<open>timerfd\<close> and in how often it asked for the time.\<close>

definition same_queue :: "timer_queue \<Rightarrow> timer_queue \<Rightarrow> bool" where
  "same_queue q p \<longleftrightarrow> (\<exists>x n. p = q\<lparr>timerfd := x, clock_reads := n\<rparr>)"

abbreviation same_result :: "timer_queue outcome \<Rightarrow> timer_queue outcome \<Rightarrow> bool" where
  "same_result \<equiv> rel_sum (=) same_queue"

lemma rel_and_then:
  "rel_sum (=) R m m' \<Longrightarrow> (\<And>x y. R x y \<Longrightarrow> rel_sum (=) S (f x) (g y)) \<Longrightarrow> rel_sum (=) S (and_then m f) (and_then m' g)"
  by (cases m; cases m') auto

lemma rel_for_each:
  assumes "\<And>x s t. R s t \<Longrightarrow> rel_sum (=) R (f x s) (g x t)"
  shows "R s t \<Longrightarrow> rel_sum (=) R (for_each f xs s) (for_each g xs t)"
proof (induction xs arbitrary: s t)
  case (Cons x xs)
  show ?case unfolding for_each.simps by (rule rel_and_then [OF assms [OF Cons.prems] Cons.IH])
qed simp

lemma rel_asserting: "b = b' \<Longrightarrow> (b \<Longrightarrow> rel_sum (=) R k k') \<Longrightarrow> rel_sum (=) R (asserting b w k) (asserting b' w k')"
  by (cases b) simp_all

lemma same_queue_fields:
  assumes "same_queue q p"
  shows "tq_heap p = tq_heap q" "num_created p = num_created q" "timers p = timers q" "active_timers p = active_timers q"
    "calling_expired_timers p = calling_expired_timers q" "canceling_timers p = canceling_timers q" "loop_pending p = loop_pending q"
    "deref p = deref q" "sizes_agree p = sizes_agree q"
  using assms by (auto simp: same_queue_def deref_def sizes_agree_def fun_eq_iff)

lemma same_queueI:
  "tq_heap p = tq_heap q \<Longrightarrow> num_created p = num_created q \<Longrightarrow> timers p = timers q \<Longrightarrow> active_timers p = active_timers q \<Longrightarrow>
   calling_expired_timers p = calling_expired_timers q \<Longrightarrow> canceling_timers p = canceling_timers q \<Longrightarrow>
   loop_pending p = loop_pending q \<Longrightarrow> same_queue q p"
  unfolding same_queue_def by (intro exI [of _ "timerfd p"] exI [of _ "clock_reads p"]) simp

abbreviation same_with :: "(timer_queue \<times> 'x) outcome \<Rightarrow> (timer_queue \<times> 'x) outcome \<Rightarrow> bool" where
  "same_with \<equiv> rel_sum (=) (rel_prod same_queue (=))"

lemma rel_first: "same_with m m' \<Longrightarrow> same_result (and_then m (\<lambda>(q, _). Inr q)) (and_then m' (\<lambda>(q, _). Inr q))"
  by (erule rel_and_then) auto

lemma same_queue_updates:
  assumes "same_queue q p"
  shows "same_queue (q\<lparr>timers := ts, active_timers := as\<rparr>) (p\<lparr>timers := ts, active_timers := as\<rparr>)"
    "same_queue (q\<lparr>timers := ts, tq_heap := h, active_timers := as\<rparr>) (p\<lparr>timers := ts, tq_heap := h, active_timers := as\<rparr>)"
    "same_queue (q\<lparr>canceling_timers := as\<rparr>) (p\<lparr>canceling_timers := as\<rparr>)" "same_queue (q\<lparr>tq_heap := h\<rparr>) (p\<lparr>tq_heap := h\<rparr>)"
    "same_queue (q\<lparr>timers := ts\<rparr>) (p\<lparr>timers := ts\<rparr>)" "same_queue (q\<lparr>active_timers := as\<rparr>) (p\<lparr>active_timers := as\<rparr>)"
    "same_queue (q\<lparr>calling_expired_timers := b, canceling_timers := as\<rparr>) (p\<lparr>calling_expired_timers := b, canceling_timers := as\<rparr>)"
    "same_queue (q\<lparr>calling_expired_timers := b\<rparr>) (p\<lparr>calling_expired_timers := b\<rparr>)"
    "same_queue (q\<lparr>loop_pending := fs\<rparr>) (p\<lparr>loop_pending := fs\<rparr>)"
    "same_queue (q\<lparr>tq_heap := h, num_created := i\<rparr>) (p\<lparr>tq_heap := h, num_created := i\<rparr>)"
  using same_queue_fields [OF assms] by (intro same_queueI; simp)+

lemma rel_same: "rel_sum (=) (=) m (m :: 'a outcome)"
  by (cases m) simp_all

lemma Insert_same:
  assumes "same_queue q p"
  shows "same_with (Insert q a) (Insert p a)"
  unfolding Insert_def same_queue_fields [OF assms]
  by (intro rel_asserting rel_and_then [OF rel_same])
    (auto simp: Let_def asserting_def sizes_agree_def same_queue_updates [OF assms] split: prod.split)

lemma CancelInLoop_same:
  assumes "same_queue q p"
  shows "same_result (CancelInLoop q tid) (CancelInLoop p tid)"
proof -
  have "same_result
     (if tid \<in> set (active_timers q)
      then and_then (deref q (fst tid)) (\<lambda>t. let (timers', n) = std_erase (expiration t, fst tid) (timers q)
             in asserting (n = 1) w (Inr (q\<lparr>timers := timers', tq_heap := (tq_heap q)(fst tid := None),
                     active_timers := fst (std_erase tid (active_timers q))\<rparr>)))
      else if calling_expired_timers q then Inr (q\<lparr>canceling_timers := fst (std_insert tid (canceling_timers q))\<rparr>) else Inr q)
     (if tid \<in> set (active_timers q)
      then and_then (deref q (fst tid)) (\<lambda>t. let (timers', n) = std_erase (expiration t, fst tid) (timers q)
             in asserting (n = 1) w (Inr (p\<lparr>timers := timers', tq_heap := (tq_heap q)(fst tid := None),
                     active_timers := fst (std_erase tid (active_timers q))\<rparr>)))
      else if calling_expired_timers q then Inr (p\<lparr>canceling_timers := fst (std_insert tid (canceling_timers q))\<rparr>) else Inr p)" for w
    using assms by (auto simp: Let_def asserting_def same_queue_updates [OF assms] intro!: rel_and_then [OF rel_same] split: prod.split)
  then show ?thesis unfolding CancelInLoop_def same_queue_fields [OF assms]
    by (intro rel_asserting rel_and_then) (auto simp: same_queue_fields asserting_def)
qed

lemma ResetTimerfd_same: "same_queue q p \<Longrightarrow> same_queue (ResetTimerfd clock q t) p"
  by (auto simp: same_queue_def ResetTimerfd_def Now_def)

lemma Insert_live: "Insert q a = Inr (q', b) \<Longrightarrow> tq_heap q' a \<noteq> None"
  by (auto simp: Insert_def deref_def Let_def asserting_def split: if_splits option.splits prod.splits)

lemma AddTimerInLoop_same:
  assumes "same_queue q p"
  shows "same_result (AddTimerInLoop clock q a) (portable_AddTimerInLoop p a)"
  using Insert_same [OF assms, of a] Insert_live [of q a]
  by (cases "Insert q a"; cases "Insert p a")
    (auto simp: AddTimerInLoop_def portable_AddTimerInLoop_def deref_def ResetTimerfd_same split: option.splits)

lemma RunInLoop_same:
  "same_queue q p \<Longrightarrow> same_result (run_functor clock f q) (portable_run_functor f p)"
  "same_queue q p \<Longrightarrow> same_result (tq_RunInLoop clock b f q) (portable_RunInLoop b f p)"
  by (auto simp: tq_RunInLoop_def portable_RunInLoop_def run_functor_def portable_run_functor_def AddTimerInLoop_same CancelInLoop_same
      same_queue_fields same_queue_updates split: tq_functor.splits)

lemma AddTimer_same:
  assumes "same_queue q p"
  shows "same_with (AddTimer_post alloc clock b q cb t dt) (portable_AddTimer_post alloc b p cb t dt)"
    "same_with (AddTimer alloc clock b q cb t dt) (portable_AddTimer alloc b p cb t dt)"
proof -
  show post: "same_with (AddTimer_post alloc clock b q cb t dt) (portable_AddTimer_post alloc b p cb t dt)"
    unfolding AddTimer_post_def portable_AddTimer_post_def same_queue_fields [OF assms] Let_def
    by (cases "alloc (\<lambda>a. tq_heap q a \<noteq> None)")
      (auto intro!: rel_and_then [OF RunInLoop_same(2)] same_queue_updates [OF assms])
  have "AddTimer_result p' a = AddTimer_result q' a" if "same_queue q' p'" for q' p' a
    using same_queue_fields(8) [OF that] by (simp add: AddTimer_result_def)
  then show "same_with (AddTimer alloc clock b q cb t dt) (portable_AddTimer alloc b p cb t dt)"
    unfolding AddTimer_def portable_AddTimer_def
    by (intro rel_and_then [OF post]) (auto intro!: rel_and_then [OF rel_same])
qed

lemma run_call_same:
  assumes "same_queue q p"
  shows "same_result (run_call alloc clock c q) (portable_run_call alloc c p)"
  using rel_first [OF AddTimer_same(2) [OF assms]] RunInLoop_same(2) [OF assms]
  by (cases c) (simp_all add: run_call_def portable_run_call_def Cancel_def)

lemma GetExpired_same:
  assumes "same_queue q p"
  shows "same_with (GetExpired q now) (GetExpired p now)"
proof -
  have body: "same_result (and_then (deref q (snd e)) (\<lambda>t. case std_erase (snd e, sequence t) (active_timers q) of (active', n) \<Rightarrow>
        asserting (n = 1) w (Inr (q\<lparr>active_timers := active'\<rparr>))))
      (and_then (deref p (snd e)) (\<lambda>t. case std_erase (snd e, sequence t) (active_timers p) of (active', n) \<Rightarrow>
        asserting (n = 1) w (Inr (p\<lparr>active_timers := active'\<rparr>))))" if "same_queue q p" for q p w and e :: entry
    unfolding same_queue_fields [OF that]
    by (rule rel_and_then [OF rel_same]) (auto simp: Let_def asserting_def same_queue_updates [OF that] split: prod.split)
  show ?thesis unfolding GetExpired_def same_queue_fields [OF assms] Let_def
    by (intro rel_asserting rel_and_then [OF rel_for_each [OF body]] same_queue_updates(5) assms refl)
      (auto simp: same_queue_fields asserting_def)
qed

lemma Reset_same:
  assumes "same_queue q p"
  shows "same_result (Reset clock q expired now) (portable_Reset p expired now)"
proof -
  have body: "same_result (and_then (deref q (snd e)) (\<lambda>t. if repeat t \<and> (snd e, sequence t) \<notin> set (canceling_timers q)
        then and_then (Insert (q\<lparr>tq_heap := (tq_heap q)(snd e \<mapsto> Timer_Restart t now)\<rparr>) (snd e)) (\<lambda>(q', _). Inr q')
        else Inr (q\<lparr>tq_heap := (tq_heap q)(snd e := None)\<rparr>)))
      (and_then (deref p (snd e)) (\<lambda>t. if repeat t \<and> (snd e, sequence t) \<notin> set (canceling_timers p)
        then and_then (Insert (p\<lparr>tq_heap := (tq_heap p)(snd e \<mapsto> Timer_Restart t now)\<rparr>) (snd e)) (\<lambda>(q', _). Inr q')
        else Inr (p\<lparr>tq_heap := (tq_heap p)(snd e := None)\<rparr>)))" if "same_queue q p" for q p and e :: entry
    unfolding same_queue_fields [OF that]
    by (rule rel_and_then [OF rel_same]) (auto simp: same_queue_updates [OF that] intro!: rel_first Insert_same)
  show ?thesis unfolding Reset_def portable_Reset_def
    by (rule rel_and_then [OF rel_for_each [OF body assms]])
      (auto simp: same_queue_fields ResetTimerfd_same and_then_def split: sum.splits)
qed

lemma ProcessTimers_same:
  assumes "same_queue q p" "clock (clock_reads q) = now"
  shows "same_result (TimerQueue_HandleRead alloc clock script q) (ProcessTimers alloc script now p)"
proof -
  have q0: "same_queue (q\<lparr>clock_reads := Suc (clock_reads q)\<rparr>) p"
    using assms(1) by (auto simp: same_queue_def)
  have body: "same_result (and_then (deref q (snd e)) (\<lambda>t. Timer_Run alloc clock script t q))
      (and_then (deref p (snd e)) (\<lambda>t. for_each (portable_run_call alloc) (script (timer_callback t)) p))"
    if "same_queue q p" for q p and e :: entry
    unfolding same_queue_fields [OF that] Timer_Run_def
    by (rule rel_and_then [OF rel_same]) (auto intro!: rel_for_each run_call_same that)
  show ?thesis unfolding TimerQueue_HandleRead_def ProcessTimers_def Now_def Let_def prod.case assms(2)
    by (rule rel_and_then [OF GetExpired_same [OF q0]])
      (auto intro!: rel_and_then [OF rel_for_each [OF body]] Reset_same same_queue_updates)
qed

section \<open>Runs of both builds\<close>

text \<open>
  What can happen to a queue, from other threads and in the loop thread; an expiration is handled at a given time and says what the
  user's callbacks do.
\<close>

datatype tq_op =
    Op_foreign_add callback timestamp double
  | Op_foreign_cancel timer_id
  | Op_call tq_call
  | Op_functor
  | Op_expire timestamp "callback \<Rightarrow> tq_call list"

definition timerfd_op :: "((addr \<Rightarrow> bool) \<Rightarrow> addr option) \<Rightarrow> (nat \<Rightarrow> timestamp) \<Rightarrow> tq_op \<Rightarrow> timer_queue \<Rightarrow> timer_queue outcome" where
  "timerfd_op alloc clock op q = (case op of
       Op_foreign_add cb t dt \<Rightarrow> and_then (AddTimer_post alloc clock False q cb t dt) (\<lambda>(q', _). Inr q')
     | Op_foreign_cancel tid \<Rightarrow> Cancel clock False q tid
     | Op_call c \<Rightarrow> run_call alloc clock c q
     | Op_functor \<Rightarrow> (case loop_pending q of [] \<Rightarrow> Inr q | f # fs \<Rightarrow> run_functor clock f (q\<lparr>loop_pending := fs\<rparr>))
     | Op_expire now script \<Rightarrow> TimerQueue_HandleRead alloc (clock(clock_reads q := now)) script q)"

definition portable_op :: "((addr \<Rightarrow> bool) \<Rightarrow> addr option) \<Rightarrow> tq_op \<Rightarrow> timer_queue \<Rightarrow> timer_queue outcome" where
  "portable_op alloc op q = (case op of
       Op_foreign_add cb t dt \<Rightarrow> and_then (portable_AddTimer_post alloc False q cb t dt) (\<lambda>(q', _). Inr q')
     | Op_foreign_cancel tid \<Rightarrow> portable_RunInLoop False (CancelInLoop_functor tid) q
     | Op_call c \<Rightarrow> portable_run_call alloc c q
     | Op_functor \<Rightarrow> (case loop_pending q of [] \<Rightarrow> Inr q | f # fs \<Rightarrow> portable_run_functor f (q\<lparr>loop_pending := fs\<rparr>))
     | Op_expire now script \<Rightarrow> ProcessTimers alloc script now q)"

lemma op_same: "same_queue q p \<Longrightarrow> same_result (timerfd_op alloc clock op q) (portable_op alloc op p)"
  by (cases op; cases "loop_pending q")
    (simp_all add: timerfd_op_def portable_op_def same_queue_fields rel_first AddTimer_same Cancel_def RunInLoop_same run_call_same
      same_queue_updates ProcessTimers_same)

lemma op_inv:
  assumes "tq_inv q" "alloc_fresh alloc"
  shows "safely tq_inv (timerfd_op alloc clock op q)"
proof (cases op)
  case (Op_foreign_add cb t dt)
  with foreign_add_inv [OF assms, of clock cb t dt] show ?thesis by (simp add: timerfd_op_def)
next
  case (Op_foreign_cancel tid)
  have "tq_inv (q\<lparr>loop_pending := loop_pending q @ [CancelInLoop_functor tid]\<rparr>)"
    using assms(1) by (intro queued_inv [where as = "added_addrs (loop_pending q)"]) (auto simp: tq_inv_def in_flight_def)
  with Op_foreign_cancel show ?thesis by (simp add: timerfd_op_def Cancel_def tq_RunInLoop_def)
next
  case (Op_call c)
  have "safely tq_inv (run_call alloc clock c q)"
    using assms by (intro safely_mono [OF run_call_ok tq_frame_inv]) (simp_all add: tq_inv_def)
  with Op_call show ?thesis by (simp add: timerfd_op_def)
next
  case Op_functor
  show ?thesis
  proof (cases "loop_pending q")
    case (Cons f fs)
    from loop_functor_inv [OF assms(1) this, of clock] Op_functor Cons show ?thesis by (auto simp: timerfd_op_def)
  qed (use Op_functor assms(1) in \<open>simp add: timerfd_op_def\<close>)
next
  case (Op_expire now script)
  with HandleRead_ok [OF assms] show ?thesis by (auto simp: timerfd_op_def intro: safely_mono)
qed

lemma same_queue_inv: "same_queue q p \<Longrightarrow> tq_inv p = tq_inv q"
  using tq_core_cong [of p q] by (simp add: same_queue_fields tq_inv_def in_flight_def)

lemma new_queue_inv: "tq_inv TimerQueue_new"
  by (simp add: TimerQueue_new_def tq_inv_def tq_core_def in_flight_def)

section \<open>Properties\<close>

text \<open>
  C37. The two builds of the timer queue agree: under the same operations, at the same times and with the same callbacks, the
  queue that is driven by a \<^verbatim>\<open>timerfd\<close> and the one whose \<^verbatim>\<open>ProcessTimers\<close> the loop calls go through the same states, up to
  the descriptor itself, and fail in the same way, if at all; so no assertion fails and no deleted timer is used in the second build either.
\<close>

theorem Portable_timers_agree:
  assumes "alloc_fresh alloc"
  shows "same_result (for_each (timerfd_op alloc clock) ops TimerQueue_new) (for_each (portable_op alloc) ops TimerQueue_new)
    \<and> (for_each (portable_op alloc) ops TimerQueue_new = Inl BadAlloc
       \<or> (\<exists>p. for_each (portable_op alloc) ops TimerQueue_new = Inr p \<and> tq_inv p))"
proof -
  have "same_queue TimerQueue_new TimerQueue_new" by (simp add: same_queueI)
  from rel_for_each [OF op_same this] have same:
    "same_result (for_each (timerfd_op alloc clock) ops TimerQueue_new) (for_each (portable_op alloc) ops TimerQueue_new)" .
  have "safely tq_inv (for_each (timerfd_op alloc clock) ops TimerQueue_new)"
    by (rule safely_for_each [where P = tq_inv]) (simp_all add: new_queue_inv op_inv assms)
  with same show ?thesis
    by (cases "for_each (timerfd_op alloc clock) ops TimerQueue_new"; cases "for_each (portable_op alloc) ops TimerQueue_new")
      (auto simp: same_queue_inv)
qed

theorem Portable_timers_agree_witness:
  "\<exists>p. for_each (portable_op bump_alloc) [Op_foreign_add 7 (Timestamp 9) (Double 0 0), Op_functor, Op_expire (Timestamp 9) (\<lambda>_. [])] TimerQueue_new = Inr p
    \<and> tq_heap p = Map.empty \<and> num_created p = 1 \<and> tq_inv p"
proof -
  let ?ops = "[Op_foreign_add 7 (Timestamp 9) (Double 0 0), Op_functor, Op_expire (Timestamp 9) (\<lambda>_. [])]"
  have "\<exists>p. for_each (portable_op bump_alloc) ?ops TimerQueue_new = Inr p \<and> tq_heap p = Map.empty \<and> num_created p = 1"
    by (simp add: portable_op_def portable_AddTimer_post_def TimerQueue_new_def bump_alloc_def Timer_new_def portable_RunInLoop_def
        portable_run_functor_def portable_AddTimerInLoop_def Insert_def sizes_agree_def deref_def Let_def ProcessTimers_def GetExpired_def
        portable_Reset_def UINTPTR_MAX_def double_positive_def less_prod_def' less_timestamp_def std_insert_def std_erase_def)
  with Portable_timers_agree [OF bump_alloc_fresh, of undefined ?ops] show ?thesis by auto
qed

end
