(* ===== verification/Http_Session.thy ===== *)
theory Http_Session
  imports Http_Server Conn_Session Server_System
begin

text \<open>
  The HTTP server (\<^verbatim>\<open>net/http/http_server.cpp\<close>) as the user of a connection, from \<^verbatim>\<open>OnConnection\<close>, which puts an
  \<^verbatim>\<open>HttpContext\<close> into the connection's context slot, over all calls of \<^verbatim>\<open>OnMessage\<close>, to the end of the connection.

  The abstract server \<open>http_serve\<close> knows neither buffers nor partial writes: it appends what was read to what is pending,
  parses it line by line (\<open>parse_text\<close>) and says what is sent. It is an instance of the locale \<open>session_user\<close>.
  Shown on top of it: a client whose reads never span two requests gets the answer to each request, in order, up to
  and including the first that closes the connection.
\<close>

section \<open>The server's callbacks\<close>

text \<open>
  \<^verbatim>\<open>any_cast\<close> on an empty slot gives a null pointer. A loop that neither ends nor does anything observable is
  undefined behaviour in C++; both are shown not to happen.
\<close>

definition http_handler :: "http_callback \<Rightarrow> http_context option message_handler" where
  "http_handler cb receive_time buf slot =
     (case slot of
        None \<Rightarrow> Inl (UndefinedBehaviour ''null HttpContext*'')
      | Some ctx \<Rightarrow> (case OnMessage cb receive_time buf ctx of
            None \<Rightarrow> Inl (UndefinedBehaviour ''loop without progress'')
          | Some r \<Rightarrow> and_then r (\<lambda>(calls, buf', ctx').
              Inr (User_Retrieve (ReadableBytes buf - ReadableBytes buf') # calls, Some ctx'))))"

definition callback_ok :: "http_callback \<Rightarrow> bool" where
  "callback_ok cb \<longleftrightarrow> (\<forall>rq keep. list_all (\<lambda>r. response_small r \<and> length (response_text r) < 2 ^ 62) (cb rq (HttpResponse_new keep)))"

definition answers_to :: "http_callback \<Rightarrow> http_request \<Rightarrow> http_response list" where
  "answers_to cb rq = cb rq (HttpResponse_new (\<not> request_close rq))"

section \<open>HttpServer\<close>

text \<open>
  The object: a \<^verbatim>\<open>TcpServer\<close> and the user's callback, by default the one that answers 404. Its own callbacks are
  \<open>OnConnection\<close> and \<open>http_handler\<close> on that callback, which must be set before \<^verbatim>\<open>Start\<close>.
\<close>

record http_server =
  server :: tcp_server
  http_callback :: http_callback

definition HttpServer_new :: "bool \<Rightarrow> loop_addr \<Rightarrow> sockaddr_in \<Rightarrow> string \<Rightarrow> http_server outcome" where
  "HttpServer_new le loop listen_addr name =
     and_then (TcpServer_new le loop listen_addr name) (\<lambda>sv. Inr \<lparr>server = sv, http_callback = DefaultHttpCallback\<rparr>)"

definition set_http_callback :: "http_callback \<Rightarrow> http_server \<Rightarrow> http_server" where
  "set_http_callback cb h = h\<lparr>http_callback := cb\<rparr>"

definition HttpServer_set_thread_num :: "int \<Rightarrow> http_server \<Rightarrow> http_server outcome" where
  "HttpServer_set_thread_num n h = and_then (TcpServer_set_thread_num n (server h)) (\<lambda>sv. Inr (h\<lparr>server := sv\<rparr>))"

definition HttpServer_Start :: "(nat \<Rightarrow> loop_addr) \<Rightarrow> bool \<Rightarrow> http_server \<Rightarrow> http_server outcome" where
  "HttpServer_Start StartLoop in_loop h =
     and_then (TcpServer_Start StartLoop in_loop False (server h)) (\<lambda>sv. Inr (h\<lparr>server := sv\<rparr>))"

text \<open>Set up in the thread of its loop, an HTTP server listens, with its callback and its threads, as a run of the system theory.\<close>

lemma HttpServer_runs:
  assumes "0 \<le> n"
  shows "\<exists>h. and_then (HttpServer_new le loop addr name) (\<lambda>h0. and_then (HttpServer_set_thread_num n (set_http_callback cb h0))
      (HttpServer_Start StartLoop True)) = Inr h
    \<and> http_callback h = cb \<and> sv_listenning (server h) \<and> pool_loops (sv_pool (server h)) = map StartLoop [0..<nat n]
    \<and> sys_run (Inr \<lparr>ss_server = server h, ss_conns = Map.empty\<rparr>)"
  using server_starts [OF assms, of le loop addr name StartLoop False]
  by (auto simp: HttpServer_new_def set_http_callback_def HttpServer_set_thread_num_def HttpServer_Start_def)

section \<open>The abstract server\<close>

record http_serving =
  hs_sent :: string
  hs_pending :: string
  hs_context :: http_context
  hs_open :: bool
  hs_refused :: bool

definition http_start :: "string \<Rightarrow> http_serving" where
  "http_start peer_ip = \<lparr>hs_sent = [], hs_pending = [], hs_context = HttpContext_new peer_ip, hs_open = True, hs_refused = False\<rparr>"

fun answer_text :: "http_response list \<Rightarrow> string \<times> bool" where
  "answer_text [] = ([], True)"
| "answer_text (r # rs) = (if rs_keepalive r then (response_text r @ fst (answer_text rs), snd (answer_text rs))
     else (response_text r, False))"

definition http_serve :: "http_callback \<Rightarrow> timestamp \<times> string \<Rightarrow> http_serving \<Rightarrow> http_serving" where
  "http_serve cb read v =
     (if hs_refused v then v
      else let (ok, rest, ctx) = parse_text (fst read) (hs_pending v @ snd read) (hs_context v) in
        if \<not> ok then v\<lparr>hs_sent := hs_sent v @ (if hs_open v then bad_request_text else []), hs_open := False, hs_refused := True\<rparr>
        else let (text, keep) = (if GotAll ctx then answer_text (answers_to cb (ctx_request ctx)) else ([], True)) in
          v\<lparr>hs_sent := hs_sent v @ (if hs_open v then text else []), hs_pending := rest,
            hs_context := (if GotAll ctx then HttpContext_Reset ctx else ctx), hs_open := hs_open v \<and> keep\<rparr>)"

definition http_holds :: "http_serving \<Rightarrow> http_context option \<Rightarrow> string \<Rightarrow> bool" where
  "http_holds v slot pending \<longleftrightarrow> (\<exists>ctx. slot = Some ctx
     \<and> (if hs_refused v then \<not> hs_open v \<and> ctx_state ctx \<in> {kExpectRequestLine, kExpectHeaders}
        else ctx = hs_context v \<and> ctx_ready ctx \<and> pending = hs_pending v))"

definition http_failures :: "http_serving \<Rightarrow> abort set" where
  "http_failures v = (if hs_refused v then {AssertFailed ''method_ == kInvalid''} else {})"

section \<open>The callbacks implement the abstract server\<close>

definition response_calls :: "http_response \<Rightarrow> user_call list" where
  "response_calls r = User_Send (response_text r) # (if rs_keepalive r then [] else [User_Shutdown])"

lemma replies_response_calls:
  "replies (response_calls r @ us) = (if rs_keepalive r then (response_text r @ fst (replies us), snd (replies us)) else (response_text r, False))"
  by (simp add: response_calls_def)

lemma replies_responses: "replies (concat (map response_calls rs)) = answer_text rs"
  by (induction rs) (simp_all add: replies_response_calls)

lemma OnRequest_calls:
  assumes "callback_ok cb"
  shows "OnRequest cb rq = Inr (concat (map response_calls (answers_to cb rq)))"
    "list_all is_reply (concat (map response_calls (answers_to cb rq)))"
proof -
  let ?body = "\<lambda>resp calls. and_then (RequestDone resp) (\<lambda>more. Inr (calls @ more))"
  have each: "\<forall>r \<in> set (answers_to cb rq). response_small r \<and> length (response_text r) < 2 ^ 62"
    using assms by (auto simp: callback_ok_def list_all_iff answers_to_def)
  have each_done: "RequestDone r = Inr (response_calls r)" if "r \<in> set (answers_to cb rq)" for r
    using RequestDone_text [of r] each that by (simp add: response_calls_def)
  have "for_each ?body rs calls = Inr (calls @ concat (map response_calls rs))" if "set rs \<subseteq> set (answers_to cb rq)" for rs calls
    using that by (induction rs arbitrary: calls) (simp_all add: each_done)
  then show "OnRequest cb rq = Inr (concat (map response_calls (answers_to cb rq)))"
    by (simp add: OnRequest_def flip: answers_to_def)
  show "list_all is_reply (concat (map response_calls (answers_to cb rq)))"
    using each by (auto simp: list_all_iff response_calls_def split: if_splits)
qed

lemma http_handler_parsed:
  assumes cb: "callback_ok cb" and b: "wf_buffer b" and ready: "ctx_ready ctx"
    and p: "parse_text t (content b) ctx = (ok, rest, ctx')"
  shows "\<exists>n us. http_handler cb t b (Some ctx) = Inr (User_Retrieve n # us, Some (if ok \<and> GotAll ctx' then HttpContext_Reset ctx' else ctx'))
    \<and> n \<le> length (content b) \<and> drop n (content b) = rest \<and> list_all is_reply us
    \<and> replies us = (if \<not> ok then (bad_request_text, False)
        else if GotAll ctx' then answer_text (answers_to cb (ctx_request ctx')) else ([], True))"
proof -
  from ParseRequest_refines [OF b ready p] obtain b' where
    b': "ParseRequest b ctx t = Some (Inr (ok, b', ctx'))" "wf_buffer b'" "content b' = rest" by blast
  note post = parse_text_post [OF ready p]
  then obtain used where used: "content b = used @ rest" by blast
  have n: "ReadableBytes b - ReadableBytes b' = length used" using b b'(2,3) used by simp
  have bad: "GotAll ctx' \<longrightarrow> ok" using post by (auto simp: GotAll_def split: if_splits)
  define us where "us = (if \<not> ok then [User_Send bad_request_text, User_Shutdown]
      else if GotAll ctx' then concat (map response_calls (answers_to cb (ctx_request ctx'))) else [])"
  have "http_handler cb t b (Some ctx) = Inr (User_Retrieve (length used) # us, Some (if ok \<and> GotAll ctx' then HttpContext_Reset ctx' else ctx'))"
    using b'(1) n bad OnRequest_calls(1) [OF cb] by (simp add: http_handler_def OnMessage_def us_def)
  moreover have "list_all is_reply us"
    using OnRequest_calls(2) [OF cb] by (simp add: us_def bad_request_text_def CRLF_string_def)
  ultimately show ?thesis using used
    by (intro exI [of _ "length used"] exI [of _ us]) (simp add: us_def replies_responses)
qed

lemma ctx_ready_Reset: "ctx_ready (HttpContext_Reset ctx)"
  by (simp add: ctx_ready_def HttpContext_Reset_def HttpRequest_swap_def HttpRequest_new_def)

lemma http_handler_stale:
  assumes "ctx_state ctx = kExpectRequestLine" "rq_method (ctx_request ctx) \<noteq> Method_kInvalid"
  shows "http_handler cb t b (Some ctx) = Inl (AssertFailed ''method_ == kInvalid'')
    \<or> (\<exists>us. http_handler cb t b (Some ctx) = Inr (User_Retrieve 0 # us, Some ctx) \<and> list_all is_reply us)"
proof -
  have "ParseRequest_body t True b ctx = Inl (AssertFailed ''method_ == kInvalid'') \<or> (\<exists>ok. ParseRequest_body t True b ctx = Inr (ok, False, b, ctx))"
    using ProcessRequestLine_stale [OF assms(2), of "buf_bytes b" "Peek b" "the (FindCRLF b)"] assms(1)
    by (cases "FindCRLF b") (auto simp: ParseRequest_body_def)
  then have "ParseRequest b ctx t = Some (Inl (AssertFailed ''method_ == kInvalid'')) \<or> (\<exists>ok. ParseRequest b ctx t = Some (Inr (ok, b, ctx)))"
    by (auto simp: ParseRequest_def ParseRequest_loop.simps [of t True True b] ParseRequest_loop.simps [of t _ False])
  then show ?thesis using assms(1)
    by (auto simp: http_handler_def OnMessage_def GotAll_def bad_request_text_def CRLF_string_def)
qed

lemma http_handler_law:
  assumes cb: "callback_ok cb" and b: "wf_buffer b" "content b = pending @ seg" and holds: "http_holds v x pending"
  shows "case http_handler cb t b x of Inl e \<Rightarrow> e \<in> http_failures v
    | Inr (calls, x') \<Rightarrow> \<exists>n us. calls = User_Retrieve n # us \<and> n \<le> length (content b) \<and> list_all is_reply us
        \<and> http_holds (http_serve cb (t, seg) v) x' (drop n (content b))
        \<and> hs_sent (http_serve cb (t, seg) v) = hs_sent v @ (if hs_open v then fst (replies us) else [])
        \<and> hs_open (http_serve cb (t, seg) v) = (hs_open v \<and> snd (replies us))"
proof -
  from holds obtain ctx where x: "x = Some ctx" by (auto simp: http_holds_def)
  obtain ok rest ctx' where p: "parse_text t (content b) ctx = (ok, rest, ctx')" by (cases "parse_text t (content b) ctx")
  show ?thesis
  proof (cases "ctx_ready ctx")
    case True
    from http_handler_parsed [OF cb b(1) True p] obtain n us where
      h: "http_handler cb t b (Some ctx) = Inr (User_Retrieve n # us, Some (if ok \<and> GotAll ctx' then HttpContext_Reset ctx' else ctx'))"
        "n \<le> length (content b)" "drop n (content b) = rest" "list_all is_reply us"
        "replies us = (if \<not> ok then (bad_request_text, False)
          else if GotAll ctx' then answer_text (answers_to cb (ctx_request ctx')) else ([], True))" by blast
    have post: "ok \<and> \<not> GotAll ctx' \<Longrightarrow> ctx_ready ctx'" "\<not> ok \<Longrightarrow> ctx_state ctx' = kExpectRequestLine"
      using parse_text_post [OF True p] by (auto simp: GotAll_def)
    then have st: "ctx_state ctx' \<in> {kExpectRequestLine, kExpectHeaders}" if "\<not> (ok \<and> GotAll ctx')"
      using that by (cases ok) (auto simp: ctx_ready_def)
    have reset: "ctx_state (HttpContext_Reset ctx') = kExpectRequestLine" by (simp add: HttpContext_Reset_def)
    show ?thesis
    proof (cases "hs_refused v")
      case True
      then show ?thesis using h holds x st reset by (auto simp: http_serve_def http_holds_def)
    next
      case False
      then have "hs_context v = ctx" "hs_pending v = pending" using holds x by (simp_all add: http_holds_def)
      with False p b(2) h st post x show ?thesis
        by (auto simp: http_serve_def http_holds_def ctx_ready_Reset split: prod.splits)
    qed
  next
    case False
    then have r: "hs_refused v" "\<not> hs_open v" and st: "ctx_state ctx = kExpectRequestLine" "rq_method (ctx_request ctx) \<noteq> Method_kInvalid"
      using holds x by (auto simp: http_holds_def ctx_ready_def split: if_splits)
    then have "http_holds v (Some ctx) q" "http_serve cb (t, seg) v = v" for q by (simp_all add: http_holds_def http_serve_def)
    with http_handler_stale [OF st, of cb t b] r x show ?thesis by (auto simp: http_failures_def)
  qed
qed

text \<open>The slot after \<^verbatim>\<open>OnConnection\<close> on a new connection.\<close>

abbreviation http_context0 :: "string \<Rightarrow> http_context option" where
  "http_context0 peer_ip \<equiv> OnConnection peer_ip True None"

lemma http_session_user:
  "callback_ok cb \<Longrightarrow>
   session_user (http_handler cb) (http_context0 peer_ip) (http_serve cb) (http_start peer_ip) hs_sent hs_open http_holds http_failures"
  by unfold_locales (use http_handler_law in \<open>auto simp: http_start_def http_holds_def OnConnection_def\<close>)

lemma DefaultHttpCallback_ok: "callback_ok DefaultHttpCallback"
  by (simp add: callback_ok_def DefaultHttpCallback_def response_small_def HttpResponse_new_def k404NotFound_def
      response_text_def decimal_def decimal_nat.simps CRLF_string_def)

interpretation default_http: session_user "http_handler DefaultHttpCallback" "http_context0 peer_ip" "http_serve DefaultHttpCallback"
  "http_start peer_ip" hs_sent hs_open http_holds http_failures
  by (rule http_session_user [OF DefaultHttpCallback_ok])

section \<open>Conversations\<close>

text \<open>
  One request as it is read: in any number of pieces, each read at its own time. A callback that looks neither at the
  time of receipt nor at the address of the peer (which the context loses after the first request).
\<close>

definition request_read :: "http_request \<times> (timestamp \<times> string) list \<Rightarrow> bool" where
  "request_read q \<longleftrightarrow> printable (fst q) \<and> list_all (\<lambda>(_, seg). seg \<noteq> []) (snd q)
     \<and> concat (map snd (snd q)) = request_text (fst q)"

definition callback_blind :: "http_callback \<Rightarrow> bool" where
  "callback_blind cb \<longleftrightarrow> (\<forall>rq a t resp. cb (rq\<lparr>rq_remote_addr := a, rq_receivetime := t\<rparr>) resp = cb rq resp)"

definition served :: "http_callback \<Rightarrow> http_request \<Rightarrow> http_serving \<Rightarrow> http_serving" where
  "served cb rq v = (let (text, keep) = answer_text (answers_to cb rq) in
     v\<lparr>hs_sent := hs_sent v @ (if hs_open v then text else []), hs_pending := [],
       hs_context := HttpContext_Reset \<lparr>ctx_state = kGotAll, ctx_request = rq\<rparr>, hs_open := hs_open v \<and> keep\<rparr>)"

lemma serve_pieces:
  assumes "printable rq" "blank r0"
  shows "reads \<noteq> [] \<Longrightarrow> list_all (\<lambda>(_, seg). seg \<noteq> []) reads \<Longrightarrow> request_text rq = pre @ concat (map snd reads) \<Longrightarrow>
    parse_text T pre \<lparr>ctx_state = kExpectRequestLine, ctx_request = r0\<rparr> = (True, hs_pending v, c1) \<Longrightarrow> ctx_state c1 \<noteq> kGotAll \<Longrightarrow>
    hs_context v = ctx_time u c1 \<Longrightarrow> \<not> hs_refused v \<Longrightarrow>
    \<exists>t. fold (http_serve cb) reads v = served cb (rq\<lparr>rq_remote_addr := rq_remote_addr r0, rq_receivetime := t\<rparr>) v"
proof (induction reads arbitrary: pre v c1 u)
  case (Cons read reads)
  let ?ctx0 = "\<lparr>ctx_state = kExpectRequestLine, ctx_request = r0\<rparr>"
  let ?rq = "\<lambda>t. rq\<lparr>rq_remote_addr := rq_remote_addr r0, rq_receivetime := t\<rparr>"
  obtain t seg where read: "read = (t, seg)" by (cases read)
  have ready: "ctx_ready ?ctx0" using assms(2) by (simp add: ctx_ready_def blank_def)
  have whole: "parse_text T (request_text rq) ?ctx0 = (True, [], \<lparr>ctx_state = kGotAll, ctx_request = ?rq T\<rparr>)"
    using parse_request_blank [OF assms, of T "[]"] by simp
  obtain ok rest c2 where p: "parse_text T (pre @ seg) ?ctx0 = (ok, rest, c2)" by (cases "parse_text T (pre @ seg) ?ctx0")
  with parse_text_append [OF ready Cons.prems(4,5)] have "parse_text T (hs_pending v @ seg) c1 = (ok, rest, c2)" by simp
  from parse_text_time [OF this] obtain u' where p': "parse_text t (hs_pending v @ seg) (hs_context v) = (ok, rest, ctx_time u' c2)"
    using Cons.prems(6) by metis
  show ?case
  proof (cases "reads = []")
    case True
    then have "ok" "rest = []" "c2 = \<lparr>ctx_state = kGotAll, ctx_request = ?rq T\<rparr>" using p whole Cons.prems(3) read by simp_all
    then have "http_serve cb read v = served cb (?rq u') v"
      using p' read Cons.prems(7) by (simp add: http_serve_def served_def GotAll_def ctx_time_def)
    with True show ?thesis by auto
  next
    case False
    then have tail: "concat (map snd reads) \<noteq> []" using Cons.prems(2) by (cases reads) auto
    have "ok \<and> ctx_state c2 \<noteq> kGotAll"
      using parse_text_decided [OF p, of "concat (map snd reads)"] whole Cons.prems(3) read tail by auto
    then have v: "http_serve cb read v = v\<lparr>hs_pending := rest, hs_context := ctx_time u' c2\<rparr>"
      using p' read Cons.prems(7) by (simp add: http_serve_def GotAll_def)
    have "\<exists>t. fold (http_serve cb) reads (v\<lparr>hs_pending := rest, hs_context := ctx_time u' c2\<rparr>) =
        served cb (?rq t) (v\<lparr>hs_pending := rest, hs_context := ctx_time u' c2\<rparr>)"
      by (rule Cons.IH [of "pre @ seg" _ c2 u']) (use False Cons.prems p read \<open>ok \<and> ctx_state c2 \<noteq> kGotAll\<close> in auto)
    then show ?thesis using v by (simp add: served_def)
  qed
qed simp

lemma answer_text_append:
  "answer_text (xs @ ys) = (if snd (answer_text xs) then (fst (answer_text xs) @ fst (answer_text ys), snd (answer_text ys)) else answer_text xs)"
  by (induction xs) auto

lemma answers_blind:
  "callback_blind cb \<Longrightarrow> answers_to cb (rq\<lparr>rq_remote_addr := a, rq_receivetime := t\<rparr>) = answers_to cb rq"
  by (simp add: answers_to_def callback_blind_def request_close_def GetHeader_def)

lemma request_text_nonempty: "request_text rq \<noteq> []"
  by (simp add: request_text_def)

lemma served_request:
  assumes "request_read q" "callback_blind cb" "\<not> hs_refused v" "hs_pending v = []"
    and "hs_context v = \<lparr>ctx_state = kExpectRequestLine, ctx_request = r0\<rparr>" "blank r0"
  shows "\<exists>t. fold (http_serve cb) (snd q) v = served cb ((fst q)\<lparr>rq_remote_addr := rq_remote_addr r0, rq_receivetime := t\<rparr>) v"
proof -
  have ne: "snd q \<noteq> []" using assms(1) request_text_nonempty [of "fst q"] by (auto simp: request_read_def)
  have q: "printable (fst q)" "list_all (\<lambda>(_, seg). seg \<noteq> []) (snd q)" "request_text (fst q) = [] @ concat (map snd (snd q))"
    using assms(1) by (simp_all add: request_read_def)
  have p: "parse_text Timestamp_Invalid [] \<lparr>ctx_state = kExpectRequestLine, ctx_request = r0\<rparr> = (True, hs_pending v, hs_context v)"
    using assms(4,5) by (simp add: parse_text.simps)
  have c: "hs_context v = ctx_time (rq_receivetime r0) (hs_context v)" "ctx_state (hs_context v) \<noteq> kGotAll"
    using assms(5) by (simp_all add: ctx_time_def)
  show ?thesis by (rule serve_pieces [OF q(1) assms(6) ne q(2,3) p c(2,1) assms(3)])
qed

lemma conversation:
  assumes "callback_blind cb"
  shows "list_all request_read talk \<Longrightarrow> \<not> hs_refused v \<Longrightarrow> hs_pending v = [] \<Longrightarrow>
    hs_context v = \<lparr>ctx_state = kExpectRequestLine, ctx_request = r0\<rparr> \<Longrightarrow> blank r0 \<Longrightarrow>
    v' = fold (http_serve cb) (concat (map snd talk)) v \<Longrightarrow>
    (out, keep) = answer_text (concat (map (\<lambda>q. answers_to cb (fst q)) talk)) \<Longrightarrow>
    \<not> hs_refused v' \<and> hs_pending v' = [] \<and> hs_sent v' = hs_sent v @ (if hs_open v then out else []) \<and> hs_open v' = (hs_open v \<and> keep)"
proof (induction talk arbitrary: v r0 out keep)
  case (Cons q talk)
  let ?rs = "concat (map (\<lambda>q. answers_to cb (fst q)) talk)"
  from served_request [OF _ assms Cons.prems(2-5), of q] Cons.prems(1) obtain t where
    v1: "fold (http_serve cb) (snd q) v = served cb ((fst q)\<lparr>rq_remote_addr := rq_remote_addr r0, rq_receivetime := t\<rparr>) v" by auto
  let ?v1 = "served cb ((fst q)\<lparr>rq_remote_addr := rq_remote_addr r0, rq_receivetime := t\<rparr>) v"
  obtain x k where a: "answer_text (answers_to cb (fst q)) = (x, k)" by (cases "answer_text (answers_to cb (fst q))")
  have v1': "\<not> hs_refused ?v1" "hs_pending ?v1 = []" "hs_sent ?v1 = hs_sent v @ (if hs_open v then x else [])" "hs_open ?v1 = (hs_open v \<and> k)"
    using Cons.prems(2) a by (simp_all add: served_def answers_blind [OF assms])
  obtain r1 where r1: "hs_context ?v1 = \<lparr>ctx_state = kExpectRequestLine, ctx_request = r1\<rparr>" "blank r1"
    by (simp add: served_def answers_blind [OF assms] a HttpContext_Reset_def HttpRequest_swap_def HttpRequest_new_def blank_def)
  have "v' = fold (http_serve cb) (concat (map snd talk)) ?v1" using Cons.prems(6) v1 by simp
  from Cons.IH [OF _ v1'(1,2) r1 this, of "fst (answer_text ?rs)" "snd (answer_text ?rs)"] Cons.prems(1,7) v1'(3,4) a show ?case
    by (auto simp: answer_text_append split: if_splits)
qed (simp_all)

section \<open>Properties\<close>

lemma http_session:
  assumes "callback_ok cb" "session_run (http_handler cb) (http_context0 peer_ip) (ch, c, u)"
    and v: "v = fold (http_serve cb) (se_reads u) (http_start peer_ip)"
  shows "settled (ch, c)" "accepted c = hs_sent v" "http_holds v (se_context u) (content (input_buffer c))"
    "tc_state c \<noteq> kDisconnected \<Longrightarrow> tc_state c = kConnected \<longleftrightarrow> hs_open v"
    "socket_out c @ content (output_buffer c) = accepted c"
    "tc_state c = kDisconnecting \<Longrightarrow> write_shut c \<longleftrightarrow> socket_out c = accepted c"
proof -
  note su = http_session_user [OF assms(1), of peer_ip]
  note ok = session_user.session_run_ok [OF su assms(2)]
  note ok' = ok [unfolded session_user.session_ok_def [OF su] session_user.so_far_def [OF su] prod.case, folded v]
  then show st: "settled (ch, c)" and "accepted c = hs_sent v" "http_holds v (se_context u) (content (input_buffer c))"
    "tc_state c \<noteq> kDisconnected \<Longrightarrow> tc_state c = kConnected \<longleftrightarrow> hs_open v" by blast+
  from st show out: "socket_out c @ content (output_buffer c) = accepted c" by (simp add: settled_def conn_live_def conn_inv_def)
  then have "content (output_buffer c) = [] \<longleftrightarrow> socket_out c = accepted c" by (metis append.right_neutral append_self_conv)
  with st show "tc_state c = kDisconnecting \<Longrightarrow> write_shut c \<longleftrightarrow> socket_out c = accepted c" by (simp add: settled_def)
qed

text \<open>
  C14. The HTTP server implements the abstract server on every connection, from \<^verbatim>\<open>OnConnection\<close> to the end and for any
  sizes of reads and writes: what was accepted for sending is what the abstract server sends on what was read; context and
  unread bytes are its state; the connection is open exactly as long as the abstract server keeps it open, and a
  closing connection is shut down exactly when everything has been handed to the kernel. An event handler stops only
  because a buffer outgrows what a vector can hold, or at the assertion in \<^verbatim>\<open>set_method\<close> after a request has been refused;
  in particular the parser always returns.
\<close>

theorem Http_session_refines:
  assumes "callback_ok cb" "session_run (http_handler cb) (http_context0 peer_ip) (ch, c, u)"
    and "v = fold (http_serve cb) (se_reads u) (http_start peer_ip)"
    and "write_ok write" "write_healthy write" "readv_fits readv"
  shows "accepted c = hs_sent v \<and> socket_out c @ content (output_buffer c) = accepted c
    \<and> (\<not> hs_refused v \<longrightarrow> se_context u = Some (hs_context v) \<and> content (input_buffer c) = hs_pending v)
    \<and> (tc_state c \<noteq> kDisconnected \<longrightarrow> (tc_state c = kConnected \<longleftrightarrow> hs_open v))
    \<and> (tc_state c = kDisconnecting \<longrightarrow> (write_shut c \<longleftrightarrow> socket_out c = accepted c))
    \<and> (\<not> IsNoneEvent ch \<and> reported got \<longrightarrow>
        (case session_HandleEvent (http_handler cb) write readv t got (ch, c, u) of
           Inl e \<Rightarrow> e = LengthError \<or> hs_refused v \<and> e = AssertFailed ''method_ == kInvalid'' | Inr _ \<Rightarrow> True))"
proof -
  note su = http_session_user [OF assms(1), of peer_ip]
  note h = http_session [OF assms(1-3)]
  have "case session_HandleEvent (http_handler cb) write readv t got (ch, c, u) of
      Inl e \<Rightarrow> e = LengthError \<or> hs_refused v \<and> e = AssertFailed ''method_ == kInvalid'' | Inr _ \<Rightarrow> True"
    if "\<not> IsNoneEvent ch" "reported got"
    using session_user.session_event_ok [OF su assms(4-6) session_user.session_run_ok [OF su assms(2)] that, of t]
    by (auto simp: session_user.so_far_def [OF su] http_failures_def simp flip: assms(3) split: sum.split if_splits)
  with h show ?thesis by (auto simp: http_holds_def)
qed

theorem Http_session_refines_witness:
  "\<exists>ch c u. session_run (http_handler DefaultHttpCallback) (http_context0 ''::1'') (ch, c, u)
    \<and> accepted c = [] \<and> content (input_buffer c) = ''GET /'' \<and> tc_state c \<in> {kConnected, kDisconnected}"
proof -
  let ?ctx = "HttpContext_new ''::1''" and ?read = "(Timestamp_Invalid, ''GET /'')"
  have p: "parse_text Timestamp_Invalid ''GET /'' ?ctx = (True, ''GET /'', ?ctx)" by (simp add: parse_text.simps)
  have got: "\<not> GotAll ?ctx" by (simp add: GotAll_def HttpContext_new_def)
  have "\<exists>ch c u. session_run (http_handler DefaultHttpCallback) (http_context0 ''::1'') (ch, c, u) \<and> se_reads u = [?read]"
  proof (rule session_reads)
    fix b
    assume "wf_buffer b" "content b = ''GET /''"
    with http_handler_parsed [OF DefaultHttpCallback_ok _ ctx_ready_new, of b Timestamp_Invalid "''::1''" True "''GET /''" ?ctx] p
    show "\<exists>n us x'. http_handler DefaultHttpCallback Timestamp_Invalid b (http_context0 ''::1'') = Inr (User_Retrieve n # us, x')
        \<and> n \<le> length ''GET /'' \<and> list_all is_reply us" by (auto simp: OnConnection_def)
  qed simp_all
  then obtain ch c u where s: "session_run (http_handler DefaultHttpCallback) (http_context0 ''::1'') (ch, c, u)" "se_reads u = [?read]" by blast
  have v: "fold (http_serve DefaultHttpCallback) (se_reads u) (http_start ''::1'') = (http_start ''::1'')\<lparr>hs_pending := ''GET /''\<rparr>"
    using p got s(2) by (simp add: http_serve_def http_start_def)
  have "readv_fits (\<lambda>_. Inl EWOULDBLOCK)" by (simp add: readv_fits_def)
  from Http_session_refines [OF DefaultHttpCallback_ok s(1) v [symmetric] prompt_write_ok this, of POLLIN Timestamp_Invalid] s(1) show ?thesis
    by (intro exI [of _ ch] exI [of _ c] exI [of _ u]) (cases "tc_state c"; simp add: http_start_def)
qed

end
