(* ===== verification/Spec2Isabelle.thy ===== *)
theory Spec2Isabelle
  imports Timer_Queue Pollers Event_Loop Loop_Threads Tcp_Connection Http_Request Http_Server
    Thread_Pool Connector Inet_Address Tcp_Server Tcp_Client Timestamp_Text Logger Echo_Server
    Buffer_Type Loop_Thread_Life Loop_Registry Sockets Acceptor Server_System Thread_Pool_Stop Timer_Timeout
    Conn_Session Http_Session Sockets_Portable
begin

text \<open>
  Verification of \<^verbatim>\<open>muduo-cpp11\<close>, an event-driven TCP library in C++: one event loop per thread, and on top of
  it connections, servers, clients and an HTTP server. All paths below are relative to
  \<^verbatim>\<open>src/muduo-cpp11/\<close>.

  \<^bold>\<open>The program.\<close> An \<^verbatim>\<open>EventLoop\<close> blocks in a \<^verbatim>\<open>Poller\<close> (epoll or poll) that knows the \<^verbatim>\<open>Channel\<close>s of the
  loop. A channel pairs a descriptor with an event mask and dispatches what the poller reports to its
  callbacks. Other threads talk to a loop by queueing functors and writing its wakeup descriptor. A
  \<^verbatim>\<open>TimerQueue\<close> turns one timerfd into many timers. A \<^verbatim>\<open>TcpConnection\<close> owns a channel and two \<^verbatim>\<open>Buffer\<close>s; it is
  created by a \<^verbatim>\<open>TcpServer\<close> (from its \<^verbatim>\<open>Acceptor\<close>, on a loop chosen by an \<^verbatim>\<open>EventLoopThreadPool\<close>) or by a
  \<^verbatim>\<open>TcpClient\<close> (from its \<^verbatim>\<open>Connector\<close>). The \<^verbatim>\<open>HttpServer\<close> parses requests out of a connection's input buffer.

  \<^bold>\<open>How code becomes HOL.\<close> A class is a record, an operation a function that returns the new state. A
  failed \<^verbatim>\<open>assert\<close>, a \<^verbatim>\<open>LOG(FATAL)\<close>, a library exception and undefined behaviour are the \<open>Inl\<close> values of the
  type \<open>outcome\<close> (theory \<open>Muduo_Prelude\<close>), so "no assertion fails" is a statement about results. Objects
  reached by raw pointers (timers, channels) live in explicit heaps. Code that other threads can interrupt is
  cut into steps at the points where they can, and runs are inductive relations over all interleavings. A
  name that two classes share carries the class as a prefix (\<open>TimerQueue_HandleRead\<close>, \<open>Connector_HandleWrite\<close>).

  \<^bold>\<open>Theories, bottom up.\<close>
  \<^item> \<open>Muduo_Prelude\<close>: outcomes, \<^verbatim>\<open>size_t\<close> and \<^verbatim>\<open>int\<close> arithmetic with its wrap-around, \<^verbatim>\<open>std::search\<close>, \<^verbatim>\<open>std::find\<close> and
    \<^verbatim>\<open>memcpy\<close>-like functions, shared list lemmas. \<open>Std_Containers\<close>: \<^verbatim>\<open>std::set\<close> and \<^verbatim>\<open>std::map\<close> as ordered lists, seen
    through the locale \<open>ordered_set\<close>. \<open>Decimal\<close>: \<^verbatim>\<open>%d\<close> and \<^verbatim>\<open>snprintf\<close>.
  \<^item> \<open>Endian\<close> (\<^verbatim>\<open>net/endian.h\<close>): conversions at their word width, the locale \<open>wire_int\<close>, interpreted once per width.
  \<^item> \<open>String_Piece\<close> (\<^verbatim>\<open>base/string_piece.h\<close>): views and the comparison operators.
  \<^item> \<open>Buffer\<close> (\<^verbatim>\<open>net/buffer.h\<close>, \<^verbatim>\<open>buffer.cpp\<close>): vector and indices; the locale \<open>byte_queue\<close> is its contract,
    interpreted on \<^verbatim>\<open>Append\<close>, \<^verbatim>\<open>Retrieve\<close> and their like; \<^verbatim>\<open>ReadFd\<close>, integers on the wire, line search.
    \<open>Buffer_Type\<close>: the public interface as a language of calls, and its type safety.
  \<^item> \<open>Timestamps\<close>, \<open>Timestamp_Text\<close> (\<^verbatim>\<open>base/timestamp.h\<close>, \<^verbatim>\<open>.cpp\<close>): an instance of \<open>linorder\<close>; \<^verbatim>\<open>AddTime\<close> with IEEE
    rounding; the printed forms.
  \<^item> \<open>Timer_Queue\<close> (\<^verbatim>\<open>net/timer.h\<close>, \<^verbatim>\<open>timer.cpp\<close>, \<^verbatim>\<open>timer_id.h\<close>, \<^verbatim>\<open>timer_queue.h\<close>, \<^verbatim>\<open>.cpp\<close>): heap of timers, the two sets,
    expiry, restart, cancellation, arming of the timerfd, for every behaviour of the user's callbacks. \<open>Timer_Timeout\<close>:
    the build without timerfd, where the loop polls with a timeout and calls \<^verbatim>\<open>ProcessTimers\<close>.
  \<^item> \<open>Channel\<close> (\<^verbatim>\<open>net/channel.h\<close>, \<^verbatim>\<open>.cpp\<close>) and \<open>Pollers\<close> (\<^verbatim>\<open>net/poller.h\<close>, \<^verbatim>\<open>.cpp\<close>, \<^verbatim>\<open>net/poller/\<close>): dispatch and registration;
    the locale \<open>channel_registry\<close> is what the loop relies on, interpreted on both pollers.
  \<^item> \<open>Event_Loop\<close> (\<^verbatim>\<open>net/event_loop.h\<close>, \<^verbatim>\<open>.cpp\<close>): the loop as a program counter, functors and wakeups from any thread.
    \<open>Loop_Threads\<close> (\<^verbatim>\<open>net/event_loop_thread_pool.h\<close>, \<^verbatim>\<open>.cpp\<close>): the pool and its choice of a loop. \<open>Loop_Thread_Life\<close>
    (\<^verbatim>\<open>net/event_loop_thread.h\<close>, \<^verbatim>\<open>.cpp\<close>): a thread with its loop, from \<^verbatim>\<open>StartLoop\<close> to the destructor of the owner. \<open>Loop_Registry\<close> (constructor and destructor of
    \<^verbatim>\<open>EventLoop\<close>, with \<^verbatim>\<open>net/poller/default_poller.cpp\<close>): loops, their threads and their descriptors.
  \<^item> \<open>Tcp_Connection\<close> (\<^verbatim>\<open>net/tcp_connection.h\<close>, \<^verbatim>\<open>.cpp\<close>): the state machine and the byte stream. \<open>Conn_Session\<close>: a
    connection with its context slot and callbacks that keep their state in it, from \<^verbatim>\<open>ConnectEstablished\<close> on; the locale \<open>session_user\<close> says what
    such callbacks promise (they implement an abstract server, a fold over what was read) and gives the behaviour of every run of the connection. It is
    interpreted for the echo server and for the HTTP server. \<open>Echo_Server\<close> (\<^verbatim>\<open>examples/echo/\<close>, beside the library): the example, from
    \<^verbatim>\<open>main\<close> to its handlers.
  \<^item> \<open>Inet_Address\<close> (\<^verbatim>\<open>net/inet_address.h\<close>, \<^verbatim>\<open>.cpp\<close>, the conversions of \<^verbatim>\<open>net/sockets_ops.cpp\<close>), \<open>Sockets\<close>
    (the calls of \<^verbatim>\<open>net/sockets_ops.cpp\<close>, \<^verbatim>\<open>net/socket.h\<close>, \<^verbatim>\<open>.cpp\<close>), \<open>Sockets_Portable\<close> (the same without \<^verbatim>\<open>accept4\<close>), \<open>Acceptor\<close> (\<^verbatim>\<open>net/acceptor.h\<close>, \<^verbatim>\<open>.cpp\<close>), \<open>Connector\<close>
    (\<^verbatim>\<open>net/connector.h\<close>, \<^verbatim>\<open>.cpp\<close>), \<open>Tcp_Server\<close> (\<^verbatim>\<open>net/tcp_server.h\<close>, \<^verbatim>\<open>.cpp\<close>), \<open>Tcp_Client\<close>
    (\<^verbatim>\<open>net/tcp_client.h\<close>, \<^verbatim>\<open>.cpp\<close>, together with the connector). \<open>Server_System\<close>: a server, its connections as full objects,
    the functors of the loops, weak references (\<^verbatim>\<open>base/weak_callback.h\<close>) and released connections, interleaved.
  \<^item> \<open>Http_Request\<close> (\<^verbatim>\<open>net/http/http_request.h\<close>, \<^verbatim>\<open>http_context.h\<close>, the parser of \<^verbatim>\<open>http_server.cpp\<close>) and \<open>Http_Server\<close>
    (\<^verbatim>\<open>net/http/http_response.h\<close>, \<^verbatim>\<open>.cpp\<close>, \<^verbatim>\<open>http_server.h\<close>, \<^verbatim>\<open>.cpp\<close>).
    \<open>Http_Session\<close>: the server object, its callbacks as the user of a connection, and the abstract HTTP server they implement.
  \<^item> \<open>Thread_Pool\<close> (\<^verbatim>\<open>base/blocking_queue.h\<close>, \<^verbatim>\<open>base/thread_pool.h\<close>, \<^verbatim>\<open>.cpp\<close>): the locale \<open>condition_variable\<close> counts woken
    threads against work and is interpreted for takers, workers and producers. \<open>Thread_Pool_Stop\<close>: \<^verbatim>\<open>Stop\<close>, the destructor, tasks that throw.
  \<^item> \<open>Logger\<close> (\<^verbatim>\<open>base/logging.h\<close>, \<^verbatim>\<open>.cpp\<close>): the library's own logger.

  \<^bold>\<open>What is shown.\<close>
  \<^item> Safety in every run: no assertion fails and nothing freed is used, for the timer queue, both pollers,
    connections, the connector, the server together with its connections, the client with its connector and the
    thread pool; each by an invariant and rule induction over the run. A buffer is type safe under its whole
    interface. An acceptor closes no descriptor but its own and gives all of them back, and so
    do event loops, of which a thread has at most one.
  \<^item> Data integrity: a buffer is a byte queue; a connection writes the accepted messages in order and shuts the
    write side down only afterwards; the echo server returns what it read, in every run of a connection; the HTTP server
    answers every run of a connection as an abstract server does, and a conversation gets its responses in order (this theory); the logger loses no line while
    writes succeed; functors, queue elements and tasks leave in the order they came.
  \<^item> Progress: no wakeup of the loop, the blocking queue or the pool is lost; the HTTP parser returns exactly
    when entered in a state it handles; an iteration of the loop runs all that was queued before it; the destructor of a loop thread joins it when only the destructor ends the loop;
    \<^verbatim>\<open>Stop\<close> and the destructor of a thread pool return.
  \<^item> Specifications and round trips: the HTTP parser computes the line-by-line function \<open>parse_text\<close>, does not
    depend on segmentation, and reads a printed request back; the two builds of the timer queue agree; integers, addresses and timestamps are read back
    from their encodings; retry delays are the closed form \<open>min (500 * 2 ^ i) 30000\<close>.
  \<^item> Where the code falls short of its intention, the exact failing run is a theorem: \<open>Bad_request_then_abort\<close>,
    \<open>Connect_after_close_aborts\<close>, \<open>ConnectDestroyed_fails_while_disconnecting\<close>, \<open>Stop_strands_producer\<close>,
    \<open>StartLoop_result_and_hang\<close>, \<open>EventLoopThread_destructor_failures\<close>, \<open>EnsureWritableBytes_wraps\<close>, \<open>ThreadPool_failures\<close>,
    \<open>Long_fatal_message_returns\<close>, \<open>GetTimeout_overflows\<close>, \<open>AddTime_TimeDifference_loses_a_microsecond\<close>, \<open>Cancel_before_queued_add_is_lost\<close>, \<open>AddTimer_foreign_use_after_free\<close>,
    \<open>Poll_reenabled_channel_is_ignored\<close>, \<open>Poll_removed_channel_cannot_return\<close>, \<open>Queue_before_Loop_sleeps\<close>,
    \<open>Quit_before_Loop_is_lost\<close>, \<open>Stop_Start_before_retry_aborts\<close>, \<open>Long_connection_names_collide\<close>,
    \<open>Shrink_keeps_small_content\<close> (whose bound is sharp), \<open>Portable_accept\<close>.

  \<^bold>\<open>Parameters and hypotheses.\<close> System calls are parameters: \<^verbatim>\<open>epoll_ctl\<close> with the law \<open>epoll_law\<close> of its manual
  page; \<^verbatim>\<open>readv\<close> and \<^verbatim>\<open>write\<close>, which do not report more bytes than they were given, \<^verbatim>\<open>write\<close> failing with \<^verbatim>\<open>EPIPE\<close> after a shutdown
  (where an answer is promised, also that it fails only with \<^verbatim>\<open>EWOULDBLOCK\<close> before); the calls on sockets with the law
  \<open>os_law\<close>, which says what they do to the set of open descriptors;
  \<^verbatim>\<open>connect\<close>, \<^verbatim>\<open>epoll_wait\<close> and \<^verbatim>\<open>poll\<close> by their results; \<^verbatim>\<open>operator new\<close>, which returns a fresh address; the clock;
  \<^verbatim>\<open>gmtime_r\<close>. User callbacks are arbitrary sequences of calls on the object that runs them.

  \<^bold>\<open>Bounds.\<close> Buffers are bounded by what a \<^verbatim>\<open>std::vector\<close> can hold, the input of the parser by \<^verbatim>\<open>INT_MAX\<close> where
  the code narrows to \<^verbatim>\<open>int\<close>; connection numbers by what \<^verbatim>\<open>char buf[32]\<close> holds beside the address (always below
  ten to the eighth). Microsecond counts are unbounded integers. No fuel is used: the one loop that can spin for ever is a
  \<open>partial_function (option)\<close> and its termination is characterised by an equivalence.

  \<^bold>\<open>Not modelled.\<close> \<^verbatim>\<open>base/macros.h\<close>, \<^verbatim>\<open>type_conversion.h\<close> and \<^verbatim>\<open>net/callbacks.h\<close> (macros, casts, types);
  accessors and setters of one field where the field is written directly; the singleton of the logger and what modules log; the context slot of
  loops, which the library never reads; an HTTP callback that answers after it has returned; the race inside a \<^verbatim>\<open>Send\<close> of another thread, between its test of the state and
  the queueing of a functor that holds a plain pointer (a call is one step here); the socket pair that replaces the eventfd on systems without it; build files.
\<close>

section \<open>HTTP over a connection\<close>

text \<open>
  C17. What a client of the HTTP server sees, from the bytes read to the bytes sent: it sends requests, each read in any number of pieces (no
  read spans two requests), on one connection whose writes may be short or refused for now. Then what was accepted for sending is the printed
  responses to these requests, in order, up to and including the first that is not keep-alive; what
  the socket has taken followed by what is still queued is that stream; the connection is open exactly if
  all responses were keep-alive, and a closing connection is shut down exactly when the last response has been handed
  to the kernel. The callback is any one whose answer does not depend on the time of receipt and the peer's address.
\<close>

theorem Http_conversation:
  assumes "callback_ok cb" "callback_blind cb" "session_run (http_handler cb) (http_context0 peer_ip) (ch, c, u)"
    and "list_all request_read talk" "se_reads u = concat (map snd talk)"
    and "(out, stays) = answer_text (concat (map (\<lambda>q. answers_to cb (fst q)) talk))"
  shows "accepted c = out \<and> socket_out c @ content (output_buffer c) = out \<and> content (input_buffer c) = []
    \<and> (tc_state c \<noteq> kDisconnected \<longrightarrow> (tc_state c = kConnected \<longleftrightarrow> stays))
    \<and> (tc_state c = kDisconnecting \<longrightarrow> (write_shut c \<longleftrightarrow> socket_out c = out))"
proof -
  let ?v = "fold (http_serve cb) (se_reads u) (http_start peer_ip)"
  have "\<not> hs_refused ?v \<and> hs_pending ?v = [] \<and> hs_sent ?v = out \<and> hs_open ?v = stays"
    using conversation [OF assms(2,4), of "http_start peer_ip" "HttpRequest_new\<lparr>rq_remote_addr := peer_ip\<rparr>" ?v out stays] assms(5,6)
    by (simp add: http_start_def HttpContext_new_def)
  with http_session [OF assms(1,3) refl] show ?thesis by (auto simp: http_holds_def)
qed

theorem Http_conversation_witness:
  "\<exists>ch c u. session_run (http_handler DefaultHttpCallback) (http_context0 ''::1'') (ch, c, u)
    \<and> accepted c = fst (answer_text (answers_to DefaultHttpCallback sample_request))
    \<and> socket_out c @ content (output_buffer c) = accepted c \<and> tc_state c \<noteq> kConnected"
proof -
  let ?text = "request_text sample_request" and ?answers = "answers_to DefaultHttpCallback sample_request"
  let ?talk = "[(sample_request, [(Timestamp_Invalid, ?text)])]"
  have small: "?text \<noteq> []" "length ?text < 1000"
    by (simp_all add: request_text_def sample_request_def method_string_def version_string_def header_text_def)
  have rq: "rq_remote_addr sample_request = ''::1''" "rq_receivetime sample_request = Timestamp_Invalid"
    by (simp_all add: sample_request_def)
  have "\<exists>ch c u. session_run (http_handler DefaultHttpCallback) (http_context0 ''::1'') (ch, c, u) \<and> se_reads u = [(Timestamp_Invalid, ?text)]"
  proof (rule session_reads [OF small])
    fix b
    assume b: "wf_buffer b" "content b = ?text"
    have "parse_text Timestamp_Invalid (content b) (HttpContext_new ''::1'') = (True, [], \<lparr>ctx_state = kGotAll, ctx_request = sample_request\<rparr>)"
      using parse_request_text [OF printable_sample rq, of "[]"] b(2) by simp
    from http_handler_parsed [OF DefaultHttpCallback_ok b(1) ctx_ready_new this] b(2)
    show "\<exists>n us x'. http_handler DefaultHttpCallback Timestamp_Invalid b (http_context0 ''::1'') = Inr (User_Retrieve n # us, x')
        \<and> n \<le> length ?text \<and> list_all is_reply us" by (auto simp: OnConnection_def)
  qed
  then obtain ch c u where s: "session_run (http_handler DefaultHttpCallback) (http_context0 ''::1'') (ch, c, u)"
    "se_reads u = concat (map snd ?talk)" by auto
  have talk: "list_all request_read ?talk" using small printable_sample by (simp add: request_read_def)
  have blind: "callback_blind DefaultHttpCallback" by (simp add: callback_blind_def DefaultHttpCallback_def)
  have closes: "\<not> snd (answer_text ?answers)" by (simp add: answers_to_def DefaultHttpCallback_def)
  have "(fst (answer_text ?answers), snd (answer_text ?answers)) = answer_text (concat (map (\<lambda>q. answers_to DefaultHttpCallback (fst q)) ?talk))"
    by simp
  from Http_conversation [OF DefaultHttpCallback_ok blind s(1) talk s(2) this] closes s(1) show ?thesis
    by (intro exI [of _ ch] exI [of _ c] exI [of _ u]) (cases "tc_state c"; simp)
qed

end
